(* ===== verification/Prelude.thy ===== *)
theory Prelude imports Main begin

text \<open>
  What every component shares: the exceptions the code raises as values, SQL statements on
  tables that are lists of rows, HTTP responses, and generic lemmas on lists and options.
\<close>

section \<open>Exceptions\<close>

datatype py_error = ValueError | KeyError | TypeError | AttributeError | RuntimeError | OverflowError
  | ImportError | ConnectionError | DatabaseError | MultipleResultsFound | IntegrityError string

text \<open>Sequencing: the first exception ends the computation.\<close>

definition ebind :: "py_error + 'a \<Rightarrow> ('a \<Rightarrow> py_error + 'b) \<Rightarrow> py_error + 'b" where
  "ebind m f = (case m of Inl e \<Rightarrow> Inl e | Inr a \<Rightarrow> f a)"

lemma ebind_simps [simp]: "ebind (Inl e) f = Inl e" "ebind (Inr a) f = f a"
  by (simp_all add: ebind_def)

lemma ebind_Inr_iff: "ebind m f = Inr b \<longleftrightarrow> (\<exists>a. m = Inr a \<and> f a = Inr b)"
  by (cases m) auto

text \<open>A line feed, and the UTF-8 bytes of the em dash that the messages use.\<close>

definition nl :: string where "nl = [CHR 0x0A]"

definition emdash :: string where "emdash = [CHR 0xE2, CHR 0x80, CHR 0x94]"

text \<open>A string between single quotes.\<close>

definition quoted :: "string \<Rightarrow> string" where "quoted s = [CHR 0x27] @ s @ [CHR 0x27]"

section \<open>Tables\<close>

text \<open>
  A table is the list of its rows.  \<open>update_where\<close> and \<open>delete_where\<close> return the new table,
  \<open>count_where\<close> is the statement's \<open>rowcount\<close>, \<open>select_where\<close> keeps the table's order.
\<close>

definition select_where :: "('r \<Rightarrow> bool) \<Rightarrow> 'r list \<Rightarrow> 'r list" where
  "select_where P rows = filter P rows"

definition update_where :: "('r \<Rightarrow> bool) \<Rightarrow> ('r \<Rightarrow> 'r) \<Rightarrow> 'r list \<Rightarrow> 'r list" where
  "update_where P f rows = map (\<lambda>r. if P r then f r else r) rows"

definition delete_where :: "('r \<Rightarrow> bool) \<Rightarrow> 'r list \<Rightarrow> 'r list" where
  "delete_where P rows = filter (\<lambda>r. \<not> P r) rows"

definition count_where :: "('r \<Rightarrow> bool) \<Rightarrow> 'r list \<Rightarrow> nat" where
  "count_where P rows = length (filter P rows)"

text \<open>\<open>session.get\<close> and a \<open>scalar_one_or_none\<close> over a unique column: the row, if any.\<close>

definition select_one :: "('r \<Rightarrow> bool) \<Rightarrow> 'r list \<Rightarrow> 'r option" where
  "select_one P rows = find P rows"

text \<open>\<open>scalar_one_or_none\<close> on a column that is not declared unique.\<close>

definition scalar_one_or_none :: "'a list \<Rightarrow> py_error + 'a option" where
  "scalar_one_or_none xs = (case xs of [] \<Rightarrow> Inr None | [x] \<Rightarrow> Inr (Some x) | _ \<Rightarrow> Inl MultipleResultsFound)"

named_theorems sql

lemma set_update_where [sql]: "set (update_where P f rows) = (\<lambda>r. if P r then f r else r) ` set rows"
  by (simp add: update_where_def)

lemma mem_update_where: "y \<in> set (update_where P f rows) \<longleftrightarrow> (\<exists>x \<in> set rows. y = (if P x then f x else x))"
  by (auto simp: update_where_def)

lemma set_delete_where [sql]: "set (delete_where P rows) = {r \<in> set rows. \<not> P r}"
  by (auto simp: delete_where_def)

lemma set_select_where [sql]: "set (select_where P rows) = {r \<in> set rows. P r}"
  by (auto simp: select_where_def)

lemma length_update_where [simp]: "length (update_where P f rows) = length rows"
  by (simp add: update_where_def)

lemma map_update_where: "(\<And>r. g (f r) = g r) \<Longrightarrow> map g (update_where P f rows) = map g rows"
  by (simp add: update_where_def)

lemma delete_count: "length (delete_where P rows) + count_where P rows = length rows"
  by (simp add: delete_where_def count_where_def sum_length_filter_compl add.commute)

lemma delete_where_idem [simp]: "delete_where P (delete_where P rows) = delete_where P rows"
  by (simp add: delete_where_def)

lemma count_where_deleted [simp]: "count_where P (delete_where P rows) = 0"
  by (simp add: count_where_def delete_where_def)

lemma count_where_0: "count_where P rows = 0 \<longleftrightarrow> (\<forall>r \<in> set rows. \<not> P r)"
  by (auto simp: count_where_def filter_empty_conv)

lemma update_where_none: "\<forall>r \<in> set rows. \<not> P r \<Longrightarrow> update_where P f rows = rows"
  by (induction rows) (auto simp: update_where_def)

lemma select_one_Some: "select_one P rows = Some r \<Longrightarrow> r \<in> set rows \<and> P r"
  by (auto simp: select_one_def find_Some_iff)

lemma select_one_None: "select_one P rows = None \<longleftrightarrow> (\<forall>r \<in> set rows. \<not> P r)"
  by (auto simp: select_one_def find_None_iff)

lemma select_one_distinct:
  assumes "distinct (map k rows)" "r \<in> set rows"
  shows "select_one (\<lambda>r'. k r' = k r) rows = Some r"
  using assms
  by (induction rows) (auto simp: select_one_def image_iff)

text \<open>Two rows with the same value of a unique column are the same row.\<close>

lemma distinct_map_eq:
  "distinct (map k rows) \<Longrightarrow> r \<in> set rows \<Longrightarrow> r' \<in> set rows \<Longrightarrow> k r = k r' \<Longrightarrow> r = r'"
  by (auto simp: distinct_map inj_on_def)

lemma filter_unique:
  "distinct (map k rows) \<Longrightarrow> r \<in> set rows \<Longrightarrow> filter (\<lambda>x. k x = k r) rows = [r]"
  by (induction rows) (auto simp: filter_empty_conv image_iff)

lemma filter_update_same:
  "(\<And>x. k (f x) = k x) \<Longrightarrow> filter (\<lambda>x. k x = v) (update_where (\<lambda>x. k x = v) f rows) = map f (filter (\<lambda>x. k x = v) rows)"
  by (induction rows) (auto simp: update_where_def)

lemma filter_update_other:
  "(\<And>x. k (f x) = k x) \<Longrightarrow> filter (\<lambda>x. k x \<noteq> v) (update_where (\<lambda>x. k x = v) f rows) = filter (\<lambda>x. k x \<noteq> v) rows"
  by (induction rows) (auto simp: update_where_def)

section \<open>Dicts\<close>

text \<open>\<open>d[k] = v\<close> on a dict: an existing key keeps its place.\<close>

definition dict_set :: "'k \<Rightarrow> 'v \<Rightarrow> ('k \<times> 'v) list \<Rightarrow> ('k \<times> 'v) list" where
  "dict_set k v d =
     (if k \<in> set (map fst d) then map (\<lambda>(a, b). if a = k then (a, v) else (a, b)) d else d @ [(k, v)])"

lemma dict_set_keys: "set (map fst (dict_set k v d)) = insert k (set (map fst d))"
  by (force simp: dict_set_def image_iff split: if_splits)

lemma dict_set_distinct: "distinct (map fst d) \<Longrightarrow> distinct (map fst (dict_set k v d))"
proof -
  assume d: "distinct (map fst d)"
  have "map fst (map (\<lambda>(a, b). if a = k then (a, v) else (a, b)) d) = map fst d" by auto
  then show ?thesis using d by (auto simp: dict_set_def simp del: map_map)
qed

lemma dict_set_length: "length (dict_set k v d) \<le> Suc (length d)"
  by (simp add: dict_set_def)

lemma dict_set_map_of: "map_of (dict_set k v d) = (map_of d)(k \<mapsto> v)"
proof -
  have "map_of (map (\<lambda>(a, b). if a = k then (a, v) else (a, b)) d) x = (if x = k then map_option (\<lambda>_. v) (map_of d k) else map_of d x)" for x
    by (induction d) auto
  moreover have "map_of d k \<noteq> None" if "k \<in> fst ` set d" using that by (simp add: map_of_eq_None_iff)
  moreover have "map_of d k = None" if "k \<notin> fst ` set d" using that by (simp add: map_of_eq_None_iff)
  ultimately show ?thesis by (auto simp: dict_set_def fun_eq_iff map_add_def split: option.splits)
qed

section \<open>Splitting at a separator\<close>

lemma drop_to_separator: "x \<notin> set a \<Longrightarrow> dropWhile (\<lambda>c. c \<noteq> x) (a @ x # b) = x # b"
  by (induction a) auto

lemma split_at_separator:
  assumes "a @ x # b = c @ x # d" "x \<notin> set a" "x \<notin> set c"
  shows "a = c \<and> b = d"
proof -
  have "b = d" using assms drop_to_separator [of x a b] drop_to_separator [of x c d] by simp
  then show ?thesis using assms(1) by simp
qed

section \<open>Bounded containers\<close>

text \<open>What a memory-bounded container promises: no insertion exceeds the bound.\<close>

locale bounded =
  fixes size_of :: "'s \<Rightarrow> nat" and put :: "'x \<Rightarrow> 's \<Rightarrow> 's" and bound :: nat
  assumes put_bounded: "size_of s \<le> bound \<Longrightarrow> size_of (put x s) \<le> bound"
begin

lemma puts_bounded: "size_of s \<le> bound \<Longrightarrow> size_of (fold put xs s) \<le> bound"
  by (induction xs arbitrary: s) (simp_all add: put_bounded)

end

section \<open>HTTP responses\<close>

text \<open>A response is its status and its body; problem documents carry title and detail.\<close>

datatype 'b response = Problem nat string string | Reply nat 'b

fun status :: "'b response \<Rightarrow> nat" where
  "status (Problem n _ _) = n"
| "status (Reply n _) = n"

text \<open>\<open>problem_json\<close>: the detail falls back to the title when it is empty.\<close>

definition problem_json :: "nat \<Rightarrow> string \<Rightarrow> string \<Rightarrow> 'b response" where
  "problem_json n title detail = Problem n title (if detail = [] then title else detail)"

lemma status_problem [simp]: "status (problem_json n t d) = n"
  by (simp add: problem_json_def)

text \<open>The application's handler for an exception that leaves a route.\<close>

definition unhandled :: "py_error \<Rightarrow> 'b response" where
  "unhandled e = problem_json 500 ''Internal Server Error'' ''An unexpected error occurred''"

lemma status_unhandled [simp]: "status (unhandled e) = 500"
  by (simp add: unhandled_def)

end
