(* ===== verification/Float64.thy ===== *)
theory Float64 imports Complex_Main "HOL-Library.Log_Nat" begin

text \<open>
  Python's \<open>float\<close>: binary64 arithmetic on exact rationals.  A finite float is the
  rational it denotes and every arithmetic operation of the source is the exact operation
  followed by \<open>fl64\<close>, which rounds to 53 significant bits, ties to even.  The exponent
  range is left unbounded: the code computes on values far away from the overflow and the
  subnormal thresholds, and where a value can overflow (the forecast) the operations of
  \<open>pyfloat\<close> add the threshold.  The sign of zero is not represented.
  The laws that the components use are the locale \<open>rounding\<close>, interpreted on \<open>fl64\<close>.
\<close>

section \<open>Round half to even\<close>

definition rhe :: "rat \<Rightarrow> int" where
  "rhe x = (let f = \<lfloor>x\<rfloor>; d = x - of_int f in
     if d < 1/2 then f
     else if 1/2 < d then f + 1
     else if even f then f else f + 1)"

lemma rhe_of_int [simp]: "rhe (of_int n) = n"
  by (simp add: rhe_def)

lemma rhe_err: "\<bar>of_int (rhe x) - x\<bar> \<le> 1/2"
  unfolding rhe_def Let_def
  using floor_correct [of x] by (auto simp: abs_le_iff)

lemma rhe_cases: "rhe x = \<lfloor>x\<rfloor> \<or> rhe x = \<lfloor>x\<rfloor> + 1"
  by (simp add: rhe_def Let_def)

lemma rhe_mono:
  assumes "x \<le> y" shows "rhe x \<le> rhe y"
proof (cases "\<lfloor>x\<rfloor> = \<lfloor>y\<rfloor>")
  case True
  then show ?thesis using assms by (auto simp: rhe_def Let_def)
next
  case False
  then have "\<lfloor>x\<rfloor> + 1 \<le> \<lfloor>y\<rfloor>" using floor_mono [OF assms] by simp
  then show ?thesis using rhe_cases [of x] rhe_cases [of y] by linarith
qed

lemma rhe_minus: "rhe (- x) = - rhe x"
proof (cases "x = of_int \<lfloor>x\<rfloor>")
  case True
  then have "rhe (- x) = rhe (of_int (- \<lfloor>x\<rfloor>))" by simp
  also have "\<dots> = - rhe (of_int \<lfloor>x\<rfloor>)" unfolding rhe_of_int ..
  finally show ?thesis using True by simp
next
  case False
  have lo: "of_int \<lfloor>x\<rfloor> < x" using False floor_correct [of x] by linarith
  have hi: "x < of_int \<lfloor>x\<rfloor> + 1" using floor_correct [of x] by simp
  have "\<lfloor>- x\<rfloor> = - \<lfloor>x\<rfloor> - 1" using lo hi by (intro floor_unique) auto
  then show ?thesis by (auto simp: rhe_def Let_def)
qed

section \<open>Rounding to 53 significant bits\<close>

definition ilog2 :: "rat \<Rightarrow> int" where
  "ilog2 x = (case quotient_of x of (p, q) \<Rightarrow>
     let e = bitlen p - bitlen q in if 2 powi e \<le> x then e else e - 1)"

definition fl64 :: "rat \<Rightarrow> rat" where
  "fl64 x = (if x = 0 then 0
     else let u = 2 powi (ilog2 \<bar>x\<bar> - 52) in of_int (rhe (x / u)) * u)"

lemma powi2_pos [simp]: "0 < (2::rat) powi e"
  by (simp add: power_int_def)

lemma powi2_nz [simp]: "(2::rat) powi e \<noteq> 0"
  by simp

lemma powi2_add: "(2::rat) powi (a + b) = 2 powi a * 2 powi b"
  by (simp add: power_int_add)

lemma powi2_mono: "a \<le> b \<Longrightarrow> (2::rat) powi a \<le> 2 powi b"
  by (simp add: power_int_increasing)

lemma powi2_less: "a < b \<Longrightarrow> (2::rat) powi a < 2 powi b"
  by (simp add: power_int_strict_increasing)

lemma bitlen_bracket:
  assumes "0 < (n::int)"
  shows "(2::rat) powi (bitlen n - 1) \<le> of_int n" "(of_int n :: rat) < 2 powi bitlen n"
proof -
  have b: "1 \<le> bitlen n" using assms by (simp add: bitlen_def floorlog_def)
  have "2 ^ nat (bitlen n - 1) \<le> n \<and> n < 2 ^ nat (bitlen n)"
    using bitlen_bounds [OF assms] .
  then have "(of_int (2 ^ nat (bitlen n - 1)) :: rat) \<le> of_int n"
    "(of_int n :: rat) < of_int (2 ^ nat (bitlen n))"
    unfolding of_int_le_iff of_int_less_iff by blast+
  then show "(2::rat) powi (bitlen n - 1) \<le> of_int n" "(of_int n :: rat) < 2 powi bitlen n"
    using b by (simp_all add: power_int_def)
qed

lemma ilog2_bracket:
  assumes "0 < x"
  shows "2 powi ilog2 x \<le> x" "x < 2 powi (ilog2 x + 1)"
proof -
  obtain p q where pq: "quotient_of x = (p, q)" by (cases "quotient_of x")
  have q: "0 < q" using quotient_of_denom_pos [OF pq] .
  have x: "x = of_int p / of_int q" using quotient_of_div [OF pq] .
  have p: "0 < p" using assms q by (auto simp: x zero_less_divide_iff)
  let ?e = "bitlen p - bitlen q"
  have up: "x < 2 powi (?e + 1)"
  proof -
    have "x * of_int q = of_int p" using q by (simp add: x)
    also have "\<dots> < 2 powi bitlen p" by (rule bitlen_bracket [OF p])
    also have "\<dots> = 2 powi (?e + 1) * 2 powi (bitlen q - 1)"
      unfolding powi2_add [symmetric] by simp
    also have "\<dots> \<le> 2 powi (?e + 1) * of_int q"
      by (intro mult_left_mono bitlen_bracket [OF q]) simp
    finally show ?thesis using q by simp
  qed
  have dn: "2 powi (?e - 1) \<le> x"
  proof -
    have "(2::rat) powi (?e - 1) * of_int q \<le> 2 powi (?e - 1) * 2 powi bitlen q"
      by (intro mult_left_mono less_imp_le [OF bitlen_bracket(2) [OF q]]) simp
    also have "\<dots> = 2 powi (bitlen p - 1)"
      unfolding powi2_add [symmetric] by simp
    also have "\<dots> \<le> of_int p" by (rule bitlen_bracket [OF p])
    also have "\<dots> = x * of_int q" using q by (simp add: x)
    finally show ?thesis using q by simp
  qed
  show "2 powi ilog2 x \<le> x" "x < 2 powi (ilog2 x + 1)"
    using up dn by (auto simp: ilog2_def pq Let_def)
qed

lemma ilog2_unique:
  assumes "2 powi e \<le> x" "x < 2 powi (e + 1)" shows "ilog2 x = e"
proof -
  have x: "0 < x" using assms(1) powi2_pos [of e] by linarith
  have "\<not> ilog2 x + 1 \<le> e"
    using powi2_mono [of "ilog2 x + 1" e] ilog2_bracket [OF x] assms by fastforce
  moreover have "\<not> e + 1 \<le> ilog2 x"
    using powi2_mono [of "e + 1" "ilog2 x"] ilog2_bracket [OF x] assms by fastforce
  ultimately show ?thesis by linarith
qed

lemma ilog2_mono:
  assumes "0 < x" "x \<le> y" shows "ilog2 x \<le> ilog2 y"
proof (rule ccontr)
  assume "\<not> ?thesis"
  then have "2 powi (ilog2 y + 1) \<le> (2::rat) powi ilog2 x" by (intro powi2_mono) simp
  then show False using ilog2_bracket [of x] ilog2_bracket [of y] assms by linarith
qed

lemma fl64_0 [simp]: "fl64 0 = 0"
  by (simp add: fl64_def)

lemma fl64_minus: "fl64 (- x) = - fl64 x"
  by (simp add: fl64_def Let_def rhe_minus)

lemma fl64_pos_form:
  "0 < x \<Longrightarrow> fl64 x = of_int (rhe (x / 2 powi (ilog2 x - 52))) * 2 powi (ilog2 x - 52)"
  by (simp add: fl64_def Let_def)

lemma powi2_scale: "x / 2 powi (e - 52) = x * 2 powi (52 - e)" for x :: rat
  by (simp add: power_int_diff divide_simps)

text \<open>Within one binade the rounded value stays between the two powers of two.\<close>

lemma fl64_binade:
  assumes "0 < x"
  shows "2 powi ilog2 x \<le> fl64 x" "fl64 x \<le> 2 powi (ilog2 x + 1)"
proof -
  let ?e = "ilog2 x" and ?u = "(2::rat) powi (ilog2 x - 52)"
  have lo: "of_int (2 ^ 52) \<le> x / ?u"
    using ilog2_bracket(1) [OF assms] powi2_add [of "?e - 52" 52]
    by (simp add: pos_le_divide_eq field_simps)
  have hi: "x / ?u \<le> of_int (2 ^ 53)"
    using ilog2_bracket(2) [OF assms] powi2_add [of "?e - 52" 53]
    by (simp add: pos_divide_le_eq field_simps)
  have "2 ^ 52 \<le> rhe (x / ?u)" "rhe (x / ?u) \<le> 2 ^ 53"
    using rhe_mono [OF lo] rhe_mono [OF hi] unfolding rhe_of_int by blast+
  then have "(of_int (2 ^ 52) :: rat) \<le> of_int (rhe (x / ?u))"
    "(of_int (rhe (x / ?u)) :: rat) \<le> of_int (2 ^ 53)"
    unfolding of_int_le_iff by blast+
  then have "2 ^ 52 * ?u \<le> fl64 x" "fl64 x \<le> 2 ^ 53 * ?u"
    by (simp_all add: fl64_pos_form [OF assms])
  moreover have "2 powi ?e = 2 ^ 52 * ?u" "2 powi (?e + 1) = 2 ^ 53 * ?u"
    using powi2_add [of "?e - 52" 52] powi2_add [of "?e - 52" 53] by (simp_all add: add.commute)
  ultimately show "2 powi ?e \<le> fl64 x" "fl64 x \<le> 2 powi (?e + 1)" by simp_all
qed

lemma fl64_mono_pos:
  assumes "0 < x" "x \<le> y" shows "fl64 x \<le> fl64 y"
proof (cases "ilog2 x = ilog2 y")
  case True
  let ?u = "(2::rat) powi (ilog2 y - 52)"
  have "rhe (x / ?u) \<le> rhe (y / ?u)"
    by (intro rhe_mono divide_right_mono) (use assms in auto)
  then have "(of_int (rhe (x / ?u)) :: rat) \<le> of_int (rhe (y / ?u))"
    unfolding of_int_le_iff .
  then show ?thesis
    using assms by (simp add: fl64_pos_form True mult_right_mono)
next
  case False
  then have "ilog2 x + 1 \<le> ilog2 y" using ilog2_mono [OF assms] by simp
  then have "(2::rat) powi (ilog2 x + 1) \<le> 2 powi ilog2 y" by (rule powi2_mono)
  then show ?thesis using fl64_binade(2) [of x] fl64_binade(1) [of y] assms by linarith
qed

lemma fl64_nonneg: "0 \<le> x \<Longrightarrow> 0 \<le> fl64 x"
  by (cases "x = 0") (auto intro: less_imp_le [OF less_le_trans [OF powi2_pos fl64_binade(1)]])

lemma fl64_mono:
  assumes "x \<le> y" shows "fl64 x \<le> fl64 y"
proof -
  consider "0 < x" | "x \<le> 0" "0 \<le> y" | "y < 0" by linarith
  then show ?thesis
  proof cases
    case 1
    then show ?thesis using assms by (rule fl64_mono_pos)
  next
    case 2
    then show ?thesis using fl64_nonneg [of y] fl64_nonneg [of "- x"] by (simp add: fl64_minus)
  next
    case 3
    then show ?thesis using fl64_mono_pos [of "- y" "- x"] assms by (simp add: fl64_minus)
  qed
qed

lemma fl64_err_pos:
  assumes "0 < x" shows "\<bar>fl64 x - x\<bar> \<le> x / 2 ^ 53"
proof -
  let ?u = "(2::rat) powi (ilog2 x - 52)"
  have "fl64 x - x = (of_int (rhe (x / ?u)) - x / ?u) * ?u"
    by (simp add: fl64_pos_form [OF assms] algebra_simps)
  then have "\<bar>fl64 x - x\<bar> = \<bar>of_int (rhe (x / ?u)) - x / ?u\<bar> * ?u" by (simp add: abs_mult)
  also have "\<dots> \<le> 1/2 * ?u" by (intro mult_right_mono rhe_err) simp
  also have "\<dots> = 2 powi ilog2 x / 2 ^ 53"
    using powi2_add [of "ilog2 x - 52" 52] by simp
  also have "\<dots> \<le> x / 2 ^ 53" using ilog2_bracket(1) [OF assms] by (simp add: divide_right_mono)
  finally show ?thesis .
qed

lemma fl64_err: "\<bar>fl64 x - x\<bar> \<le> \<bar>x\<bar> / 2 ^ 53"
  using fl64_err_pos [of x] fl64_err_pos [of "- x"]
  by (cases "x = 0"; cases "0 < x") (auto simp: fl64_minus abs_if split: if_splits)

lemma fl64_int_pos:
  assumes "0 < n" "n < 2 ^ 53" shows "fl64 (of_int n) = of_int n"
proof -
  let ?x = "of_int n :: rat" and ?e = "ilog2 (of_int n)"
  have x: "0 < ?x" using assms by simp
  have "(of_int n :: rat) < of_int (2 ^ 53)" using assms(2) unfolding of_int_less_iff .
  then have "2 powi ?e < (2::rat) powi 53" using ilog2_bracket(1) [OF x] by simp
  then have e: "?e \<le> 52" using powi2_mono [of 53 ?e] by fastforce
  have "?x / 2 powi (?e - 52) = of_int (n * 2 ^ nat (52 - ?e))"
    unfolding powi2_scale using e by (simp add: power_int_def)
  then have "rhe (?x / 2 powi (?e - 52)) = n * 2 ^ nat (52 - ?e)" by (simp only: rhe_of_int)
  moreover have "(2::rat) ^ nat (52 - ?e) * 2 powi (?e - 52) = 1"
    using e powi2_add [of "52 - ?e" "?e - 52"] by (simp add: power_int_def)
  ultimately show ?thesis by (simp add: fl64_pos_form [OF x] mult.assoc)
qed

lemma fl64_int:
  assumes "\<bar>n\<bar> < 2 ^ 53" shows "fl64 (of_int n) = of_int n"
proof (cases "0 < n")
  case True
  then show ?thesis using fl64_int_pos assms by simp
next
  case False
  then show ?thesis using fl64_int_pos [of "- n"] fl64_minus [of "of_int n"] assms
    by (cases "n = 0") auto
qed

section \<open>The laws of rounding\<close>

locale rounding =
  fixes fl :: "rat \<Rightarrow> rat"
  assumes fl_mono: "x \<le> y \<Longrightarrow> fl x \<le> fl y"
    and fl_int: "\<bar>n\<bar> < 2 ^ 53 \<Longrightarrow> fl (of_int n) = of_int n"
    and fl_err: "\<bar>fl x - x\<bar> \<le> \<bar>x\<bar> / 2 ^ 53"
begin

lemma fl_zero: "fl 0 = 0"
  using fl_int [of 0] by simp

lemma fl_one: "fl 1 = 1"
  using fl_int [of 1] by simp

lemma fl_ge0: "0 \<le> x \<Longrightarrow> 0 \<le> fl x"
  using fl_mono [of 0 x] by (simp add: fl_zero)

lemma fl_le1: "x \<le> 1 \<Longrightarrow> fl x \<le> 1"
  using fl_mono [of x 1] by (simp add: fl_one)

lemma fl_le_int: "x \<le> of_int n \<Longrightarrow> \<bar>n\<bar> < 2 ^ 53 \<Longrightarrow> fl x \<le> of_int n"
  using fl_mono [of x "of_int n"] by (simp add: fl_int)

lemma fl_ge_int: "of_int n \<le> x \<Longrightarrow> \<bar>n\<bar> < 2 ^ 53 \<Longrightarrow> of_int n \<le> fl x"
  using fl_mono [of "of_int n" x] by (simp add: fl_int)

lemma fl_gt0:
  assumes "0 < x" shows "0 < fl x"
proof -
  have "x / 2 ^ 53 < x" using assms by (simp add: divide_less_eq)
  then show ?thesis using fl_err [of x] assms by linarith
qed

lemma fl_eq0_iff: "fl x = 0 \<longleftrightarrow> x = 0"
proof
  assume "fl x = 0"
  then have "\<bar>x\<bar> \<le> \<bar>x\<bar> / 2 ^ 53" using fl_err [of x] by simp
  then show "x = 0" by simp
qed (simp add: fl_zero)

lemma fl_near: "\<bar>x\<bar> \<le> b \<Longrightarrow> \<bar>fl x - x\<bar> \<le> b / 2 ^ 53"
  using fl_err [of x] by (simp add: divide_simps)

end

interpretation f64: rounding fl64
  by unfold_locales (rule fl64_mono fl64_int fl64_err; assumption?)+

end
