(* ===== verification/Py_Float.thy ===== *)
theory Py_Float imports Float64 begin

text \<open>
  The float operations the source uses, each rounded once: the four operations,
  \<open>min\<close>, \<open>max\<close>, \<open>round\<close> and \<open>sum\<close> (which adds floats with a compensation term
  since Python 3.12).  \<open>pyfloat\<close> adds the values that are not finite.
\<close>

section \<open>Operations on finite floats\<close>

definition fadd :: "rat \<Rightarrow> rat \<Rightarrow> rat" where "fadd x y = fl64 (x + y)"
definition fsub :: "rat \<Rightarrow> rat \<Rightarrow> rat" where "fsub x y = fl64 (x - y)"
definition fmul :: "rat \<Rightarrow> rat \<Rightarrow> rat" where "fmul x y = fl64 (x * y)"
definition fdiv :: "rat \<Rightarrow> rat \<Rightarrow> rat" where "fdiv x y = fl64 (x / y)"

text \<open>\<open>round(x, n)\<close> for floats: the decimal nearest to the exact value, ties to even.\<close>

definition py_round2 :: "rat \<Rightarrow> rat" where
  "py_round2 x = fl64 (of_int (rhe (x * 100)) / 100)"

definition py_round1 :: "rat \<Rightarrow> rat" where
  "py_round1 x = fl64 (of_int (rhe (x * 10)) / 10)"

fun neumaier :: "rat \<Rightarrow> rat \<Rightarrow> rat list \<Rightarrow> rat" where
  "neumaier s c [] = (if c = 0 then s else fadd s c)"
| "neumaier s c (x # xs) =
     (let t = fadd s x;
          e = (if \<bar>x\<bar> \<le> \<bar>s\<bar> then fadd (fsub s t) x else fadd (fsub x t) s)
      in neumaier t (fadd c e) xs)"

fun py_sum :: "rat list \<Rightarrow> rat" where
  "py_sum [] = 0"
| "py_sum (x # xs) = neumaier x 0 xs"

section \<open>Bounds\<close>

lemma fdiv_01: "0 \<le> x \<Longrightarrow> x \<le> y \<Longrightarrow> 0 \<le> fdiv x y \<and> fdiv x y \<le> 1"
  unfolding fdiv_def by (auto intro!: f64.fl_ge0 f64.fl_le1 simp: divide_le_eq_1)

lemma fsub_mono: "x \<le> x' \<Longrightarrow> y' \<le> y \<Longrightarrow> fsub x y \<le> fsub x' y'"
  unfolding fsub_def by (intro f64.fl_mono) linarith

lemma fadd_mono: "x \<le> x' \<Longrightarrow> y \<le> y' \<Longrightarrow> fadd x y \<le> fadd x' y'"
  unfolding fadd_def by (intro f64.fl_mono) linarith

lemma fmul_mono: "0 \<le> x \<Longrightarrow> x \<le> x' \<Longrightarrow> 0 \<le> y \<Longrightarrow> y \<le> y' \<Longrightarrow> fmul x y \<le> fmul x' y'"
  unfolding fmul_def by (intro f64.fl_mono mult_mono) auto

lemma fmul_mono2: "0 \<le> x \<Longrightarrow> y \<le> y' \<Longrightarrow> fmul x y \<le> fmul x y'"
  unfolding fmul_def by (intro f64.fl_mono mult_left_mono)

lemma fdiv_mono1: "x \<le> x' \<Longrightarrow> 0 < y \<Longrightarrow> fdiv x y \<le> fdiv x' y"
  unfolding fdiv_def by (intro f64.fl_mono divide_right_mono) auto

lemma fsub_ge0: "y \<le> x \<Longrightarrow> 0 \<le> fsub x y"
  unfolding fsub_def by (intro f64.fl_ge0) simp

lemma py_round2_le: "x \<le> of_int n \<Longrightarrow> \<bar>n\<bar> < 2 ^ 46 \<Longrightarrow> py_round2 x \<le> of_int n"
proof -
  assume x: "x \<le> of_int n" and n: "\<bar>n\<bar> < 2 ^ 46"
  have "rhe (x * 100) \<le> rhe (of_int (n * 100))" using x by (intro rhe_mono) simp
  then have "(of_int (rhe (x * 100)) :: rat) \<le> of_int (n * 100)"
    unfolding rhe_of_int of_int_le_iff .
  then show ?thesis unfolding py_round2_def using n by (intro f64.fl_le_int) auto
qed

lemma py_round2_ge: "of_int n \<le> x \<Longrightarrow> \<bar>n\<bar> < 2 ^ 46 \<Longrightarrow> of_int n \<le> py_round2 x"
proof -
  assume x: "of_int n \<le> x" and n: "\<bar>n\<bar> < 2 ^ 46"
  have "rhe (of_int (n * 100)) \<le> rhe (x * 100)" using x by (intro rhe_mono) simp
  then have "(of_int (n * 100) :: rat) \<le> of_int (rhe (x * 100))"
    unfolding rhe_of_int of_int_le_iff .
  then show ?thesis unfolding py_round2_def using n by (intro f64.fl_ge_int) auto
qed

lemma py_round1_le: "x \<le> of_int n \<Longrightarrow> \<bar>n\<bar> < 2 ^ 46 \<Longrightarrow> py_round1 x \<le> of_int n"
proof -
  assume x: "x \<le> of_int n" and n: "\<bar>n\<bar> < 2 ^ 46"
  have "rhe (x * 10) \<le> rhe (of_int (n * 10))" using x by (intro rhe_mono) simp
  then have "(of_int (rhe (x * 10)) :: rat) \<le> of_int (n * 10)"
    unfolding rhe_of_int of_int_le_iff .
  then show ?thesis unfolding py_round1_def using n by (intro f64.fl_le_int) auto
qed

lemma py_round1_ge: "of_int n \<le> x \<Longrightarrow> \<bar>n\<bar> < 2 ^ 46 \<Longrightarrow> of_int n \<le> py_round1 x"
proof -
  assume x: "of_int n \<le> x" and n: "\<bar>n\<bar> < 2 ^ 46"
  have "rhe (of_int (n * 10)) \<le> rhe (x * 10)" using x by (intro rhe_mono) simp
  then have "(of_int (n * 10) :: rat) \<le> of_int (rhe (x * 10))"
    unfolding rhe_of_int of_int_le_iff .
  then show ?thesis unfolding py_round1_def using n by (intro f64.fl_ge_int) auto
qed

text \<open>Rounding to two decimals absorbs an error below half a hundredth.\<close>

lemma rhe_near: "\<bar>x - of_int n\<bar> < 1/2 \<Longrightarrow> rhe x = n"
proof -
  assume "\<bar>x - of_int n\<bar> < 1/2"
  then have "\<bar>(of_int (rhe x) :: rat) - of_int n\<bar> < 1" using rhe_err [of x] by linarith
  then have "\<bar>(of_int (rhe x - n) :: rat)\<bar> < of_int 1" by simp
  then have "\<bar>rhe x - n\<bar> < 1" unfolding of_int_abs [symmetric] of_int_less_iff .
  then show ?thesis by simp
qed

lemma py_round2_le_slack:
  assumes "x < of_int n + 1/200" "\<bar>n\<bar> < 2 ^ 46" shows "py_round2 x \<le> of_int n"
proof (cases "x \<le> of_int n")
  case True
  then show ?thesis using assms by (intro py_round2_le)
next
  case False
  then have "rhe (x * 100) = n * 100" using assms by (intro rhe_near) (simp add: abs_if)
  then show ?thesis using f64.fl_int [of n] assms by (simp add: py_round2_def)
qed

lemma py_round2_ge_slack:
  assumes "of_int n - 1/200 < x" "\<bar>n\<bar> < 2 ^ 46" shows "of_int n \<le> py_round2 x"
proof (cases "of_int n \<le> x")
  case True
  then show ?thesis using assms by (intro py_round2_ge)
next
  case False
  then have "rhe (x * 100) = n * 100" using assms by (intro rhe_near) (simp add: abs_if)
  then show ?thesis using f64.fl_int [of n] assms by (simp add: py_round2_def)
qed

section \<open>The error of a sum\<close>

lemma fadd_near: "\<bar>x + y\<bar> \<le> 2 ^ 54 * w \<Longrightarrow> \<bar>fadd x y - (x + y)\<bar> \<le> 2 * w"
  using f64.fl_near [of "x + y" "2 ^ 54 * w"] by (simp add: fadd_def)

lemma fsub_near: "\<bar>x - y\<bar> \<le> 2 ^ 54 * w \<Longrightarrow> \<bar>fsub x y - (x - y)\<bar> \<le> 2 * w"
  using f64.fl_near [of "x - y" "2 ^ 54 * w"] by (simp add: fsub_def)

lemma fadd_near_small: "\<bar>x + y\<bar> \<le> 2 ^ 53 * w \<Longrightarrow> \<bar>fadd x y - (x + y)\<bar> \<le> w"
  using f64.fl_near [of "x + y" "2 ^ 53 * w"] by (simp add: fadd_def)

text \<open>The correction term of one step is a few units of the final sum's last place.\<close>

lemma neumaier_corr:
  assumes w: "0 \<le> w" and x: "0 \<le> x" "x \<le> 2 ^ 53 * w" and s: "\<bar>s\<bar> \<le> 2 ^ 53 * w + 256 * w"
    and t: "\<bar>t - (s + x)\<bar> \<le> 2 * w"
  shows "\<bar>if \<bar>x\<bar> \<le> \<bar>s\<bar> then fadd (fsub s t) x else fadd (fsub x t) s\<bar> \<le> 5 * w"
proof -
  have d1: "\<bar>fsub s t - (s - t)\<bar> \<le> 2 * w"
    by (rule fsub_near) (use w x t in \<open>simp add: abs_le_iff; linarith\<close>)
  have d2: "\<bar>fsub x t - (x - t)\<bar> \<le> 2 * w"
    by (rule fsub_near) (use w s t in \<open>simp add: abs_le_iff; linarith\<close>)
  have b1: "\<bar>fsub s t + x\<bar> \<le> 4 * w" using d1 t by linarith
  have b2: "\<bar>fsub x t + s\<bar> \<le> 4 * w" using d2 t by linarith
  have "\<bar>fadd (fsub s t) x - (fsub s t + x)\<bar> \<le> w"
    by (rule fadd_near_small) (rule order_trans [OF b1], use w in simp)
  moreover have "\<bar>fadd (fsub x t) s - (fsub x t + s)\<bar> \<le> w"
    by (rule fadd_near_small) (rule order_trans [OF b2], use w in simp)
  ultimately show ?thesis using b1 b2 by (auto split: if_splits)
qed

lemma neumaier_err:
  assumes "0 \<le> w" "\<forall>x \<in> set xs. 0 \<le> x" "0 \<le> S" "S + sum_list xs \<le> 2 ^ 53 * w"
    and "\<bar>s - S\<bar> \<le> of_nat k * (4 * w)" "\<bar>c\<bar> \<le> of_nat k * (20 * w)" "k + length xs \<le> 64"
  shows "\<bar>neumaier s c xs - (S + sum_list xs)\<bar> \<le> 2048 * w"
  using assms
proof (induction xs arbitrary: s c S k)
  case Nil
  have k: "of_nat k * w \<le> 64 * w" using Nil.prems by (intro mult_right_mono) auto
  have "\<bar>fadd s c - (s + c)\<bar> \<le> 2 * w"
    by (rule fadd_near) (use Nil.prems k in \<open>simp; linarith\<close>)
  then show ?case using Nil.prems k by (simp; linarith)
next
  case (Cons x xs)
  define t where "t = fadd s x"
  define e where "e = (if \<bar>x\<bar> \<le> \<bar>s\<bar> then fadd (fsub s t) x else fadd (fsub x t) s)"
  have k: "of_nat k * w \<le> 64 * w" using Cons.prems by (intro mult_right_mono) auto
  have rest: "0 \<le> sum_list xs" using Cons.prems(2) by (intro sum_list_nonneg) auto
  have x: "0 \<le> x" using Cons.prems(2) by simp
  have s: "\<bar>s + x\<bar> \<le> 2 ^ 54 * w" "\<bar>s\<bar> \<le> 2 ^ 53 * w + 256 * w" "x \<le> 2 ^ 53 * w"
    using Cons.prems(1,3,4,5) k x rest by - (simp; linarith)+
  have t: "\<bar>t - (s + x)\<bar> \<le> 2 * w" unfolding t_def by (rule fadd_near [OF s(1)])
  have e: "\<bar>e\<bar> \<le> 5 * w" unfolding e_def
    by (rule neumaier_corr [OF Cons.prems(1) x s(3) s(2) t])
  have c: "\<bar>fadd c e - (c + e)\<bar> \<le> w"
    by (rule fadd_near_small) (use Cons.prems(1,6) k e in \<open>simp; linarith\<close>)
  have "\<bar>neumaier t (fadd c e) xs - ((S + x) + sum_list xs)\<bar> \<le> 2048 * w"
  proof (rule Cons.IH [of "S + x" _ "Suc k"])
    show "\<bar>t - (S + x)\<bar> \<le> of_nat (Suc k) * (4 * w)"
      using Cons.prems(1,5) t by (simp add: distrib_right)
    show "\<bar>fadd c e\<bar> \<le> of_nat (Suc k) * (20 * w)"
      using Cons.prems(1,6) e c by (simp add: distrib_right)
  qed (use Cons.prems x in auto)
  then show ?case by (simp only: neumaier.simps Let_def t_def e_def sum_list.Cons add.assoc)
qed

lemma py_sum_err:
  assumes "\<forall>x \<in> set xs. 0 \<le> x" "length xs \<le> 64"
  shows "\<bar>py_sum xs - sum_list xs\<bar> \<le> sum_list xs / 2 ^ 42"
proof (cases xs)
  case (Cons x ys)
  let ?w = "sum_list xs / 2 ^ 53"
  have "0 \<le> sum_list xs" using assms(1) by (intro sum_list_nonneg) auto
  then have "\<bar>neumaier x 0 ys - (x + sum_list ys)\<bar> \<le> 2048 * ?w"
    using assms by (intro neumaier_err [where k = 0]) (auto simp: Cons)
  then show ?thesis by (simp add: Cons)
qed simp

text \<open>Non-negative weights never sum to zero unless all are zero.\<close>

lemma py_sum_pos:
  assumes "\<forall>x \<in> set xs. 0 \<le> x" "length xs \<le> 64" "0 < sum_list xs"
  shows "0 < py_sum xs"
proof -
  have "sum_list xs / 2 ^ 42 < sum_list xs" using assms(3) by (simp add: divide_less_eq)
  then show ?thesis using py_sum_err [OF assms(1,2)] by linarith
qed

section \<open>Floats that may not be finite\<close>

datatype pyfloat = Fin rat | PInf | NInf | NaN

definition isfinite :: "pyfloat \<Rightarrow> bool" where
  "isfinite x = (case x of Fin _ \<Rightarrow> True | _ \<Rightarrow> False)"

text \<open>
  Python's comparisons: no float is below, above or equal in order to a NaN.  They are the order of
  the type, which is no preorder.
\<close>

instantiation pyfloat :: ord
begin

fun less_eq_pyfloat :: "pyfloat \<Rightarrow> pyfloat \<Rightarrow> bool" where
  "less_eq_pyfloat NaN y = False"
| "less_eq_pyfloat NInf y = (y \<noteq> NaN)"
| "less_eq_pyfloat PInf y = (y = PInf)"
| "less_eq_pyfloat (Fin a) y = (case y of Fin b \<Rightarrow> a \<le> b | PInf \<Rightarrow> True | NInf \<Rightarrow> False | NaN \<Rightarrow> False)"

definition less_pyfloat :: "pyfloat \<Rightarrow> pyfloat \<Rightarrow> bool" where
  "less_pyfloat x y = (x \<le> y \<and> \<not> y \<le> x)"

instance ..

end

lemma less_float_simps [simp]:
  "Fin a < Fin b \<longleftrightarrow> a < b" "\<not> NaN < x" "\<not> x < NaN" "\<not> PInf < x" "\<not> x < NInf" "NInf < Fin b" "Fin a < PInf"
  by (cases x; auto simp: less_pyfloat_def)+

text \<open>Rounding with the overflow threshold of binary64.\<close>

definition to_float :: "rat \<Rightarrow> pyfloat" where
  "to_float x = (let y = fl64 x in
     if 2 ^ 1024 \<le> y then PInf else if y \<le> - (2 ^ 1024) then NInf else Fin y)"

lemma to_float_int:
  assumes "\<bar>n\<bar> < 2 ^ 53"
  shows "to_float (of_int n) = Fin (of_int n)"
proof -
  have p: "(2 :: int) ^ 53 \<le> 2 ^ 1024" by (rule power_increasing) simp_all
  have "\<not> 2 ^ 1024 \<le> n" "\<not> n \<le> - (2 ^ 1024)" using assms p by linarith+
  then have "\<not> (2 :: rat) ^ 1024 \<le> of_int n" "\<not> (of_int n :: rat) \<le> - (2 ^ 1024)"
    by (metis of_int_le_iff of_int_numeral of_int_power) (metis \<open>\<not> n \<le> - (2 ^ 1024)\<close> of_int_le_iff of_int_minus of_int_numeral of_int_power)
  then show ?thesis unfolding to_float_def Let_def f64.fl_int [OF assms] by (simp only: if_False)
qed

end
