(* ===== verification/Py_Value.thy ===== *)
theory Py_Value imports Prelude Py_Float begin

text \<open>
  Python values that reach the code from outside (JSON documents, settings rows): the JSON
  types, truth value, \<open>float()\<close> of a value and of an ASCII string, and \<open>int()\<close> of a float.
  Times are microseconds since the epoch, in UTC.
\<close>

section \<open>Time\<close>

type_synonym timestamp = int

definition seconds :: "int \<Rightarrow> int" where "seconds n = n * 1000000"
definition minutes :: "int \<Rightarrow> int" where "minutes n = seconds (60 * n)"
definition hours :: "int \<Rightarrow> int" where "hours n = minutes (60 * n)"
definition days :: "int \<Rightarrow> int" where "days n = hours (24 * n)"

lemmas time_units = seconds_def minutes_def hours_def days_def

section \<open>JSON values\<close>

datatype json =
    JNull | JBool bool | JInt int | JFloat pyfloat | JStr string
  | JList "json list" | JObj "(string \<times> json) list"

text \<open>\<open>d.get(k)\<close>: a missing key and a null are the same.\<close>

definition get :: "(string \<times> json) list \<Rightarrow> string \<Rightarrow> json" where
  "get d k = (case map_of d k of None \<Rightarrow> JNull | Some v \<Rightarrow> v)"

fun truthy :: "json \<Rightarrow> bool" where
  "truthy JNull = False"
| "truthy (JBool b) = b"
| "truthy (JInt i) = (i \<noteq> 0)"
| "truthy (JFloat x) = (x \<noteq> Fin 0)"
| "truthy (JStr s) = (s \<noteq> [])"
| "truthy (JList xs) = (xs \<noteq> [])"
| "truthy (JObj kvs) = (kvs \<noteq> [])"

text \<open>Optional values as JSON.\<close>

definition jnum :: "rat option \<Rightarrow> json" where
  "jnum x = (case x of None \<Rightarrow> JNull | Some r \<Rightarrow> JFloat (Fin r))"

definition jint :: "int option \<Rightarrow> json" where
  "jint x = (case x of None \<Rightarrow> JNull | Some i \<Rightarrow> JInt i)"

definition jstr :: "string option \<Rightarrow> json" where
  "jstr x = (case x of None \<Rightarrow> JNull | Some s \<Rightarrow> JStr s)"

section \<open>\<open>float()\<close>\<close>

definition code :: "char \<Rightarrow> int" where "code c = int (of_char c)"

definition is_digit :: "char \<Rightarrow> bool" where "is_digit c = (48 \<le> code c \<and> code c \<le> 57)"

definition is_space :: "char \<Rightarrow> bool" where
  "is_space c = (code c = 32 \<or> (9 \<le> code c \<and> code c \<le> 13) \<or> (28 \<le> code c \<and> code c \<le> 31))"

definition lower_char :: "char \<Rightarrow> char" where
  "lower_char c = (if 65 \<le> code c \<and> code c \<le> 90 then char_of (code c + 32) else c)"

definition lower :: "string \<Rightarrow> string" where "lower s = map lower_char s"

definition strip :: "string \<Rightarrow> string" where
  "strip s = rev (dropWhile is_space (rev (dropWhile is_space s)))"

text \<open>Digits with single underscores between them: their value, their number and the rest.\<close>

fun digits :: "int \<Rightarrow> nat \<Rightarrow> string \<Rightarrow> int \<times> nat \<times> string" where
  "digits acc n [] = (acc, n, [])"
| "digits acc n (c # cs) =
     (if is_digit c then digits (acc * 10 + (code c - 48)) (Suc n) cs
      else if c = CHR ''_'' \<and> 0 < n \<and> cs \<noteq> [] \<and> is_digit (hd cs) then digits acc n cs
      else (acc, n, c # cs))"

definition sign_of :: "string \<Rightarrow> bool \<times> string" where
  "sign_of s = (case s of [] \<Rightarrow> (False, [])
     | c # r \<Rightarrow> (if c = CHR ''-'' then (True, r) else if c = CHR ''+'' then (False, r) else (False, s)))"

definition scale10 :: "int \<Rightarrow> int \<Rightarrow> rat" where
  "scale10 m e = (if 0 \<le> e then of_int m * 10 ^ nat e else of_int m / 10 ^ nat (- e))"

definition exponent_part :: "string \<Rightarrow> int option" where
  "exponent_part s =
     (case s of [] \<Rightarrow> Some 0
      | c # r \<Rightarrow>
         (if lower_char c = CHR ''e'' then
            (let (neg, r') = sign_of r; (e, n, rest) = digits 0 0 r'
             in if n = 0 \<or> rest \<noteq> [] then None else Some (if neg then - e else e))
          else None))"

definition negate_float :: "bool \<Rightarrow> pyfloat \<Rightarrow> pyfloat" where
  "negate_float neg x =
     (if neg then (case x of Fin r \<Rightarrow> Fin (- r) | PInf \<Rightarrow> NInf | NInf \<Rightarrow> PInf | NaN \<Rightarrow> NaN) else x)"

definition parse_unsigned :: "string \<Rightarrow> pyfloat option" where
  "parse_unsigned s =
     (if lower s \<in> {''inf'', ''infinity''} then Some PInf
      else if lower s = ''nan'' then Some NaN
      else let (i, n, r) = digits 0 0 s;
               (m, k, r') = (case r of CHR ''.'' # f \<Rightarrow> digits i 0 f | _ \<Rightarrow> (i, 0, r))
           in if n + k = 0 then None
              else map_option (\<lambda>e. to_float (scale10 m (e - int k))) (exponent_part r'))"

definition float_of_string :: "string \<Rightarrow> pyfloat option" where
  "float_of_string s =
     (let (neg, r) = sign_of (strip s) in map_option (negate_float neg) (parse_unsigned r))"

text \<open>\<open>float(v)\<close>; an \<open>int\<close> beyond the range of a double raises.\<close>

definition float_of :: "json \<Rightarrow> py_error + pyfloat" where
  "float_of v =
     (case v of
        JInt i \<Rightarrow> (case to_float (of_int i) of Fin x \<Rightarrow> Inr (Fin x) | _ \<Rightarrow> Inl OverflowError)
      | JBool b \<Rightarrow> Inr (Fin (if b then 1 else 0))
      | JFloat x \<Rightarrow> Inr x
      | JStr s \<Rightarrow> (case float_of_string s of None \<Rightarrow> Inl ValueError | Some x \<Rightarrow> Inr x)
      | _ \<Rightarrow> Inl TypeError)"

text \<open>\<open>int(x)\<close> truncates towards zero; infinities and NaN raise.\<close>

definition int_of_float :: "pyfloat \<Rightarrow> py_error + int" where
  "int_of_float x =
     (case x of Fin r \<Rightarrow> Inr (if 0 \<le> r then \<lfloor>r\<rfloor> else \<lceil>r\<rceil>)
      | NaN \<Rightarrow> Inl ValueError | _ \<Rightarrow> Inl OverflowError)"

text \<open>\<open>int(s)\<close> of an ASCII string in base ten.\<close>

definition int_of_string :: "string \<Rightarrow> int option" where
  "int_of_string s =
     (let (neg, r) = sign_of (strip s); (v, n, rest) = digits 0 0 r
      in if n = 0 \<or> rest \<noteq> [] then None else Some (if neg then - v else v))"

text \<open>Comparisons of an exact number with a float: every comparison with NaN is false.\<close>

definition le_float :: "pyfloat \<Rightarrow> rat \<Rightarrow> bool" where
  "le_float x r = (x \<le> Fin r)"

text \<open>\<open>str(n)\<close>.\<close>

fun string_of_nat :: "nat \<Rightarrow> string" where
  "string_of_nat n = (if n < 10 then [char_of (48 + n)] else string_of_nat (n div 10) @ [char_of (48 + n mod 10)])"

declare string_of_nat.simps [simp del]

definition string_of_int :: "int \<Rightarrow> string" where
  "string_of_int i = (if i < 0 then CHR ''-'' # string_of_nat (nat (- i)) else string_of_nat (nat i))"

text \<open>Parsing what was printed: the digits of a number, and no two numbers print alike.\<close>

lemma code_digit: "n < 10 \<Longrightarrow> code (char_of (48 + n)) = 48 + int n"
  by (simp add: code_def)

lemma digits_append:
  "list_all is_digit s \<Longrightarrow> digits acc k (s @ t) = digits (foldl (\<lambda>a c. a * 10 + (code c - 48)) acc s) (k + length s) t"
  by (induction s arbitrary: acc k) auto

lemma is_digit_digit: "(n :: nat) < 10 \<Longrightarrow> is_digit (char_of (48 + n))"
  by (simp add: is_digit_def code_digit)

lemma string_of_nat_digits: "list_all is_digit (string_of_nat n)"
proof (induction n rule: string_of_nat.induct)
  case (1 n)
  then show ?case
    by (cases "n < 10") (simp_all add: string_of_nat.simps [of n] is_digit_digit)
qed

lemma string_of_nat_value: "foldl (\<lambda>a c. a * 10 + (code c - 48)) 0 (string_of_nat n) = int n"
proof (induction n rule: string_of_nat.induct)
  case (1 n)
  show ?case
  proof (cases "n < 10")
    case True
    then show ?thesis by (simp add: string_of_nat.simps [of n] code_digit)
  next
    case False
    then have "foldl (\<lambda>a c. a * 10 + (code c - 48)) 0 (string_of_nat n) = int (n div 10) * 10 + int (n mod 10)"
      using 1 by (simp add: string_of_nat.simps [of n] code_digit)
    then show ?thesis by (metis div_mult_mod_eq of_nat_add of_nat_mult of_nat_numeral)
  qed
qed

lemma string_of_nat_inj: "string_of_nat m = string_of_nat n \<Longrightarrow> m = n"
  by (metis of_nat_eq_iff string_of_nat_value)

lemma string_of_nat_no_minus: "CHR ''-'' # s \<noteq> string_of_nat n"
proof
  assume e: "CHR ''-'' # s = string_of_nat n"
  have "is_digit (CHR ''-'')" using string_of_nat_digits [of n] unfolding e [symmetric] by simp
  then show False by (simp add: is_digit_def code_def)
qed

lemma string_of_int_inj: "string_of_int i = string_of_int j \<Longrightarrow> i = j"
  using string_of_nat_no_minus string_of_nat_no_minus [symmetric]
  by (auto simp: string_of_int_def split: if_splits dest!: string_of_nat_inj)

section \<open>Timestamps in text\<close>

text \<open>A datetime without or with a time zone; an aware one is kept as its UTC instant.\<close>

datatype datetime = Naive timestamp | Aware timestamp

text \<open>\<open>replace(tzinfo=utc)\<close> for a naive one, \<open>astimezone(utc)\<close> for an aware one.\<close>

definition to_utc :: "datetime \<Rightarrow> timestamp" where
  "to_utc dt = (case dt of Naive t \<Rightarrow> t | Aware t \<Rightarrow> t)"

text \<open>\<open>s.replace("Z", "+00:00")\<close>.\<close>

fun replace_z :: "string \<Rightarrow> string" where
  "replace_z [] = []"
| "replace_z (c # cs) = (if c = CHR ''Z'' then ''+00:00'' @ replace_z cs else c # replace_z cs)"

text \<open>\<open>s.split(sep)\<close> at a single character.\<close>

fun split_on :: "char \<Rightarrow> string \<Rightarrow> string list" where
  "split_on sep [] = [[]]"
| "split_on sep (c # cs) =
     (if c = sep then [] # split_on sep cs
      else case split_on sep cs of [] \<Rightarrow> [[c]] | w # ws \<Rightarrow> (c # w) # ws)"

fun join_on :: "char \<Rightarrow> string list \<Rightarrow> string" where
  "join_on sep [] = []"
| "join_on sep [w] = w"
| "join_on sep (w # v # ws) = w @ sep # join_on sep (v # ws)"

lemma split_on_nonempty [simp]: "split_on sep s \<noteq> []"
  by (induction s) (auto split: list.splits)

lemma join_split: "join_on sep (split_on sep s) = s"
proof (induction s)
  case (Cons c cs)
  obtain w ws where e: "split_on sep cs = w # ws" by (cases "split_on sep cs") auto
  then show ?case using Cons by (cases ws) auto
qed simp

lemma split_parts: "w \<in> set (split_on sep s) \<Longrightarrow> sep \<notin> set w"
  by (induction s arbitrary: w) (auto split: list.splits if_splits)

section \<open>Printed integers\<close>

lemma string_of_nat_nonempty: "string_of_nat n \<noteq> []"
  by (subst string_of_nat.simps) simp

lemma strip_digits: "list_all is_digit s \<Longrightarrow> strip s = s"
proof -
  assume s: "list_all is_digit s"
  have d: "\<not> is_space c" if "is_digit c" for c using that by (auto simp: is_digit_def is_space_def)
  have "dropWhile is_space t = t" if "list_all is_digit t" for t
    using that d by (cases t) auto
  then show "strip s = s" using s by (simp add: strip_def list_all_rev)
qed

lemma strip_minus: "list_all is_digit s \<Longrightarrow> s \<noteq> [] \<Longrightarrow> strip (CHR ''-'' # s) = CHR ''-'' # s"
proof -
  assume s: "list_all is_digit s" "s \<noteq> []"
  have d: "\<not> is_space c" if "is_digit c" for c using that by (auto simp: is_digit_def is_space_def)
  have m: "\<not> is_space (CHR ''-'')" by (simp add: is_space_def code_def)
  obtain c t where ct: "rev s = c # t" using s(2) by (cases "rev s") auto
  then have "is_digit c" using s(1) by (metis list.pred_inject(2) list_all_rev)
  then show ?thesis using m d ct by (simp add: strip_def)
qed

lemma sign_of_digits: "list_all is_digit s \<Longrightarrow> sign_of s = (False, s)"
  by (cases s) (auto simp: sign_of_def is_digit_def code_def)

lemma int_of_string_of_int: "int_of_string (string_of_int i) = Some i"
proof (cases "i < 0")
  case True
  then show ?thesis
    using digits_append [OF string_of_nat_digits [of "nat (- i)"], of 0 0 "[]"]
    by (simp add: string_of_int_def int_of_string_def strip_minus string_of_nat_digits string_of_nat_nonempty
        sign_of_def string_of_nat_value)
next
  case False
  then show ?thesis
    using digits_append [OF string_of_nat_digits [of "nat i"], of 0 0 "[]"]
    by (simp add: string_of_int_def int_of_string_def strip_digits string_of_nat_digits string_of_nat_nonempty
        sign_of_digits string_of_nat_value)
qed

end
