(* ===== verification/Models.thy ===== *)
theory Models imports Py_Value begin

text \<open>
  \<open>src/models/\<close>: the rows of the nine tables as records (one field per mapped column), the
  constraints the tables declare, and the engine lifecycle and session context manager of
  \<open>src/models/base.py\<close>.  The rounding of REAL columns to single precision by the database is not
  modelled.
\<close>

section \<open>Rows\<close>

record node =
  n_node_id :: string
  n_name :: "string option"
  n_location_name :: "string option"
  n_lat :: "pyfloat option"
  n_lon :: "pyfloat option"
  n_firmware_version :: "string option"
  n_reading_interval :: int
  n_is_active :: bool
  n_registered_at :: timestamp
  n_last_seen :: "timestamp option"

record reading =
  s_time :: timestamp
  s_node_id :: string
  s_temperature :: "rat option"
  s_humidity :: "rat option"
  s_pressure :: "rat option"
  s_voc_ohm :: "rat option"
  s_mq135_ppm :: "rat option"
  s_pm1 :: "rat option"
  s_pm25 :: "rat option"
  s_pm10 :: "rat option"
  s_battery_v :: "rat option"
  s_fuzzy_score :: "rat option"
  s_aqi :: "int option"
  s_aqi_category :: "string option"
  s_is_anomaly :: bool

record hourly_agg =
  h_bucket :: timestamp
  h_node_id :: string
  h_avg_temperature :: "rat option"
  h_avg_humidity :: "rat option"
  h_avg_pm25 :: "rat option"
  h_avg_pm10 :: "rat option"
  h_max_aqi :: "int option"
  h_min_aqi :: "int option"
  h_avg_aqi :: "rat option"
  h_anomaly_count :: nat
  h_reading_count :: nat

record alert =
  a_alert_id :: int
  a_node_id :: string
  a_parameter :: string
  a_value :: rat
  a_threshold :: pyfloat
  a_severity :: string
  a_message :: "string option"
  a_triggered_at :: timestamp
  a_acknowledged_at :: "timestamp option"
  a_acknowledged_by :: "int option"

record user =
  u_id :: int
  u_username :: string
  u_email :: string
  u_password_hash :: string
  u_role :: string
  u_notification_prefs :: "(string \<times> json) list"
  u_is_active :: bool
  u_last_login_at :: "timestamp option"
  u_created_at :: timestamp
  u_updated_at :: timestamp

record refresh_token =
  rt_id :: int
  rt_user_id :: int
  rt_token_hash :: string
  rt_expires_at :: timestamp
  rt_created_at :: timestamp
  rt_revoked :: bool

record reset_token =
  pt_id :: int
  pt_user_id :: int
  pt_token_hash :: string
  pt_expires_at :: timestamp
  pt_used_at :: "timestamp option"
  pt_created_at :: timestamp

record setting =
  g_key :: string
  g_value :: string
  g_description :: "string option"
  g_updated_at :: timestamp
  g_updated_by :: "int option"

record audit_log =
  l_entity_type :: string
  l_entity_id :: string
  l_action :: string
  l_old_value :: "string option"
  l_new_value :: "string option"
  l_changed_by :: "int option"
  l_changed_at :: timestamp

record db =
  nodes :: "node list"
  readings :: "reading list"
  hourly :: "hourly_agg list"
  alerts :: "alert list"
  users :: "user list"
  refresh_tokens :: "refresh_token list"
  reset_tokens :: "reset_token list"
  settings :: "setting list"
  audit_logs :: "audit_log list"
  next_id :: int

definition empty_db :: db where
  "empty_db = \<lparr>nodes = [], readings = [], hourly = [], alerts = [], users = [],
     refresh_tokens = [], reset_tokens = [], settings = [], audit_logs = [], next_id = 1\<rparr>"

section \<open>Declared constraints\<close>

definition MAX_ALERT_MESSAGE_LENGTH :: nat where "MAX_ALERT_MESSAGE_LENGTH = 10000"

text \<open>The primary key of \<open>sensor_readings\<close> and of \<open>hourly_agg\<close>.\<close>

definition reading_key :: "reading \<Rightarrow> timestamp \<times> string" where
  "reading_key r = (s_time r, s_node_id r)"

definition agg_key :: "hourly_agg \<Rightarrow> timestamp \<times> string" where
  "agg_key h = (h_bucket h, h_node_id h)"

text \<open>\<open>uq_alerts_unacked_node\<close>: one unacknowledged alert per node and parameter.\<close>

definition unacked :: "alert list \<Rightarrow> alert list" where
  "unacked = select_where (\<lambda>a. a_acknowledged_at a = None)"

definition alerts_ok :: "alert list \<Rightarrow> bool" where
  "alerts_ok as = (distinct (map (\<lambda>a. (a_node_id a, a_parameter a)) (unacked as)) \<and>
     list_all (\<lambda>a. case a_message a of None \<Rightarrow> True | Some m \<Rightarrow> length m \<le> MAX_ALERT_MESSAGE_LENGTH) as)"

text \<open>
  What every commit leaves true: the declared keys, uniqueness and check constraints and the
  foreign keys of the readings.
\<close>

definition db_ok :: "db \<Rightarrow> bool" where
  "db_ok d = (distinct (map n_node_id (nodes d)) \<and> distinct (map reading_key (readings d)) \<and>
     list_all (\<lambda>r. s_node_id r \<in> set (map n_node_id (nodes d))) (readings d) \<and>
     distinct (map agg_key (hourly d)) \<and> alerts_ok (alerts d) \<and>
     distinct (map u_id (users d)) \<and> distinct (map u_username (users d)) \<and>
     distinct (map u_email (users d)) \<and> distinct (map g_key (settings d)))"

text \<open>
  \<open>session.add(reading); session.commit()\<close>: the composite key rejects a second row of the same
  node and time, the foreign key a row of no node; the error names the constraint.
\<close>

definition insert_reading :: "reading \<Rightarrow> db \<Rightarrow> py_error + db" where
  "insert_reading r d =
     (if reading_key r \<in> set (map reading_key (readings d)) then Inl (IntegrityError ''sensor_readings_pkey'')
      else if s_node_id r \<notin> set (map n_node_id (nodes d)) then
        Inl (IntegrityError ''sensor_readings_node_id_fkey'')
      else Inr (d\<lparr>readings := r # readings d\<rparr>))"

section \<open>Sessions\<close>

text \<open>
  \<open>get_sync_db\<close>: the body runs on the session; its changes are committed when it returns and
  rolled back when it raises, and a rollback that fails replaces the exception.
\<close>

definition get_sync_db :: "bool \<Rightarrow> (db \<Rightarrow> (py_error + 'a) \<times> db) \<Rightarrow> db \<Rightarrow> (py_error + 'a) \<times> db" where
  "get_sync_db rollback_fails body d =
     (case body d of
        (Inr a, d') \<Rightarrow> (Inr a, d')
      | (Inl e, d') \<Rightarrow> (Inl (if rollback_fails then DatabaseError else e), d))"

section \<open>Engines\<close>

text \<open>
  An engine is the URL it was built from and an identity; \<open>disposed\<close> collects the engines whose
  pools were released.  \<open>e_dispose_ok\<close> says whether \<open>asyncio.run(stale.dispose())\<close> can run (it
  cannot inside a running loop; then the reference is dropped).
\<close>

datatype engine = SyncEngine nat string | AsyncEngine nat string

record engines =
  sync_engine :: "engine option"
  async_engine :: "engine option"
  async_session_local :: "engine option"
  sync_session_local :: "engine option"
  disposed :: "engine list"
  fresh :: nat

definition dispose :: "engine option \<Rightarrow> engines \<Rightarrow> engines" where
  "dispose e st = (case e of None \<Rightarrow> st | Some x \<Rightarrow> st\<lparr>disposed := x # disposed st\<rparr>)"

definition dispose_stale_async_engine :: "bool \<Rightarrow> engines \<Rightarrow> engines" where
  "dispose_stale_async_engine can_run st =
     (case async_engine st of None \<Rightarrow> st | Some x \<Rightarrow> (if can_run then dispose (Some x) st else st))"

definition init_engines :: "bool \<Rightarrow> string \<Rightarrow> engines \<Rightarrow> engines" where
  "init_engines can_run url st =
     (let st1 = dispose_stale_async_engine can_run (dispose (sync_engine st) st);
          s = SyncEngine (fresh st) url; a = AsyncEngine (fresh st + 1) url
      in st1\<lparr>sync_engine := Some s, async_engine := Some a, async_session_local := Some a,
             sync_session_local := Some s, fresh := fresh st + 2\<rparr>)"

definition get_sync_engine :: "bool \<Rightarrow> string \<Rightarrow> engines \<Rightarrow> engine option \<times> engines" where
  "get_sync_engine can_run url st =
     (let st' = (if sync_engine st = None then init_engines can_run url st else st) in (sync_engine st', st'))"

definition get_async_engine :: "bool \<Rightarrow> string \<Rightarrow> engines \<Rightarrow> engine option \<times> engines" where
  "get_async_engine can_run url st =
     (let st' = (if async_engine st = None then init_engines can_run url st else st) in (async_engine st', st'))"

definition get_async_session_local :: "bool \<Rightarrow> string \<Rightarrow> engines \<Rightarrow> engine option \<times> engines" where
  "get_async_session_local can_run url st =
     (let st' = (if async_session_local st = None then init_engines can_run url st else st)
      in (async_session_local st', st'))"

definition get_sync_session_local :: "bool \<Rightarrow> string \<Rightarrow> engines \<Rightarrow> engine option \<times> engines" where
  "get_sync_session_local can_run url st =
     (let st' = (if sync_session_local st = None then init_engines can_run url st else st)
      in (sync_session_local st', st'))"

definition drop_state :: "engines \<Rightarrow> engines" where
  "drop_state st = st\<lparr>sync_engine := None, async_engine := None, async_session_local := None,
     sync_session_local := None\<rparr>"

definition reset_engines :: "bool \<Rightarrow> engines \<Rightarrow> engines" where
  "reset_engines can_run st = drop_state (dispose_stale_async_engine can_run (dispose (sync_engine st) st))"

definition dispose_engines :: "engines \<Rightarrow> engines" where
  "dispose_engines st = drop_state (dispose (async_engine st) (dispose (sync_engine st) st))"

lemmas engine_defs = dispose_def dispose_stale_async_engine_def init_engines_def drop_state_def
  get_sync_engine_def get_async_engine_def get_async_session_local_def get_sync_session_local_def
  reset_engines_def dispose_engines_def Let_def

inductive engine_step :: "engines \<Rightarrow> engines \<Rightarrow> bool" where
  step_sync: "engine_step st (snd (get_sync_engine c url st))"
| step_async: "engine_step st (snd (get_async_engine c url st))"
| step_async_session: "engine_step st (snd (get_async_session_local c url st))"
| step_sync_session: "engine_step st (snd (get_sync_session_local c url st))"
| step_reset: "engine_step st (reset_engines c st)"
| step_dispose: "engine_step st (dispose_engines st)"

inductive_cases engine_stepE: "engine_step st st'"

text \<open>
  The four slots are filled and emptied together, the session factories are bound to the current
  engines, and no current engine is disposed.
\<close>

fun engine_id :: "engine \<Rightarrow> nat" where
  "engine_id (SyncEngine n _) = n"
| "engine_id (AsyncEngine n _) = n"

definition engines_ok :: "engines \<Rightarrow> bool" where
  "engines_ok st = (async_session_local st = async_engine st \<and> sync_session_local st = sync_engine st \<and>
     (sync_engine st = None) = (async_engine st = None) \<and>
     list_all (\<lambda>e. engine_id e < fresh st) (disposed st) \<and>
     (case sync_engine st of None \<Rightarrow> True | Some e \<Rightarrow> engine_id e < fresh st \<and> e \<notin> set (disposed st)) \<and>
     (case async_engine st of None \<Rightarrow> True | Some e \<Rightarrow> engine_id e < fresh st \<and> e \<notin> set (disposed st)))"

lemma init_engines_ok: "engines_ok st \<Longrightarrow> engines_ok (init_engines c url st)"
  by (auto simp: engines_ok_def engine_defs list_all_iff split: option.splits)

lemma reset_engines_ok: "engines_ok st \<Longrightarrow> engines_ok (reset_engines c st)"
  by (auto simp: engines_ok_def engine_defs list_all_iff split: option.splits)

lemma dispose_engines_ok: "engines_ok st \<Longrightarrow> engines_ok (dispose_engines st)"
  by (auto simp: engines_ok_def engine_defs list_all_iff split: option.splits)

lemmas getter_defs = get_sync_engine_def get_async_engine_def get_async_session_local_def
  get_sync_session_local_def Let_def

lemma engine_step_ok: "engine_step st st' \<Longrightarrow> engines_ok st \<Longrightarrow> engines_ok st'"
  by (erule engine_stepE)
    (simp_all add: getter_defs init_engines_ok reset_engines_ok dispose_engines_ok)

definition no_engines :: engines where
  "no_engines = \<lparr>sync_engine = None, async_engine = None, async_session_local = None,
     sync_session_local = None, disposed = [], fresh = 0\<rparr>"

lemma reachable_engines_ok: "engine_step\<^sup>*\<^sup>* no_engines st \<Longrightarrow> engines_ok st"
  by (induction rule: rtranclp_induct)
    (auto simp: engine_step_ok, simp add: engines_ok_def no_engines_def)

text \<open>
  In every reachable state of the engine module, the getters return an engine that is not
  disposed, and the session factories are bound to the engines the getters return.
\<close>

theorem engines_never_stale:
  assumes "engine_step\<^sup>*\<^sup>* no_engines st"
  shows "\<exists>s a st'. get_sync_engine c url st = (Some s, st') \<and> get_async_engine c url st' = (Some a, st') \<and>
    s \<notin> set (disposed st') \<and> a \<notin> set (disposed st') \<and>
    get_sync_session_local c url st' = (Some s, st') \<and> get_async_session_local c url st' = (Some a, st')"
proof -
  let ?st = "snd (get_sync_engine c url st)"
  have "engines_ok ?st" "sync_engine ?st \<noteq> None"
    using engine_step_ok [OF step_sync reachable_engines_ok [OF assms]]
    by (auto simp: get_sync_engine_def init_engines_def Let_def)
  then obtain s a where "sync_engine ?st = Some s" "async_engine ?st = Some a" "s \<notin> set (disposed ?st)"
    "a \<notin> set (disposed ?st)" "sync_session_local ?st = Some s" "async_session_local ?st = Some a"
    by (auto simp: engines_ok_def)
  then show ?thesis
    by (intro exI [of _ s] exI [of _ a] exI [of _ ?st]) (simp add: getter_defs)
qed

theorem engines_never_stale_witness:
  "\<exists>s a st'. get_sync_engine False ''new'' (reset_engines True (snd (get_sync_engine True ''old'' no_engines)))
     = (Some s, st') \<and> get_async_engine False ''new'' st' = (Some a, st') \<and>
    s \<notin> set (disposed st') \<and> a \<notin> set (disposed st')"
  using engines_never_stale [OF rtranclp.rtrancl_into_rtrancl [OF r_into_rtranclp [of engine_step, OF step_sync] step_reset]]
  by blast

section \<open>Sessions: all or nothing\<close>

lemma get_sync_db_error: "fst (get_sync_db rf body d) = Inl e \<Longrightarrow> snd (get_sync_db rf body d) = d"
  by (auto simp: get_sync_db_def split: prod.splits sum.splits)

end
