(* ===== verification/Redis.thy ===== *)
theory Redis imports Py_Value begin

text \<open>
  The Redis client as the code uses it (\<open>src/tasks/_redis.py\<close>, \<open>src/api/cache.py\<close>): a client that
  could not be built, or a live store on which any single command may fail.  Which commands
  fail is part of the state (one flag per coming command, none left = no more failures), so a
  theorem over all states covers every pattern of outages.  Documents are stored as the value
  that \<open>json.dumps\<close> encodes.
\<close>

section \<open>The store\<close>

datatype rval = RText string | RNum int | RDoc json | RList "rval list"

text \<open>A key's value and the time it expires, if it does.\<close>

type_synonym 'v store = "(string \<times> ('v \<times> timestamp option)) list"

definition live :: "timestamp \<Rightarrow> timestamp option \<Rightarrow> bool" where
  "live now e = (case e of None \<Rightarrow> True | Some t \<Rightarrow> now < t)"

definition st_get :: "timestamp \<Rightarrow> string \<Rightarrow> 'v store \<Rightarrow> 'v option" where
  "st_get now k s = (case map_of s k of None \<Rightarrow> None | Some (v, e) \<Rightarrow> if live now e then Some v else None)"

definition st_del :: "string \<Rightarrow> 'v store \<Rightarrow> 'v store" where
  "st_del k s = filter (\<lambda>(k', _). k' \<noteq> k) s"

definition st_set :: "string \<Rightarrow> 'v \<Rightarrow> timestamp option \<Rightarrow> 'v store \<Rightarrow> 'v store" where
  "st_set k v e s = (k, (v, e)) # st_del k s"

definition st_setex :: "timestamp \<Rightarrow> string \<Rightarrow> int \<Rightarrow> 'v \<Rightarrow> 'v store \<Rightarrow> 'v store" where
  "st_setex now k ttl v s = st_set k v (Some (now + seconds ttl)) s"

text \<open>\<open>set(k, v, nx=True, ex=ttl)\<close>: only when the key is absent; the answer is whether it was.\<close>

definition st_setnx :: "timestamp \<Rightarrow> string \<Rightarrow> int \<Rightarrow> 'v \<Rightarrow> 'v store \<Rightarrow> bool \<times> 'v store" where
  "st_setnx now k ttl v s =
     (if st_get now k s = None then (True, st_setex now k ttl v s) else (False, s))"

definition st_exists :: "timestamp \<Rightarrow> string \<Rightarrow> 'v store \<Rightarrow> bool" where
  "st_exists now k s = (st_get now k s \<noteq> None)"

lemma map_of_st_del: "map_of (st_del k s) k' = (if k' = k then None else map_of s k')"
  unfolding st_del_def by (induction s) auto

lemma st_get_set [simp]:
  "st_get now k' (st_set k v e s) =
     (if k' = k then (if live now e then Some v else None) else st_get now k' s)"
  by (simp add: st_get_def st_set_def map_of_st_del)

lemma st_get_setex:
  "st_get now' k' (st_setex now k ttl v s) =
     (if k' = k then (if now' < now + seconds ttl then Some v else None) else st_get now' k' s)"
  by (simp add: st_setex_def live_def)

lemma st_get_del [simp]: "st_get now k' (st_del k s) = (if k' = k then None else st_get now k' s)"
  by (simp add: st_get_def map_of_st_del)

section \<open>Commands\<close>

datatype 'v redis = NoClient | Client "'v store" "bool list"

definition command :: "('v store \<Rightarrow> 'a \<times> 'v store) \<Rightarrow> 'v redis \<Rightarrow> (py_error + 'a) \<times> 'v redis" where
  "command f r =
     (case r of
        NoClient \<Rightarrow> (Inl AttributeError, NoClient)
      | Client s fs \<Rightarrow>
          (if fs \<noteq> [] \<and> hd fs then (Inl ConnectionError, Client s (tl fs))
           else let (a, s') = f s in (Inr a, Client s' (tl fs))))"

definition redis_get :: "timestamp \<Rightarrow> string \<Rightarrow> 'v redis \<Rightarrow> (py_error + 'v option) \<times> 'v redis" where
  "redis_get now k = command (\<lambda>s. (st_get now k s, s))"

definition redis_setex :: "timestamp \<Rightarrow> string \<Rightarrow> int \<Rightarrow> 'v \<Rightarrow> 'v redis \<Rightarrow> (py_error + unit) \<times> 'v redis" where
  "redis_setex now k ttl v = command (\<lambda>s. ((), st_setex now k ttl v s))"

definition redis_delete :: "string \<Rightarrow> 'v redis \<Rightarrow> (py_error + unit) \<times> 'v redis" where
  "redis_delete k = command (\<lambda>s. ((), st_del k s))"

definition redis_setnx :: "timestamp \<Rightarrow> string \<Rightarrow> int \<Rightarrow> 'v \<Rightarrow> 'v redis \<Rightarrow> (py_error + bool) \<times> 'v redis" where
  "redis_setnx now k ttl v = command (\<lambda>s. st_setnx now k ttl v s)"

definition redis_exists :: "timestamp \<Rightarrow> string \<Rightarrow> 'v redis \<Rightarrow> (py_error + bool) \<times> 'v redis" where
  "redis_exists now k = command (\<lambda>s. (st_exists now k s, s))"

text \<open>\<open>INCR\<close> counts from the number stored (a missing key is 0) and keeps the expiry; \<open>EXPIRE\<close> sets it.\<close>

definition st_incr :: "timestamp \<Rightarrow> string \<Rightarrow> rval store \<Rightarrow> (py_error + int) \<times> rval store" where
  "st_incr now k s =
     (case map_of s k of
        Some (v, e) \<Rightarrow>
          (if live now e then (case v of RNum n \<Rightarrow> (Inr (n + 1), st_set k (RNum (n + 1)) e s) | _ \<Rightarrow> (Inl ValueError, s))
           else (Inr 1, st_set k (RNum 1) None s))
      | None \<Rightarrow> (Inr 1, st_set k (RNum 1) None s))"

definition st_expire :: "timestamp \<Rightarrow> string \<Rightarrow> int \<Rightarrow> 'v store \<Rightarrow> 'v store" where
  "st_expire now k ttl s = (case st_get now k s of None \<Rightarrow> s | Some v \<Rightarrow> st_setex now k ttl v s)"

definition redis_incr :: "timestamp \<Rightarrow> string \<Rightarrow> rval redis \<Rightarrow> (py_error + int) \<times> rval redis" where
  "redis_incr now k r =
     (case command (\<lambda>s. st_incr now k s) r of (Inl e, r') \<Rightarrow> (Inl e, r') | (Inr x, r') \<Rightarrow> (x, r'))"

definition redis_expire :: "timestamp \<Rightarrow> string \<Rightarrow> int \<Rightarrow> 'v redis \<Rightarrow> (py_error + unit) \<times> 'v redis" where
  "redis_expire now k ttl = command (\<lambda>s. ((), st_expire now k ttl s))"

text \<open>What a key holds, whatever the client.\<close>

definition holds :: "timestamp \<Rightarrow> 'v redis \<Rightarrow> string \<Rightarrow> 'v option" where
  "holds now r k = (case r of NoClient \<Rightarrow> None | Client s _ \<Rightarrow> st_get now k s)"

named_theorems redis_ops

lemma command_cases [redis_ops]:
  "command f NoClient = (Inl AttributeError, NoClient)"
  "command f (Client s (True # fs)) = (Inl ConnectionError, Client s fs)"
  "command f (Client s []) = (Inr (fst (f s)), Client (snd (f s)) [])"
  "command f (Client s (False # fs)) = (Inr (fst (f s)), Client (snd (f s)) fs)"
  by (simp_all add: command_def split_def Let_def)

lemma command_split:
  "P (command f r) \<longleftrightarrow>
     (r = NoClient \<longrightarrow> P (Inl AttributeError, NoClient)) \<and>
     (\<forall>s fs. r = Client s fs \<longrightarrow> fs \<noteq> [] \<and> hd fs \<longrightarrow> P (Inl ConnectionError, Client s (tl fs))) \<and>
     (\<forall>s fs. r = Client s fs \<longrightarrow> \<not> (fs \<noteq> [] \<and> hd fs) \<longrightarrow> P (Inr (fst (f s)), Client (snd (f s)) (tl fs)))"
  by (cases r) (auto simp: command_def split_def Let_def)

lemmas redis_cmd_defs = redis_get_def redis_setex_def redis_delete_def redis_setnx_def redis_exists_def

section \<open>The client's interface\<close>

text \<open>
  What the callers rely on: a successful write is read back until it expires, a delete hides the
  key, and no command changes what another key holds.  The laws are stated on the command
  level, where a command may also fail and leave the store as it was.
\<close>

locale kv_store =
  fixes look :: "timestamp \<Rightarrow> 's \<Rightarrow> string \<Rightarrow> 'v option"
    and put :: "timestamp \<Rightarrow> string \<Rightarrow> int \<Rightarrow> 'v \<Rightarrow> 's \<Rightarrow> (py_error + unit) \<times> 's"
    and drop_key :: "string \<Rightarrow> 's \<Rightarrow> (py_error + unit) \<times> 's"
  assumes put_ok: "put now k ttl v r = (Inr u, r') \<Longrightarrow>
      look now' r' k' = (if k' = k then (if now' < now + seconds ttl then Some v else None) else look now' r k')"
    and put_fail: "put now k ttl v r = (Inl e, r') \<Longrightarrow> look now' r' = look now' r"
    and drop_ok: "drop_key k r = (Inr u, r') \<Longrightarrow>
      look now' r' k' = (if k' = k then None else look now' r k')"
    and drop_fail: "drop_key k r = (Inl e, r') \<Longrightarrow> look now' r' = look now' r"
begin

text \<open>A key that neither command names is untouched, whatever fails.\<close>

lemma put_other: "k' \<noteq> k \<Longrightarrow> look now' (snd (put now k ttl v r)) k' = look now' r k'"
  by (cases "put now k ttl v r"; cases "fst (put now k ttl v r)")
    (auto simp: put_ok put_fail)

lemma drop_other: "k' \<noteq> k \<Longrightarrow> look now' (snd (drop_key k r)) k' = look now' r k'"
  by (cases "drop_key k r"; cases "fst (drop_key k r)") (auto simp: drop_ok drop_fail)

text \<open>After a write, any key holds the new value, nothing, or what it held before.\<close>

lemma put_any: "look now' (snd (put now k ttl v r)) k' \<in> {Some v, None, look now' r k'}"
  by (cases "put now k ttl v r"; cases "fst (put now k ttl v r)") (auto simp: put_ok put_fail)

lemma drop_any: "look now' (snd (drop_key k r)) k' \<in> {None, look now' r k'}"
  by (cases "drop_key k r"; cases "fst (drop_key k r)") (auto simp: drop_ok drop_fail)

end

interpretation kv: kv_store holds redis_setex redis_delete
  by unfold_locales
    (auto simp: holds_def redis_cmd_defs st_get_setex command_def split: redis.splits if_splits)

end
