(* ===== verification/Cache.thy ===== *)
theory Cache imports Redis begin

text \<open>
  \<open>src/api/cache.py\<close> and the client factory of \<open>src/tasks/_redis.py\<close>: the lazily built client with
  its throttled warnings, and the helpers that turn every Redis failure into a miss or a no-op.
\<close>

section \<open>The lazily built client\<close>

text \<open>The module globals; \<open>warned\<close> counts the warnings logged.  Times are monotonic seconds.\<close>

record client_state =
  cl_client :: "string option"
  cl_last_cache_warn :: int
  cl_last_client_warn :: int
  cl_warned :: nat

definition WARN_INTERVAL_S :: int where "WARN_INTERVAL_S = 60"

text \<open>\<open>build_ok\<close>: whether \<open>Redis.from_url\<close> returns.\<close>

definition get_client :: "int \<Rightarrow> bool \<Rightarrow> string \<Rightarrow> client_state \<Rightarrow> string option \<times> client_state" where
  "get_client now build_ok url st =
     (case cl_client st of
        Some c \<Rightarrow> (Some c, st)
      | None \<Rightarrow>
          (if build_ok then (Some url, st\<lparr>cl_client := Some url\<rparr>)
           else if WARN_INTERVAL_S \<le> now - cl_last_client_warn st then
             (None, st\<lparr>cl_last_client_warn := now, cl_warned := cl_warned st + 1\<rparr>)
           else (None, st)))"

text \<open>The twin of the Celery workers, over the globals of its own module.\<close>

definition get_sync_redis :: "int \<Rightarrow> bool \<Rightarrow> string \<Rightarrow> client_state \<Rightarrow> string option \<times> client_state" where
  "get_sync_redis now build_ok url st =
     (if cl_client st \<noteq> None then (cl_client st, st)
      else if build_ok then (Some url, st\<lparr>cl_client := Some url\<rparr>)
      else let st' = (if WARN_INTERVAL_S \<le> now - cl_last_client_warn st
          then st\<lparr>cl_last_client_warn := now, cl_warned := cl_warned st + 1\<rparr> else st)
        in (None, st'\<lparr>cl_client := None\<rparr>))"

lemma get_sync_redis_twin: "get_sync_redis = get_client"
  by (intro ext) (simp add: get_sync_redis_def get_client_def split: option.split)

definition reset_cache_client :: "client_state \<Rightarrow> client_state" where
  "reset_cache_client st = st\<lparr>cl_client := None, cl_last_client_warn := 0\<rparr>"

definition warn_cache_disabled :: "int \<Rightarrow> client_state \<Rightarrow> client_state" where
  "warn_cache_disabled now st =
     (if WARN_INTERVAL_S \<le> now - cl_last_cache_warn st
      then st\<lparr>cl_last_cache_warn := now, cl_warned := cl_warned st + 1\<rparr> else st)"

text \<open>A sequence of failing attempts, and the warnings it logs.\<close>

fun attempts :: "int list \<Rightarrow> string \<Rightarrow> client_state \<Rightarrow> client_state" where
  "attempts [] url st = st"
| "attempts (t # ts) url st = attempts ts url (snd (get_client t False url st))"

lemma get_client_heals: "fst (get_client now True url st) \<noteq> None"
  by (simp add: get_client_def split: option.splits)

lemma attempts_warn:
  "sorted (t # ts) \<Longrightarrow> cl_client st = None \<Longrightarrow> cl_last_client_warn st = t \<Longrightarrow>
   int (cl_warned (attempts ts url st)) * WARN_INTERVAL_S \<le> int (cl_warned st) * WARN_INTERVAL_S + (last (t # ts) - t)"
proof (induction ts arbitrary: t st)
  case (Cons t' ts)
  show ?case
  proof (cases "WARN_INTERVAL_S \<le> t' - t")
    case True
    let ?st = "st\<lparr>cl_last_client_warn := t', cl_warned := cl_warned st + 1\<rparr>"
    have "int (cl_warned (attempts ts url ?st)) * WARN_INTERVAL_S \<le> int (cl_warned ?st) * WARN_INTERVAL_S + (last (t' # ts) - t')"
      using Cons.prems by (intro Cons.IH) auto
    then show ?thesis using True Cons.prems by (simp add: get_client_def algebra_simps)
  next
    case False
    have "attempts (t' # ts) url st = attempts ts url st" using False Cons.prems by (simp add: get_client_def)
    moreover have "int (cl_warned (attempts ts url st)) * WARN_INTERVAL_S \<le> int (cl_warned st) * WARN_INTERVAL_S + (last (t # ts) - t)"
      using Cons.prems by (intro Cons.IH) auto
    moreover have "last (t # ts) \<le> last (t # t' # ts)" using Cons.prems(1) by (cases ts) auto
    ultimately show ?thesis by simp
  qed
qed simp

section \<open>The helpers\<close>

definition cache_get :: "timestamp \<Rightarrow> string \<Rightarrow> rval redis \<Rightarrow> rval option \<times> rval redis" where
  "cache_get now k r =
     (if r = NoClient then (None, r)
      else case redis_get now k r of
        (Inr (Some (RList _)), r') \<Rightarrow> (None, r')
      | (Inr v, r') \<Rightarrow> (v, r')
      | (Inl _, r') \<Rightarrow> (None, r'))"

definition cache_set :: "timestamp \<Rightarrow> string \<Rightarrow> rval \<Rightarrow> int \<Rightarrow> rval redis \<Rightarrow> rval redis" where
  "cache_set now k v ttl r = (if r = NoClient then r else snd (redis_setex now k ttl v r))"

text \<open>\<open>json.loads\<close> of a stored value: a document, or a bare number; other text is not JSON here.\<close>

definition json_loads :: "rval \<Rightarrow> json option" where
  "json_loads v = (case v of RDoc j \<Rightarrow> Some j | RNum n \<Rightarrow> Some (JInt n) | _ \<Rightarrow> None)"

definition cache_get_json :: "timestamp \<Rightarrow> string \<Rightarrow> rval redis \<Rightarrow> json option \<times> rval redis" where
  "cache_get_json now k r =
     (case cache_get now k r of
        (None, r') \<Rightarrow> (None, r')
      | (Some v, r') \<Rightarrow> ((case json_loads v of Some JNull \<Rightarrow> None | x \<Rightarrow> x), r'))"

definition cache_set_json :: "timestamp \<Rightarrow> string \<Rightarrow> json \<Rightarrow> int \<Rightarrow> rval redis \<Rightarrow> rval redis" where
  "cache_set_json now k j ttl r = cache_set now k (RDoc j) ttl r"

definition cache_delete :: "string \<Rightarrow> rval redis \<Rightarrow> rval redis" where
  "cache_delete k r = (if r = NoClient then r else snd (redis_delete k r))"

lemmas cache_defs = cache_get_def cache_set_def cache_get_json_def cache_set_json_def cache_delete_def

text \<open>What the helpers do to any key: the contract of the client, failures included.\<close>

lemma cache_get_holds: "holds now' (snd (cache_get now k r)) = holds now' r"
  by (cases r) (auto simp: cache_get_def redis_get_def command_def holds_def Let_def
      split: option.splits rval.splits)

lemma cache_get_json_holds: "holds now' (snd (cache_get_json now k r)) = holds now' r"
  using cache_get_holds [of now' now k r]
  by (cases "cache_get now k r") (simp add: cache_get_json_def split: option.splits)

lemma cache_get_value: "fst (cache_get now k r) \<in> {None, holds now r k}"
  by (cases r) (auto simp: cache_get_def redis_get_def command_def holds_def Let_def
      split: option.splits rval.splits)

lemma cache_get_json_value:
  assumes "fst (cache_get_json now k r) = Some j"
  shows "\<exists>v. holds now r k = Some v \<and> json_loads v = Some j"
proof -
  obtain v r' where v: "cache_get now k r = (Some v, r')" "json_loads v = Some j"
    using assms by (auto simp: cache_get_json_def split: prod.splits option.splits json.splits)
  then have "holds now r k = Some v" using cache_get_value [of now k r] by simp
  then show ?thesis using v(2) by blast
qed

lemma cache_set_any: "holds now' (cache_set now k v ttl r) k' \<in> {holds now' r k', None, Some v}"
  using kv.put_any [of now' now k ttl v r k'] by (auto simp: cache_set_def)

lemma cache_set_other: "k' \<noteq> k \<Longrightarrow> holds now' (cache_set now k v ttl r) k' = holds now' r k'"
  by (simp add: cache_set_def kv.put_other)

lemma cache_delete_any: "holds now' (cache_delete k r) k' \<in> {holds now' r k', None}"
  using kv.drop_any [of now' k r k'] by (auto simp: cache_delete_def)

lemma cache_delete_other: "k' \<noteq> k \<Longrightarrow> holds now' (cache_delete k r) k' = holds now' r k'"
  by (simp add: cache_delete_def kv.drop_other)

text \<open>
  The cache layer never fails and never invents data: whatever the client's state, a read
  returns nothing or the JSON value stored under that very key, and leaves all keys as they were;
  a write or a delete touches its own key only, which then holds the new value, nothing, or what
  it held.
\<close>

theorem cache_degrades:
  "fst (cache_get_json now k r) \<in> {None} \<union> (case holds now r k of None \<Rightarrow> {} | Some v \<Rightarrow> {json_loads v}) \<and>
   holds now' (snd (cache_get_json now k r)) = holds now' r \<and>
   holds now' (cache_set_json now k j ttl r) k' \<in> (if k' = k then {holds now' r k', None, Some (RDoc j)} else {holds now' r k'}) \<and>
   holds now' (cache_delete k r) k' \<in> (if k' = k then {holds now' r k', None} else {holds now' r k'})"
proof -
  have "fst (cache_get_json now k r) \<in> {None} \<union> (case holds now r k of None \<Rightarrow> {} | Some v \<Rightarrow> {json_loads v})"
    using cache_get_json_value [of now k r]
    by (cases "fst (cache_get_json now k r)") (fastforce split: option.splits)+
  then show ?thesis
    using cache_get_json_holds [of now' now k r] cache_set_any [of now' now k "RDoc j" ttl r k']
      cache_set_other [of k' k now' now "RDoc j" ttl r] cache_delete_any [of now' k r k'] cache_delete_other [of k' k now' r]
    unfolding cache_set_json_def by (cases "k' = k") auto
qed

text \<open>
  A client that could not be built is rebuilt by the next call, and during an outage of any
  length the warning about it is logged at most once per minute.
\<close>

theorem client_self_heals:
  assumes "sorted (t # ts)" "cl_client st = None" "cl_last_client_warn st = t" "cl_warned st = 0"
  shows "int (cl_warned (attempts ts url st)) * 60 \<le> last (t # ts) - t \<and>
    fst (get_client now True url (attempts ts url st)) \<noteq> None"
  using attempts_warn [OF assms(1,2,3), of url] assms(4) get_client_heals
  by (simp add: WARN_INTERVAL_S_def)

theorem client_self_heals_witness:
  "int (cl_warned (attempts [10, 70, 80, 140] ''redis'' \<lparr>cl_client = None, cl_last_cache_warn = 0, cl_last_client_warn = 0,
     cl_warned = 0\<rparr>)) * 60 \<le> 140"
  using client_self_heals [of 0 "[10, 70, 80, 140]" "\<lparr>cl_client = None, cl_last_cache_warn = 0, cl_last_client_warn = 0,
     cl_warned = 0\<rparr>" "''redis''" 0] by simp

end
