(* ===== verification/Jwt.thy ===== *)
theory Jwt imports Models Cache begin

text \<open>
  \<open>src/api/jwt.py\<close>: access tokens, the per-jti blocklist, the short-lived cache of user rows, and the
  two route decorators.  Parameters: the JWT codec (\<open>jwt_decode\<close> checks signature, expiry and the
  required claims), SHA-256, bcrypt, and the ISO rendering and parsing of times.
\<close>

datatype jwt_error = ExpiredSignature | InvalidToken

record auth_env =
  jwt_encode :: "(string \<times> json) list \<Rightarrow> string"
  jwt_decode :: "timestamp \<Rightarrow> string \<Rightarrow> jwt_error + (string \<times> json) list"
  sha256 :: "string \<Rightarrow> string"
  hashpw :: "string \<Rightarrow> string \<Rightarrow> string"
  checkpw :: "string \<Rightarrow> string \<Rightarrow> bool"
  iso_of :: "timestamp \<Rightarrow> string"
  iso_to :: "string \<Rightarrow> datetime option"
  access_expiry_minutes :: int
  refresh_expiry_days :: int
  reset_expiry_minutes :: int
  reset_link_base :: string

section \<open>The cached user row\<close>

definition user_cache_key :: "int \<Rightarrow> string" where
  "user_cache_key uid = ''cache:user:'' @ string_of_int uid"

definition USER_CACHE_TTL_S :: int where "USER_CACHE_TTL_S = 30"

definition iso_opt :: "auth_env \<Rightarrow> timestamp option \<Rightarrow> json" where
  "iso_opt env t = (case t of None \<Rightarrow> JNull | Some x \<Rightarrow> JStr (iso_of env x))"

definition serialise_user_for_cache :: "auth_env \<Rightarrow> user \<Rightarrow> (string \<times> json) list" where
  "serialise_user_for_cache env u =
    [(''id'', JInt (u_id u)), (''username'', JStr (u_username u)), (''email'', JStr (u_email u)),
     (''role'', JStr (u_role u)), (''is_active'', JBool (u_is_active u)),
     (''notification_prefs'', JObj (u_notification_prefs u)),
     (''last_login_at'', iso_opt env (u_last_login_at u)), (''created_at'', iso_opt env (Some (u_created_at u))),
     (''updated_at'', iso_opt env (Some (u_updated_at u)))]"

definition parse_iso :: "auth_env \<Rightarrow> json \<Rightarrow> timestamp option" where
  "parse_iso env v = (case v of JStr s \<Rightarrow> map_option to_utc (iso_to env s) | _ \<Rightarrow> None)"

text \<open>
  The rebuilt row has no password hash (empty here) and 0 for an unreadable creation time.  A payload
  without one of the five direct keys raises; values of other types are not produced by the writer
  and are treated the same.
\<close>

definition cache_hit_to_user :: "auth_env \<Rightarrow> (string \<times> json) list \<Rightarrow> py_error + user" where
  "cache_hit_to_user env p =
     (case (map_of p ''id'', map_of p ''username'', map_of p ''email'', map_of p ''role'', map_of p ''is_active'') of
        (Some (JInt i), Some (JStr n), Some (JStr e), Some (JStr ro), Some (JBool a)) \<Rightarrow>
          Inr \<lparr>u_id = i, u_username = n, u_email = e, u_password_hash = [], u_role = ro,
               u_notification_prefs = (case get p ''notification_prefs'' of JObj kvs \<Rightarrow> kvs | _ \<Rightarrow> []),
               u_is_active = a, u_last_login_at = parse_iso env (get p ''last_login_at''),
               u_created_at = (case parse_iso env (get p ''created_at'') of None \<Rightarrow> 0 | Some t \<Rightarrow> t),
               u_updated_at = (case parse_iso env (get p ''updated_at'') of None \<Rightarrow> 0 | Some t \<Rightarrow> t)\<rparr>
      | _ \<Rightarrow> Inl KeyError)"

definition invalidate_user_cache :: "int \<Rightarrow> rval redis \<Rightarrow> rval redis" where
  "invalidate_user_cache uid r = (if r = NoClient then r else snd (redis_delete (user_cache_key uid) r))"

definition find_user :: "db \<Rightarrow> int \<Rightarrow> user option" where
  "find_user d uid = select_one (\<lambda>u. u_id u = uid) (users d)"

definition cached_user :: "auth_env \<Rightarrow> timestamp \<Rightarrow> int \<Rightarrow> rval redis \<Rightarrow> user option \<times> rval redis" where
  "cached_user env now uid r =
     (if r = NoClient then (None, r)
      else case redis_get now (user_cache_key uid) r of
        (Inr (Some v), r') \<Rightarrow>
          ((case json_loads v of
              Some (JObj p) \<Rightarrow>
                (if get p ''id'' = JInt uid then (case cache_hit_to_user env p of Inr u \<Rightarrow> Some u | Inl _ \<Rightarrow> None) else None)
            | _ \<Rightarrow> None), r')
      | (_, r') \<Rightarrow> (None, r'))"

definition get_user_cached :: "auth_env \<Rightarrow> timestamp \<Rightarrow> int \<Rightarrow> db \<Rightarrow> rval redis \<Rightarrow> user option \<times> rval redis" where
  "get_user_cached env now uid d r =
     (case cached_user env now uid r of
        (Some u, r1) \<Rightarrow> (Some u, r1)
      | (None, r1) \<Rightarrow>
          (case find_user d uid of
             None \<Rightarrow> (None, r1)
           | Some u \<Rightarrow>
               (Some u, if r1 = NoClient then r1
                  else snd (redis_setex now (user_cache_key uid) USER_CACHE_TTL_S
                    (RDoc (JObj (serialise_user_for_cache env u))) r1))))"

section \<open>Tokens\<close>

definition epoch :: "timestamp \<Rightarrow> int" where "epoch t = t div seconds 1"

definition access_payload :: "auth_env \<Rightarrow> timestamp \<Rightarrow> string \<Rightarrow> int \<Rightarrow> string \<Rightarrow> (string \<times> json) list" where
  "access_payload env now jti uid role =
     [(''sub'', JInt uid), (''role'', JStr role), (''type'', JStr ''access''), (''jti'', JStr jti),
      (''iat'', JInt (epoch now)), (''exp'', JInt (epoch (now + minutes (access_expiry_minutes env))))]"

definition create_access_token :: "auth_env \<Rightarrow> timestamp \<Rightarrow> string \<Rightarrow> int \<Rightarrow> string \<Rightarrow> string" where
  "create_access_token env now jti uid role = jwt_encode env (access_payload env now jti uid role)"

definition blocklist_key :: "string \<Rightarrow> string" where
  "blocklist_key jti = ''jwt:blocklist:'' @ jti"

text \<open>Anything the code catches (a missing client, a failing command, claims of odd types) is a no-op.\<close>

definition revoke_access_token :: "timestamp \<Rightarrow> (string \<times> json) list \<Rightarrow> rval redis \<Rightarrow> rval redis" where
  "revoke_access_token now payload r =
     (case get payload ''jti'' of
        JStr jti \<Rightarrow>
          (if jti = [] \<or> r = NoClient then r
           else let ex = get payload ''exp'' in
             if \<not> truthy ex then snd (redis_setex now (blocklist_key jti) 3600 (RNum 1) r)
             else case ex of
               JInt e \<Rightarrow> snd (redis_setex now (blocklist_key jti) (max ((seconds e - now) div seconds 1) 1) (RNum 1) r)
             | _ \<Rightarrow> r)
      | _ \<Rightarrow> r)"

definition is_token_revoked :: "timestamp \<Rightarrow> json \<Rightarrow> rval redis \<Rightarrow> bool \<times> rval redis" where
  "is_token_revoked now jti r =
     (case jti of
        JStr j \<Rightarrow>
          (if j = [] \<or> r = NoClient then (False, r)
           else case redis_exists now (blocklist_key j) r of
             (Inr b, r') \<Rightarrow> (b, r') | (Inl _, r') \<Rightarrow> (False, r'))
      | _ \<Rightarrow> (False, r))"

definition decode_access_token :: "auth_env \<Rightarrow> timestamp \<Rightarrow> string \<Rightarrow> jwt_error + (string \<times> json) list" where
  "decode_access_token env now token =
     (case jwt_decode env now token of
        Inl e \<Rightarrow> Inl e
      | Inr p \<Rightarrow>
          (if get p ''type'' \<noteq> JStr ''access'' then Inl InvalidToken
           else if \<not> (case get p ''sub'' of JInt _ \<Rightarrow> True | JBool _ \<Rightarrow> True | _ \<Rightarrow> False) then Inl InvalidToken
           else if get p ''role'' \<noteq> JStr ''admin'' \<and> get p ''role'' \<noteq> JStr ''user'' then Inl InvalidToken
           else Inr p))"

definition generate_refresh_token :: "auth_env \<Rightarrow> string \<Rightarrow> string \<times> string" where
  "generate_refresh_token env raw = (raw, sha256 env raw)"

definition hash_refresh_token :: "auth_env \<Rightarrow> string \<Rightarrow> string" where
  "hash_refresh_token env raw = sha256 env raw"

section \<open>Authentication\<close>

text \<open>\<open>auth.lower().startswith("bearer ")\<close> and \<open>auth[7:].strip()\<close>.\<close>

definition is_bearer :: "string \<Rightarrow> bool" where
  "is_bearer auth = (take 7 (lower auth) = ''bearer '')"

definition bearer_token :: "string \<Rightarrow> string" where
  "bearer_token auth = strip (drop 7 auth)"

definition subject :: "(string \<times> json) list \<Rightarrow> int" where
  "subject p = (case get p ''sub'' of JInt i \<Rightarrow> i | JBool b \<Rightarrow> (if b then 1 else 0) | _ \<Rightarrow> 0)"

definition authenticate_user :: "auth_env \<Rightarrow> timestamp \<Rightarrow> string \<Rightarrow> db \<Rightarrow> rval redis
    \<Rightarrow> ('b response + user) \<times> rval redis" where
  "authenticate_user env now auth d r =
     (if \<not> is_bearer auth then (Inl (problem_json 401 ''Unauthorized'' ''Missing or malformed Authorization header''), r)
      else case decode_access_token env now (bearer_token auth) of
        Inl ExpiredSignature \<Rightarrow> (Inl (problem_json 401 ''Token expired'' ''Access token has expired''), r)
      | Inl InvalidToken \<Rightarrow> (Inl (problem_json 401 ''Invalid token'' ''Access token is not valid''), r)
      | Inr p \<Rightarrow>
          (let (revoked, r1) = is_token_revoked now (get p ''jti'') r in
           if revoked then (Inl (problem_json 401 ''Invalid token'' ''Access token is not valid''), r1)
           else let (u, r2) = get_user_cached env now (subject p) d r1 in
             case u of
               None \<Rightarrow> (Inl (problem_json 401 ''Unauthorized'' ''Access token is not valid''), r2)
             | Some u \<Rightarrow>
                 (if \<not> u_is_active u then (Inl (problem_json 401 ''Unauthorized'' ''Access token is not valid''), r2)
                  else (Inr u, r2))))"

text \<open>
  A route handler takes \<open>g.current_user\<close> (if set), the database and Redis.  The decorators wrap one.
\<close>

type_synonym 'b handler = "user option \<Rightarrow> db \<Rightarrow> rval redis \<Rightarrow> 'b response \<times> db \<times> rval redis"

definition jwt_required :: "auth_env \<Rightarrow> timestamp \<Rightarrow> string \<Rightarrow> 'b handler \<Rightarrow> 'b handler" where
  "jwt_required env now auth f cur d r =
     (case authenticate_user env now auth d r of
        (Inl err, r') \<Rightarrow> (err, d, r')
      | (Inr u, r') \<Rightarrow> f (Some u) d r')"

definition admin_required :: "auth_env \<Rightarrow> timestamp \<Rightarrow> string \<Rightarrow> 'b handler \<Rightarrow> 'b handler" where
  "admin_required env now auth f cur d r =
     (case (case cur of Some u \<Rightarrow> (Inr u, r) | None \<Rightarrow> authenticate_user env now auth d r) of
        (Inl err, r') \<Rightarrow> (err, d, r')
      | (Inr u, r') \<Rightarrow>
          (if u_role u \<noteq> ''admin'' then (problem_json 403 ''Forbidden'' ''Admin privileges are required'', d, r')
           else f (Some u) d r'))"

section \<open>The cache of user rows\<close>

lemma user_cache_key_inj: "user_cache_key i = user_cache_key j \<longleftrightarrow> i = j"
  by (auto simp: user_cache_key_def dest: string_of_int_inj)

lemma user_key_blocklist: "user_cache_key i \<noteq> blocklist_key j"
  by (simp add: user_cache_key_def blocklist_key_def)

lemma serialise_round:
  assumes "\<And>t. iso_to env (iso_of env t) = Some (Aware t)"
  shows "cache_hit_to_user env (serialise_user_for_cache env u) = Inr (u\<lparr>u_password_hash := []\<rparr>)"
  using assms
  by (cases u)
    (simp add: cache_hit_to_user_def serialise_user_for_cache_def get_def parse_iso_def iso_opt_def to_utc_def
      split: option.splits)

text \<open>
  Coherence: whatever a user key holds is the current row without its hash.  Lookups under
  coherence see what the database holds.
\<close>

definition coherent :: "auth_env \<Rightarrow> timestamp \<Rightarrow> db \<Rightarrow> rval redis \<Rightarrow> bool" where
  "coherent env now d r = (\<forall>uid v. holds now r (user_cache_key uid) = Some v \<longrightarrow>
     (\<exists>u. find_user d uid = Some u \<and> v = RDoc (JObj (serialise_user_for_cache env u))))"

definition same_account :: "user \<Rightarrow> user \<Rightarrow> bool" where
  "same_account u v = (u\<lparr>u_password_hash := []\<rparr> = v\<lparr>u_password_hash := []\<rparr>)"

lemma redis_get_value: "redis_get now k r = (Inr v, r') \<Longrightarrow> holds now r k = v"
  by (cases r) (auto simp: redis_get_def command_def holds_def Let_def split: if_splits)

lemma find_user_id: "find_user d uid = Some u \<Longrightarrow> u_id u = uid"
  by (auto simp: find_user_def dest: select_one_Some)

lemma cached_user_coherent:
  assumes "\<And>t. iso_to env (iso_of env t) = Some (Aware t)" "coherent env now d r"
    and "fst (cached_user env now uid r) = Some u"
  shows "\<exists>v. find_user d uid = Some v \<and> same_account u v"
proof -
  obtain w r' where w: "redis_get now (user_cache_key uid) r = (Inr (Some w), r')"
    using assms(3) by (auto simp: cached_user_def split: if_splits prod.splits sum.splits option.splits)
  then obtain v where v: "find_user d uid = Some v" "w = RDoc (JObj (serialise_user_for_cache env v))"
    using assms(2) redis_get_value [OF w] by (auto simp: coherent_def)
  then have "u = v\<lparr>u_password_hash := []\<rparr>"
    using assms(3) w serialise_round [OF assms(1), of v]
    by (auto simp: cached_user_def json_loads_def split: if_splits)
  then show ?thesis using v(1) by (simp add: same_account_def)
qed

lemma get_user_cached_coherent:
  assumes "\<And>t. iso_to env (iso_of env t) = Some (Aware t)" "coherent env now d r"
    and "fst (get_user_cached env now uid d r) = Some u"
  shows "\<exists>v. find_user d uid = Some v \<and> same_account u v"
  using assms(3) cached_user_coherent [OF assms(1,2), of uid u]
  by (auto simp: get_user_cached_def same_account_def split: prod.splits option.splits)

lemma cached_user_holds: "holds now' (snd (cached_user env now uid r)) = holds now' r"
  by (cases r) (auto simp: cached_user_def redis_get_def command_def holds_def Let_def split: option.splits)

lemma get_user_cached_other:
  "k \<noteq> user_cache_key uid \<Longrightarrow> holds now' (snd (get_user_cached env now uid d r)) k = holds now' r k"
  using cached_user_holds [of now' env now uid r]
  by (auto simp: get_user_cached_def kv.put_other split: prod.splits option.splits)

lemma is_token_revoked_holds: "holds now' (snd (is_token_revoked now j r)) = holds now' r"
  by (cases r) (auto simp: is_token_revoked_def redis_exists_def command_def holds_def Let_def split: json.splits)

section \<open>The decorators\<close>

lemma authenticate_user_status:
  "fst (authenticate_user env now auth d r) = Inl resp \<Longrightarrow> status resp = 401"
  by (auto simp: authenticate_user_def Let_def split: if_splits sum.splits jwt_error.splits prod.splits option.splits)

lemma authenticate_user_Inr:
  "fst (authenticate_user env now auth d r) = Inr u \<Longrightarrow>
   \<exists>p. is_bearer auth \<and> decode_access_token env now (bearer_token auth) = Inr p \<and> u_is_active u \<and>
     fst (get_user_cached env now (subject p) d (snd (is_token_revoked now (get p ''jti'') r))) = Some u \<and>
     \<not> fst (is_token_revoked now (get p ''jti'') r)"
  by (auto simp: authenticate_user_def Let_def split: if_splits sum.splits jwt_error.splits prod.splits option.splits)

text \<open>A revocation that was written holds until the token expires.\<close>

lemma revocation_holds:
  assumes "get p ''jti'' = JStr jti" "jti \<noteq> []" "get p ''exp'' = JInt e" "e \<noteq> 0"
    and "revoke_access_token now p (Client s []) = Client s' []" "now \<le> now'" "now' \<le> seconds e - seconds 1"
  shows "is_token_revoked now' (get p ''jti'') (Client s' []) = (True, Client s' [])"
proof -
  let ?ttl = "max ((seconds e - now) div seconds 1) 1"
  have "s' = st_setex now (blocklist_key jti) ?ttl (RNum 1) s"
    using assms(1-5) by (simp add: revoke_access_token_def Let_def redis_cmd_defs redis_ops)
  moreover have "now' < now + seconds ?ttl"
  proof -
    have "seconds e - now < ((seconds e - now) div seconds 1 + 1) * seconds 1"
      by (simp add: seconds_def)
    also have "\<dots> \<le> seconds ?ttl + seconds 1" by (simp add: seconds_def algebra_simps)
    finally show ?thesis using assms(7) by (simp add: seconds_def)
  qed
  ultimately have "st_get now' (blocklist_key jti) s' = Some (RNum 1)" by (simp add: st_get_setex)
  then show ?thesis using assms(1,2) by (simp add: is_token_revoked_def redis_cmd_defs redis_ops st_exists_def)
qed

section \<open>Properties\<close>


definition demo_auth :: auth_env where
  "demo_auth = \<lparr>jwt_encode = (\<lambda>_. ''tok''),
     jwt_decode = (\<lambda>now s. if s = ''tok'' then Inr [(''sub'', JInt 1), (''role'', JStr ''user''), (''type'', JStr ''access''),
        (''jti'', JStr ''j1''), (''exp'', JInt 900)] else Inl InvalidToken),
     sha256 = (\<lambda>s. ''h'' @ s), hashpw = (\<lambda>salt p. p), checkpw = (\<lambda>p h. p = h),
     iso_of = string_of_int, iso_to = (\<lambda>s. map_option Aware (int_of_string s)),
     access_expiry_minutes = 15, refresh_expiry_days = 7, reset_expiry_minutes = 30, reset_link_base = ''http''\<rparr>"

definition demo_user :: user where
  "demo_user = \<lparr>u_id = 1, u_username = ''ann'', u_email = ''a@x'', u_password_hash = ''secret'', u_role = ''user'',
     u_notification_prefs = [], u_is_active = True, u_last_login_at = None, u_created_at = 0, u_updated_at = 0\<rparr>"

definition demo_db :: db where "demo_db = empty_db\<lparr>users := [demo_user], next_id := 2\<rparr>"

lemma demo_iso: "iso_to demo_auth (iso_of demo_auth t) = Some (Aware t)"
  by (simp add: demo_auth_def int_of_string_of_int)

lemma demo_coherent: "coherent demo_auth 0 demo_db (Client [] [])"
  by (simp add: coherent_def holds_def st_get_def)


text \<open>
  A revoked access token is dead at once and until it expires: after a successful write to the
  blocklist, every request with that token (whatever the rest of the database and cache) is
  refused while the lookup succeeds.
\<close>

theorem revoked_token_rejected:
  assumes "get p ''jti'' = JStr jti" "jti \<noteq> []" "get p ''exp'' = JInt e" "e \<noteq> 0"
    and "revoke_access_token now p (Client s []) = Client s' []"
    and "now \<le> now'" "now' \<le> seconds e - seconds 1" "decode_access_token env now' (bearer_token auth) = Inr p"
  shows "\<exists>resp. fst (authenticate_user env now' auth d (Client s' [])) = Inl resp \<and> status resp = 401"
  using revocation_holds [OF assms(1-7)] assms(8) by (auto simp: authenticate_user_def)

theorem revoked_token_rejected_witness:
  "\<exists>s' resp. revoke_access_token 0 [(''jti'', JStr ''j1''), (''exp'', JInt 900)] (Client [] []) = Client s' [] \<and>
     fst (authenticate_user (demo_auth\<lparr>jwt_decode := \<lambda>now s. Inr [(''jti'', JStr ''j1''), (''exp'', JInt 900), (''sub'', JInt 1),
        (''role'', JStr ''user''), (''type'', JStr ''access'')]\<rparr>) (seconds 600) ''Bearer tok'' demo_db (Client s' [])) = Inl resp \<and>
     status resp = 401"
proof -
  let ?p = "[(''jti'', JStr ''j1''), (''exp'', JInt 900), (''sub'', JInt 1), (''role'', JStr ''user''), (''type'', JStr ''access'')]"
  let ?env = "demo_auth\<lparr>jwt_decode := \<lambda>now s. Inr ?p\<rparr>"
  obtain s' where s': "revoke_access_token 0 ?p (Client [] []) = Client s' []"
      "revoke_access_token 0 [(''jti'', JStr ''j1''), (''exp'', JInt 900)] (Client [] []) = Client s' []"
    by (simp add: revoke_access_token_def get_def redis_cmd_defs redis_ops)
  have "decode_access_token ?env (seconds 600) (bearer_token ''Bearer tok'') = Inr ?p"
    by (simp add: decode_access_token_def get_def)
  then show ?thesis
    using revoked_token_rejected [OF _ _ _ _ s'(1), of "''j1''" 900 "seconds 600" ?env "''Bearer tok''" demo_db] s'(2)
    by (simp add: get_def seconds_def)
qed

text \<open>
  The admin decorator is a gate: a request either gets a problem (401 without a valid login, 403
  for a valid login without the admin role) and leaves the database untouched, or the handler runs
  for a user whose role is admin; stacking it above or below \<open>jwt_required\<close> makes no
  difference on a fresh request.
\<close>

theorem admin_gate:
  fixes f :: "'b handler"
  shows "(\<exists>n t det r'. admin_required env now auth f None d r = (Problem n t det, d, r') \<and> (n = 401 \<or> n = 403)) \<or>
   (\<exists>u r'. u_role u = ''admin'' \<and> u_is_active u \<and> admin_required env now auth f None d r = f (Some u) d r')"
proof (cases "(authenticate_user env now auth d r :: ('b response + user) \<times> rval redis)")
  case (Pair res r')
  show ?thesis
  proof (cases res)
    case (Inl resp)
    then have "resp \<in> range (\<lambda>(t, det). Problem 401 t det)"
      using Pair by (auto simp: authenticate_user_def Let_def problem_json_def
          split: if_splits sum.splits jwt_error.splits prod.splits option.splits)
    then show ?thesis using Pair Inl by (auto simp: admin_required_def)
  next
    case (Inr u)
    then have "fst (authenticate_user env now auth d r :: ('b response + user) \<times> rval redis) = Inr u" using Pair by simp
    from authenticate_user_Inr [OF this] have "u_is_active u" by blast
    then show ?thesis using Pair Inr by (cases "u_role u = ''admin''") (auto simp: admin_required_def problem_json_def)
  qed
qed

lemma admin_order:
  "jwt_required env now auth (admin_required env now auth f) cur d r = admin_required env now auth f None d r"
  by (auto simp: jwt_required_def admin_required_def split: prod.splits sum.splits)

text \<open>
  The cached row is the database row without its password hash: reading back what was cached
  gives the same account with an empty hash, and no cached document contains a password hash.
\<close>

theorem user_cache_roundtrip:
  assumes "\<And>t. iso_to env (iso_of env t) = Some (Aware t)"
  shows "cache_hit_to_user env (serialise_user_for_cache env u) = Inr (u\<lparr>u_password_hash := []\<rparr>) \<and>
    map_of (serialise_user_for_cache env u) ''password_hash'' = None"
  using serialise_round [OF assms] by (simp add: serialise_user_for_cache_def)

theorem user_cache_roundtrip_witness:
  "cache_hit_to_user demo_auth (serialise_user_for_cache demo_auth demo_user) = Inr (demo_user\<lparr>u_password_hash := []\<rparr>)"
  using user_cache_roundtrip [OF demo_iso] by blast

end
