(* ===== verification/Emailer.thy ===== *)
theory Emailer imports Py_Value begin

text \<open>
  \<open>src/api/emailer.py\<close>: one SMTP session for a batch, failing soft.  The transport (\<open>smtplib\<close>) is a
  record of what each of its steps does; \<open>EmailMessage\<close> refuses a header with a line break.
\<close>

record email =
  m_subject :: string
  m_body :: string
  m_recipient :: string

record smtp_settings =
  smtp_host :: string
  smtp_user :: string
  smtp_from :: string
  smtp_use_tls :: bool

record transport =
  t_connect_ok :: bool
  t_starttls_ok :: bool
  t_login_ok :: bool
  t_send_ok :: "email \<Rightarrow> bool"
  t_quit_ok :: bool

definition header_ok :: "string \<Rightarrow> bool" where
  "header_ok s = list_all (\<lambda>c. code c \<noteq> 10 \<and> code c \<noteq> 13) s"

text \<open>The loop: the messages delivered, and whether it ended without an exception.\<close>

fun send_loop :: "smtp_settings \<Rightarrow> transport \<Rightarrow> email list \<Rightarrow> bool \<times> email list" where
  "send_loop cfg t [] = (True, [])"
| "send_loop cfg t (m # ms) =
     (if \<not> (header_ok (m_subject m) \<and> header_ok (smtp_from cfg) \<and> header_ok (m_recipient m)) then (False, [])
      else let (ok, sent) = send_loop cfg t ms
           in (ok, if t_send_ok t m then m # sent else sent))"

text \<open>The returned count and the messages that left.\<close>

definition send_emails :: "smtp_settings \<Rightarrow> transport \<Rightarrow> email list \<Rightarrow> nat \<times> email list" where
  "send_emails cfg t messages =
     (if smtp_host cfg = [] \<or> messages = [] then (0, [])
      else if \<not> t_connect_ok t then (0, [])
      else if smtp_use_tls cfg \<and> \<not> t_starttls_ok t then (0, [])
      else if smtp_user cfg \<noteq> [] \<and> \<not> t_login_ok t then (0, [])
      else let (ok, sent) = send_loop cfg t messages
           in (if ok \<and> t_quit_ok t then length sent else 0, sent))"

text \<open>Without an unusable header, exactly the messages the server takes are delivered.\<close>

lemma send_loop_ok:
  "header_ok (smtp_from cfg) \<Longrightarrow> list_all (\<lambda>m. header_ok (m_subject m) \<and> header_ok (m_recipient m)) ms \<Longrightarrow>
   send_loop cfg t ms = (True, filter (t_send_ok t) ms)"
  by (induction ms) auto

text \<open>In any case a prefix of the batch is tried, in order.\<close>

lemma send_loop_prefix: "\<exists>n. snd (send_loop cfg t ms) = filter (t_send_ok t) (take n ms)"
proof (induction ms)
  case (Cons m ms)
  then obtain n where "snd (send_loop cfg t ms) = filter (t_send_ok t) (take n ms)" ..
  then show ?case
    by (auto simp: split_def intro: exI [of _ 0] exI [of _ "Suc n"])
qed simp

text \<open>
  The email batch fails soft and in order: the messages delivered are those of some prefix of
  the batch that the server took, the count never exceeds them, and nothing is sent without a
  configured host.
\<close>

theorem send_emails_soft:
  "\<exists>n. snd (send_emails cfg t ms) = filter (t_send_ok t) (take n ms) \<and>
     fst (send_emails cfg t ms) \<in> {0, length (snd (send_emails cfg t ms))} \<and>
     snd (send_emails (cfg\<lparr>smtp_host := []\<rparr>) t ms) = []"
proof -
  have "\<exists>n. [] = filter (t_send_ok t) (take n ms)" by (rule exI [of _ 0]) simp
  then show ?thesis using send_loop_prefix [of cfg t ms]
    by (auto simp: send_emails_def split_def Let_def)
qed

end
