(* ===== verification/Auth.thy ===== *)
theory Auth imports Jwt Emailer begin

text \<open>
  \<open>src/api/auth.py\<close>: the bootstrap administrator, registration, login, refresh-token rotation with
  reuse detection, logout and the password-reset flow.  Each handler is one transaction, from the
  validated body to the response; the random values of a request (\<open>rand\<close>) are its inputs.
\<close>

section \<open>Requests and responses\<close>

record rand =
  rd_salt :: string
  rd_jti :: string
  rd_refresh :: string
  rd_reset :: string

record auth_response =
  ar_access_token :: string
  ar_refresh_token :: string
  ar_expires_in :: int
  ar_role :: string
  ar_user :: "int \<times> string \<times> string \<times> string"

datatype auth_out = Tokens auth_response | Message string | NoContent

section \<open>The bootstrap administrator\<close>

record bootstrap =
  bs_username :: string
  bs_password :: string
  bs_email :: string

definition bootstrap_admin_credentials :: "bootstrap \<Rightarrow> (string \<times> string \<times> string) option" where
  "bootstrap_admin_credentials cfg =
     (let username = strip (bs_username cfg); password = bs_password cfg in
      if username = [] \<or> password = [] then None
      else Some (username, password,
        if strip (bs_email cfg) \<noteq> [] then strip (bs_email cfg) else lower username @ ''@empyrean.local''))"

text \<open>
  \<open>session.commit()\<close> of an ORM row: an unchanged row is not written, a changed one gets
  \<open>updated_at\<close>; the unique columns may refuse.
\<close>

definition touch :: "timestamp \<Rightarrow> (user \<Rightarrow> user) \<Rightarrow> user \<Rightarrow> user" where
  "touch now f u = (if f u = u then u else (f u)\<lparr>u_updated_at := now\<rparr>)"

definition update_user :: "timestamp \<Rightarrow> int \<Rightarrow> (user \<Rightarrow> user) \<Rightarrow> db \<Rightarrow> db" where
  "update_user now uid f d = d\<lparr>users := update_where (\<lambda>u. u_id u = uid) (touch now f) (users d)\<rparr>"

definition insert_user :: "user \<Rightarrow> db \<Rightarrow> py_error + user \<times> db" where
  "insert_user u d =
     (if u_username u \<in> set (map u_username (users d)) \<or> u_email u \<in> set (map u_email (users d))
      then Inl (IntegrityError ''users_key'')
      else let u' = u\<lparr>u_id := next_id d\<rparr>
           in Inr (u', d\<lparr>users := u' # users d, next_id := next_id d + 1\<rparr>))"

definition new_user :: "timestamp \<Rightarrow> string \<Rightarrow> string \<Rightarrow> string \<Rightarrow> string \<Rightarrow> (string \<times> json) list \<Rightarrow> user" where
  "new_user now username email pwd_hash role prefs =
     \<lparr>u_id = 0, u_username = username, u_email = email, u_password_hash = pwd_hash, u_role = role,
      u_notification_prefs = prefs, u_is_active = True, u_last_login_at = None,
      u_created_at = now, u_updated_at = now\<rparr>"

definition ensure_hardcoded_admin :: "auth_env \<Rightarrow> timestamp \<Rightarrow> rand \<Rightarrow> bootstrap \<Rightarrow> db \<Rightarrow> rval redis
    \<Rightarrow> (py_error + user option) \<times> db \<times> rval redis" where
  "ensure_hardcoded_admin env now rd cfg d r =
     (case bootstrap_admin_credentials cfg of
        None \<Rightarrow> (Inr None, d, r)
      | Some (username, password, email) \<Rightarrow>
          (case select_one (\<lambda>u. u_username u = username) (users d) of
             None \<Rightarrow>
               (case scalar_one_or_none (select_where (\<lambda>u. lower (u_username u) = lower username) (users d)) of
                  Inl e \<Rightarrow> (Inl e, d, r)
                | Inr (Some v) \<Rightarrow> (Inr None, d, r)
                | Inr None \<Rightarrow>
                    (case insert_user (new_user now username email (hashpw env (rd_salt rd) password) ''admin''
                        [(''email_on_critical'', JBool True)]) d of
                       Inl e \<Rightarrow> (Inl e, d, r)
                     | Inr (u, d') \<Rightarrow> (Inr (Some u), d', r)))
           | Some u \<Rightarrow>
               (let f = (\<lambda>u. u\<lparr>u_role := ''admin'', u_is_active := True\<rparr>) in
                if u_role u = ''admin'' \<and> u_is_active u then (Inr (Some u), d, r)
                else (Inr (Some (touch now f u)), update_user now (u_id u) f d, invalidate_user_cache (u_id u) r))))"

section \<open>Issuing tokens\<close>

definition refresh_expiry :: "auth_env \<Rightarrow> timestamp \<Rightarrow> timestamp" where
  "refresh_expiry env now = (now - now mod seconds 1) + days (refresh_expiry_days env)"

definition auth_payload :: "auth_env \<Rightarrow> user \<Rightarrow> string \<Rightarrow> string \<Rightarrow> auth_response" where
  "auth_payload env u access refresh =
     \<lparr>ar_access_token = access, ar_refresh_token = refresh, ar_expires_in = access_expiry_minutes env * 60,
      ar_role = u_role u, ar_user = (u_id u, u_username u, u_email u, u_role u)\<rparr>"

definition add_refresh_token :: "auth_env \<Rightarrow> timestamp \<Rightarrow> int \<Rightarrow> string \<Rightarrow> db \<Rightarrow> db" where
  "add_refresh_token env now uid token_hash d =
     d\<lparr>refresh_tokens := \<lparr>rt_id = next_id d, rt_user_id = uid, rt_token_hash = token_hash,
          rt_expires_at = refresh_expiry env now, rt_created_at = now, rt_revoked = False\<rparr> # refresh_tokens d,
       next_id := next_id d + 1\<rparr>"

definition issue_auth_tokens :: "auth_env \<Rightarrow> timestamp \<Rightarrow> rand \<Rightarrow> user \<Rightarrow> db \<Rightarrow> auth_out response \<times> db" where
  "issue_auth_tokens env now rd u d =
     (let access = create_access_token env now (rd_jti rd) (u_id u) (u_role u);
          (raw_refresh, token_hash) = generate_refresh_token env (rd_refresh rd)
      in (Reply 201 (Tokens (auth_payload env u access raw_refresh)), add_refresh_token env now (u_id u) token_hash d))"

section \<open>Register and login\<close>

definition register :: "auth_env \<Rightarrow> timestamp \<Rightarrow> rand \<Rightarrow> string \<Rightarrow> string \<Rightarrow> string \<Rightarrow> db \<Rightarrow> auth_out response \<times> db" where
  "register env now rd username email password d =
     (case insert_user (new_user now username email (hashpw env (rd_salt rd) password) ''user'' []) d of
        Inl e \<Rightarrow> (problem_json 409 ''Conflict'' ''Username or email already taken'', d)
      | Inr (u, d') \<Rightarrow> issue_auth_tokens env now rd u d')"

text \<open>
  The module global and its lazy value: the dummy hash is computed once and reused.  The compare's
  result is discarded; the third component of \<open>login\<close> counts the bcrypt compares of the request.
\<close>

definition dummy_password_hash :: "auth_env \<Rightarrow> string \<Rightarrow> string option \<Rightarrow> string \<times> string option" where
  "dummy_password_hash env salt cached =
     (case cached of Some h \<Rightarrow> (h, Some h)
      | None \<Rightarrow> let h = hashpw env salt ''timing-equalizer'' in (h, Some h))"

definition login_failed :: "auth_out response" where
  "login_failed = problem_json 401 ''Unauthorized'' ''Invalid username or password''"

definition login :: "auth_env \<Rightarrow> timestamp \<Rightarrow> rand \<Rightarrow> string \<Rightarrow> string \<Rightarrow> db \<Rightarrow> auth_out response \<times> db \<times> nat" where
  "login env now rd username password d =
     (case select_one (\<lambda>u. u_username u = username) (users d) of
        None \<Rightarrow> (login_failed, d, 1)
      | Some u \<Rightarrow>
          (if \<not> checkpw env password (u_password_hash u) then (login_failed, d, 1)
           else if \<not> u_is_active u then (login_failed, d, 1)
           else let f = (\<lambda>u. u\<lparr>u_last_login_at := Some now\<rparr>);
                    (resp, d') = issue_auth_tokens env now rd (touch now f u) (update_user now (u_id u) f d)
                in (resp, d', 1)))"

section \<open>Refresh\<close>

definition TOKEN_REUSE_KEY :: string where "TOKEN_REUSE_KEY = ''auth:refresh_token_reuse_total''"
definition TOKEN_REUSE_TTL_S :: int where "TOKEN_REUSE_TTL_S = 86400"

definition record_token_reuse :: "timestamp \<Rightarrow> rval redis \<Rightarrow> rval redis" where
  "record_token_reuse now r =
     (if r = NoClient then r
      else case redis_incr now TOKEN_REUSE_KEY r of
        (Inl e, r') \<Rightarrow> r'
      | (Inr n, r') \<Rightarrow> snd (redis_expire now TOKEN_REUSE_KEY TOKEN_REUSE_TTL_S r'))"

definition claimable :: "timestamp \<Rightarrow> string \<Rightarrow> refresh_token \<Rightarrow> bool" where
  "claimable now h t = (rt_token_hash t = h \<and> \<not> rt_revoked t \<and> now < rt_expires_at t)"

definition revoke :: "refresh_token \<Rightarrow> refresh_token" where
  "revoke t = t\<lparr>rt_revoked := True\<rparr>"

text \<open>\<open>UPDATE ... SET revoked = true WHERE ... RETURNING user_id\<close>, and its first row.\<close>

definition claim_token :: "timestamp \<Rightarrow> string \<Rightarrow> db \<Rightarrow> int option \<times> db" where
  "claim_token now h d =
     ((case select_where (claimable now h) (refresh_tokens d) of [] \<Rightarrow> None | t # _ \<Rightarrow> Some (rt_user_id t)),
      d\<lparr>refresh_tokens := update_where (claimable now h) revoke (refresh_tokens d)\<rparr>)"

definition revoke_all :: "int \<Rightarrow> db \<Rightarrow> db" where
  "revoke_all uid d = d\<lparr>refresh_tokens := update_where (\<lambda>t. rt_user_id t = uid) revoke (refresh_tokens d)\<rparr>"

definition refresh_failed :: "auth_out response" where
  "refresh_failed = problem_json 401 ''Unauthorized'' ''Refresh token is invalid or expired''"

definition refresh :: "auth_env \<Rightarrow> timestamp \<Rightarrow> rand \<Rightarrow> string \<Rightarrow> db \<Rightarrow> rval redis \<Rightarrow> auth_out response \<times> db \<times> rval redis" where
  "refresh env now rd token d r =
     (let token_hash = hash_refresh_token env token in
      case claim_token now token_hash d of
        (None, _) \<Rightarrow>
          (case scalar_one_or_none (map rt_user_id
              (select_where (\<lambda>t. rt_token_hash t = token_hash \<and> rt_revoked t) (refresh_tokens d))) of
             Inl e \<Rightarrow> (unhandled e, d, r)
           | Inr None \<Rightarrow> (refresh_failed, d, r)
           | Inr (Some uid) \<Rightarrow> (refresh_failed, revoke_all uid d, record_token_reuse now r))
      | (Some uid, d1) \<Rightarrow>
          (case find_user d1 uid of
             None \<Rightarrow> (refresh_failed, d1, r)
           | Some u \<Rightarrow>
               (if \<not> u_is_active u then (refresh_failed, d1, r)
                else let (raw_new, new_hash) = generate_refresh_token env (rd_refresh rd);
                         access = create_access_token env now (rd_jti rd) (u_id u) (u_role u)
                     in (Reply 200 (Tokens (auth_payload env u access raw_new)),
                         add_refresh_token env now (u_id u) new_hash d1, r))))"

section \<open>Logout\<close>

definition revoke_presented :: "auth_env \<Rightarrow> timestamp \<Rightarrow> string \<Rightarrow> rval redis \<Rightarrow> rval redis" where
  "revoke_presented env now auth r =
     (if is_bearer auth then
        (case decode_access_token env now (bearer_token auth) of
           Inl e \<Rightarrow> r | Inr p \<Rightarrow> revoke_access_token now p r)
      else r)"

definition logout :: "auth_env \<Rightarrow> timestamp \<Rightarrow> string \<Rightarrow> string \<Rightarrow> db \<Rightarrow> rval redis \<Rightarrow> auth_out response \<times> db \<times> rval redis" where
  "logout env now auth token d r =
     (let token_hash = hash_refresh_token env token in
      case scalar_one_or_none (select_where (\<lambda>t. rt_token_hash t = token_hash \<and> \<not> rt_revoked t) (refresh_tokens d)) of
        Inl e \<Rightarrow> (unhandled e, d, r)
      | Inr None \<Rightarrow> (Reply 204 NoContent, d, revoke_presented env now auth r)
      | Inr (Some t) \<Rightarrow>
          (Reply 204 NoContent,
           d\<lparr>refresh_tokens := update_where (\<lambda>x. rt_id x = rt_id t) revoke (refresh_tokens d)\<rparr>,
           revoke_presented env now auth r))"

section \<open>Password reset\<close>

definition make_password_reset_token :: "auth_env \<Rightarrow> string \<Rightarrow> string \<times> string" where
  "make_password_reset_token env raw = (raw, sha256 env raw)"

definition hash_password_reset_token :: "auth_env \<Rightarrow> string \<Rightarrow> string" where
  "hash_password_reset_token env raw = sha256 env raw"

text \<open>\<open>base.rstrip("/")\<close> and the query of \<open>urlsplit\<close>: between the first ? and the first #.\<close>

definition rstrip_slash :: "string \<Rightarrow> string" where
  "rstrip_slash s = rev (dropWhile (\<lambda>c. c = CHR ''/'') (rev s))"

definition url_query :: "string \<Rightarrow> string" where
  "url_query s = drop 1 (dropWhile (\<lambda>c. c \<noteq> CHR ''?'') (takeWhile (\<lambda>c. c \<noteq> CHR ''#'') s))"

definition reset_link :: "auth_env \<Rightarrow> string \<Rightarrow> string" where
  "reset_link env raw =
     (let base = rstrip_slash (reset_link_base env) in
      base @ (if url_query base \<noteq> [] then ''&'' else ''?'') @ ''token='' @ raw)"

definition email_reset :: "auth_env \<Rightarrow> string \<Rightarrow> string \<Rightarrow> email" where
  "email_reset env address url =
     \<lparr>m_subject = ''[Empyrean] Reset your password'',
      m_body = ''We received a request to reset your Empyrean password.'' @ nl @ nl @
        ''Open the link below within the next '' @ string_of_int (reset_expiry_minutes env) @
        '' minutes to choose a new one:'' @ nl @ nl @ url @ nl @ nl @
        ''If you did not request this, you can safely ignore this email '' @ emdash @
        '' the link will expire on its own and your password is unchanged.'',
      m_recipient = address\<rparr>"

definition forgot_message :: "auth_out response" where
  "forgot_message = Reply 202 (Message ''If an account exists for that email, a password reset link has been sent.'')"

text \<open>The scheduled mail is the third component.\<close>

definition forgot_password :: "auth_env \<Rightarrow> timestamp \<Rightarrow> rand \<Rightarrow> string \<Rightarrow> db \<Rightarrow> auth_out response \<times> db \<times> email list" where
  "forgot_password env now rd email d =
     (case select_one (\<lambda>u. u_email u = email) (users d) of
        Some u \<Rightarrow>
          (if u_is_active u then
             (let (raw, token_hash) = make_password_reset_token env (rd_reset rd);
                  superseded = update_where (\<lambda>t. pt_user_id t = u_id u \<and> pt_used_at t = None)
                    (\<lambda>t. t\<lparr>pt_used_at := Some now\<rparr>) (reset_tokens d);
                  t = \<lparr>pt_id = next_id d, pt_user_id = u_id u, pt_token_hash = token_hash,
                       pt_expires_at = now + minutes (reset_expiry_minutes env), pt_used_at = None, pt_created_at = now\<rparr>
              in (forgot_message, d\<lparr>reset_tokens := t # superseded, next_id := next_id d + 1\<rparr>,
                  [email_reset env (u_email u) (reset_link env raw)]))
           else (forgot_message, d, []))
      | None \<Rightarrow> (forgot_message, d, []))"

definition reset_failed :: "auth_out response" where
  "reset_failed = problem_json 401 ''Unauthorized'' ''Reset token is invalid or has expired''"

definition revoke_live :: "int \<Rightarrow> db \<Rightarrow> db" where
  "revoke_live uid d =
     d\<lparr>refresh_tokens := update_where (\<lambda>t. rt_user_id t = uid \<and> \<not> rt_revoked t) revoke (refresh_tokens d)\<rparr>"

definition reset_password :: "auth_env \<Rightarrow> timestamp \<Rightarrow> rand \<Rightarrow> string \<Rightarrow> string \<Rightarrow> db \<Rightarrow> rval redis
    \<Rightarrow> auth_out response \<times> db \<times> rval redis" where
  "reset_password env now rd token new_password d r =
     (let token_hash = hash_password_reset_token env token in
      case scalar_one_or_none (select_where (\<lambda>t. pt_token_hash t = token_hash) (reset_tokens d)) of
        Inl e \<Rightarrow> (unhandled e, d, r)
      | Inr None \<Rightarrow> (reset_failed, d, r)
      | Inr (Some t) \<Rightarrow>
          (if pt_used_at t \<noteq> None \<or> pt_expires_at t \<le> now then (reset_failed, d, r)
           else case find_user d (pt_user_id t) of
             None \<Rightarrow> (reset_failed, d, r)
           | Some u \<Rightarrow>
               (if \<not> u_is_active u then (reset_failed, d, r)
                else let h = hashpw env (rd_salt rd) new_password;
                         d1 = revoke_live (u_id u) (update_user now (u_id u) (\<lambda>u. u\<lparr>u_password_hash := h\<rparr>) d);
                         d2 = d1\<lparr>reset_tokens := update_where (\<lambda>x. pt_id x = pt_id t)
                                (\<lambda>x. x\<lparr>pt_used_at := Some now\<rparr>) (reset_tokens d1)\<rparr>
                     in (Reply 200 (Message ''Password reset successfully''), d2, invalidate_user_cache (u_id u) r))))"

end
