(* ===== verification/Profile.thy ===== *)
theory Profile imports Auth begin

text \<open>
  \<open>src/api/profile.py\<close>: the profile endpoints of the authenticated user \<open>cur\<close> (possibly rebuilt from the
  cache): reading, updating, changing the password and deactivating the account.
\<close>

definition serialise_user :: "auth_env \<Rightarrow> user \<Rightarrow> (string \<times> json) list" where
  "serialise_user env u =
    [(''id'', JInt (u_id u)), (''username'', JStr (u_username u)), (''email'', JStr (u_email u)),
     (''role'', JStr (u_role u)), (''notification_prefs'', JObj (u_notification_prefs u)),
     (''is_active'', JBool (u_is_active u)), (''last_login_at'', iso_opt env (u_last_login_at u)),
     (''created_at'', iso_opt env (Some (u_created_at u))), (''updated_at'', iso_opt env (Some (u_updated_at u)))]"

datatype profile_out = Account user | Said string

definition get_profile :: "user \<Rightarrow> db \<Rightarrow> profile_out response \<times> db" where
  "get_profile cur d = (Reply 200 (Account cur), d)"

text \<open>The validated body: a field that is \<open>None\<close> was absent or null; preferences tell the two apart.\<close>

datatype prefs_field = PrefsAbsent | PrefsNull | Prefs "(string \<times> json) list"

definition apply_profile :: "string option \<Rightarrow> string option \<Rightarrow> prefs_field \<Rightarrow> user \<Rightarrow> user" where
  "apply_profile username email prefs u =
     (let u1 = (case username of None \<Rightarrow> u | Some n \<Rightarrow> u\<lparr>u_username := n\<rparr>);
          u2 = (case email of None \<Rightarrow> u1 | Some e \<Rightarrow> u1\<lparr>u_email := e\<rparr>)
      in case prefs of PrefsAbsent \<Rightarrow> u2 | PrefsNull \<Rightarrow> u2\<lparr>u_notification_prefs := []\<rparr>
         | Prefs p \<Rightarrow> u2\<lparr>u_notification_prefs := p\<rparr>)"

definition update_profile :: "timestamp \<Rightarrow> user \<Rightarrow> string option \<Rightarrow> string option \<Rightarrow> prefs_field \<Rightarrow> db
    \<Rightarrow> profile_out response \<times> db" where
  "update_profile now cur username email prefs d =
     (if username = None \<and> email = None \<and> prefs = PrefsAbsent then (Reply 200 (Account cur), d)
      else case find_user d (u_id cur) of
        None \<Rightarrow> (problem_json 404 ''Not Found'' ''User not found'', d)
      | Some u \<Rightarrow>
          (let d' = update_user now (u_id cur) (apply_profile username email prefs) d in
           if distinct (map u_username (users d')) \<and> distinct (map u_email (users d'))
           then (Reply 200 (Account (touch now (apply_profile username email prefs) u)), d')
           else (problem_json 409 ''Conflict'' ''Username or email already taken'', d)))"

definition change_password :: "auth_env \<Rightarrow> timestamp \<Rightarrow> rand \<Rightarrow> string \<Rightarrow> user \<Rightarrow> string \<Rightarrow> string \<Rightarrow> db \<Rightarrow> rval redis
    \<Rightarrow> profile_out response \<times> db \<times> rval redis" where
  "change_password env now rd auth cur current_password new_password d r =
     (case map_option u_password_hash (find_user d (u_id cur)) of
        None \<Rightarrow> (problem_json 404 ''Not Found'' ''User not found'', d, r)
      | Some current_hash \<Rightarrow>
          (if \<not> checkpw env current_password current_hash
           then (problem_json 401 ''Unauthorized'' ''Current password is incorrect'', d, r)
           else let h = hashpw env (rd_salt rd) new_password;
                    d' = revoke_live (u_id cur) (update_user now (u_id cur) (\<lambda>u. u\<lparr>u_password_hash := h\<rparr>) d);
                    r1 = invalidate_user_cache (u_id cur) r
                in (Reply 200 (Said ''Password changed successfully''), d', revoke_presented env now auth r1)))"

definition delete_profile :: "timestamp \<Rightarrow> user \<Rightarrow> db \<Rightarrow> rval redis \<Rightarrow> profile_out response \<times> db \<times> rval redis" where
  "delete_profile now cur d r =
     (case find_user d (u_id cur) of
        None \<Rightarrow> (problem_json 404 ''Not Found'' ''User not found'', d, r)
      | Some u \<Rightarrow>
          (Reply 200 (Said ''Account deactivated successfully''),
           revoke_live (u_id cur) (update_user now (u_id cur) (\<lambda>u. u\<lparr>u_is_active := False\<rparr>) d),
           invalidate_user_cache (u_id cur) r))"

end
