(* ===== verification/Aggregation.thy ===== *)
theory Aggregation imports Models begin

text \<open>
  \<open>src/tasks/aggregation.py\<close>: the hourly roll-up with its watermark and back-fill window, the
  retention purge with the anonymisation of long-deactivated accounts, and the token sweeps.
  \<open>avg\<close> is the database's AVG over a non-empty column.
\<close>

section \<open>Hourly roll-up\<close>

definition trunc_hour :: "timestamp \<Rightarrow> timestamp" where
  "trunc_hour t = t - t mod hours 1"

definition group_of :: "timestamp \<Rightarrow> string \<Rightarrow> reading list \<Rightarrow> reading list" where
  "group_of b n rows = select_where (\<lambda>r. trunc_hour (s_time r) = b \<and> s_node_id r = n) rows"

definition column :: "(reading \<Rightarrow> 'a option) \<Rightarrow> reading list \<Rightarrow> 'a list" where
  "column f rows = map (\<lambda>r. the (f r)) (filter (\<lambda>r. f r \<noteq> None) rows)"

definition avg_col :: "(rat list \<Rightarrow> rat) \<Rightarrow> rat list \<Rightarrow> rat option" where
  "avg_col avg xs = (if xs = [] then None else Some (avg xs))"

definition fold_col :: "(int \<Rightarrow> int \<Rightarrow> int) \<Rightarrow> int list \<Rightarrow> int option" where
  "fold_col f xs = (case xs of [] \<Rightarrow> None | y # ys \<Rightarrow> Some (fold f ys y))"

definition aggregate_row :: "(rat list \<Rightarrow> rat) \<Rightarrow> timestamp \<Rightarrow> string \<Rightarrow> reading list \<Rightarrow> hourly_agg" where
  "aggregate_row avg b n g =
     \<lparr>h_bucket = b, h_node_id = n,
      h_avg_temperature = avg_col avg (column s_temperature g),
      h_avg_humidity = avg_col avg (column s_humidity g),
      h_avg_pm25 = avg_col avg (column s_pm25 g), h_avg_pm10 = avg_col avg (column s_pm10 g),
      h_max_aqi = fold_col max (column s_aqi g), h_min_aqi = fold_col min (column s_aqi g),
      h_avg_aqi = avg_col avg (map of_int (column s_aqi g)),
      h_anomaly_count = count_where s_is_anomaly g, h_reading_count = length g\<rparr>"

text \<open>\<open>ON CONFLICT (bucket, node_id) DO UPDATE\<close>.\<close>

definition upsert_agg :: "hourly_agg \<Rightarrow> hourly_agg list \<Rightarrow> hourly_agg list" where
  "upsert_agg h hs =
     (if agg_key h \<in> set (map agg_key hs) then update_where (\<lambda>x. agg_key x = agg_key h) (\<lambda>_. h) hs
      else hs @ [h])"

definition window_keys :: "timestamp \<Rightarrow> timestamp \<Rightarrow> reading list \<Rightarrow> (timestamp \<times> string) list" where
  "window_keys start endt rows =
     remdups (map (\<lambda>r. (trunc_hour (s_time r), s_node_id r))
       (select_where (\<lambda>r. start \<le> s_time r \<and> s_time r < endt) rows))"

definition earliest_hour :: "timestamp \<Rightarrow> reading list \<Rightarrow> timestamp option" where
  "earliest_hour endt rows =
     fold_col min (map (\<lambda>r. trunc_hour (s_time r)) (select_where (\<lambda>r. s_time r < endt) rows))"

definition watermark :: "hourly_agg list \<Rightarrow> timestamp option" where
  "watermark hs = fold_col max (map h_bucket hs)"

definition rollup :: "(rat list \<Rightarrow> rat) \<Rightarrow> timestamp \<Rightarrow> timestamp \<Rightarrow> db \<Rightarrow> nat \<times> db" where
  "rollup avg start endt d =
     (let in_window = select_where (\<lambda>r. start \<le> s_time r \<and> s_time r < endt) (readings d);
          ks = window_keys start endt (readings d)
      in (length ks,
          d\<lparr>hourly := foldl (\<lambda>hs (b, n). upsert_agg (aggregate_row avg b n (group_of b n in_window)) hs)
             (hourly d) ks\<rparr>))"

definition start_of :: "timestamp \<Rightarrow> db \<Rightarrow> timestamp option" where
  "start_of endt d =
     (case earliest_hour endt (readings d) of
        None \<Rightarrow> None
      | Some e \<Rightarrow> Some (case watermark (hourly d) of None \<Rightarrow> e | Some w \<Rightarrow> max e (w - hours 24)))"

definition hourly_aggregate :: "(rat list \<Rightarrow> rat) \<Rightarrow> timestamp \<Rightarrow> db \<Rightarrow> nat \<times> db" where
  "hourly_aggregate avg now d =
     (let endt = trunc_hour now in
      case start_of endt d of
        None \<Rightarrow> (0, d)
      | Some start \<Rightarrow> if endt \<le> start then (0, d) else rollup avg start endt d)"

section \<open>Retention\<close>

definition retention_days :: "int \<Rightarrow> db \<Rightarrow> py_error + int" where
  "retention_days cfg_days d =
     (case select_one (\<lambda>s. g_key s = ''data_retention_days'') (settings d) of
        None \<Rightarrow> Inr cfg_days
      | Some s \<Rightarrow>
          (case float_of_string (g_value s) of
             None \<Rightarrow> Inr cfg_days
           | Some x \<Rightarrow> (case int_of_float x of
               Inl ValueError \<Rightarrow> Inr cfg_days
             | Inl e \<Rightarrow> Inl e
             | Inr n \<Rightarrow> Inr n)))"

definition ends_with :: "string \<Rightarrow> string \<Rightarrow> bool" where
  "ends_with s suffix = (length suffix \<le> length s \<and> drop (length s - length suffix) s = suffix)"

definition deleted_name :: "user \<Rightarrow> string" where
  "deleted_name u = ''deleted-user-'' @ string_of_int (u_id u)"

definition stale_account :: "timestamp \<Rightarrow> user \<Rightarrow> bool" where
  "stale_account cutoff u = (\<not> u_is_active u \<and> u_updated_at u < cutoff \<and> \<not> ends_with (u_email u) ''@deleted.invalid'')"

definition anonymise :: "user \<Rightarrow> user" where
  "anonymise u = u\<lparr>u_username := deleted_name u, u_email := deleted_name u @ ''@deleted.invalid'',
     u_password_hash := ''!'', u_notification_prefs := [], u_last_login_at := None\<rparr>"

record purge_report =
  deleted :: nat
  hourly_buckets_deleted :: nat
  users_anonymised :: nat

text \<open>The unique columns of \<open>users\<close> may refuse the update; then the whole session rolls back.\<close>

definition purge_body :: "timestamp \<Rightarrow> int \<Rightarrow> db \<Rightarrow> (py_error + purge_report) \<times> db" where
  "purge_body now cfg_days d =
     (case retention_days cfg_days d of
        Inl e \<Rightarrow> (Inl e, d)
      | Inr n \<Rightarrow>
          (if n \<le> 0 then (Inr \<lparr>deleted = 0, hourly_buckets_deleted = 0, users_anonymised = 0\<rparr>, d)
           else
             let cutoff = now - days n;
                 us = update_where (stale_account cutoff) anonymise (users d)
             in if \<not> (distinct (map u_username us) \<and> distinct (map u_email us))
                then (Inl (IntegrityError ''users_key''), d)
                else (Inr \<lparr>deleted = count_where (\<lambda>r. s_time r < cutoff) (readings d),
                            hourly_buckets_deleted = count_where (\<lambda>h. h_bucket h < cutoff) (hourly d),
                            users_anonymised = count_where (stale_account cutoff) (users d)\<rparr>,
                      d\<lparr>readings := delete_where (\<lambda>r. s_time r < cutoff) (readings d),
                        hourly := delete_where (\<lambda>h. h_bucket h < cutoff) (hourly d),
                        users := us\<rparr>)))"

definition data_retention_cleanup :: "timestamp \<Rightarrow> bool \<Rightarrow> int \<Rightarrow> db \<Rightarrow> (py_error + purge_report) \<times> db" where
  "data_retention_cleanup now rollback_fails cfg_days d =
     (if cfg_days \<le> 0 then (Inr \<lparr>deleted = 0, hourly_buckets_deleted = 0, users_anonymised = 0\<rparr>, d)
      else get_sync_db rollback_fails (purge_body now cfg_days) d)"

section \<open>Token sweeps\<close>

definition REFRESH_TOKEN_RETENTION_PER_USER :: nat where "REFRESH_TOKEN_RETENTION_PER_USER = 10"
definition REFRESH_TOKEN_GRACE_DAYS :: int where "REFRESH_TOKEN_GRACE_DAYS = 30"

text \<open>\<open>ROW_NUMBER() OVER (PARTITION BY user_id ORDER BY created_at DESC)\<close> over the expired tokens.\<close>

definition expired_of :: "timestamp \<Rightarrow> int \<Rightarrow> refresh_token list \<Rightarrow> refresh_token list" where
  "expired_of now uid ts =
     sort_key (\<lambda>t. - rt_created_at t) (select_where (\<lambda>t. rt_expires_at t < now \<and> rt_user_id t = uid) ts)"

definition doomed_ids :: "timestamp \<Rightarrow> refresh_token list \<Rightarrow> int list" where
  "doomed_ids now ts =
     concat (map (\<lambda>uid.
       (let ranked = expired_of now uid ts in
        map rt_id (drop REFRESH_TOKEN_RETENTION_PER_USER ranked) @
        map rt_id (select_where (\<lambda>t. rt_expires_at t < now - days REFRESH_TOKEN_GRACE_DAYS) ranked)))
       (remdups (map rt_user_id ts)))"

definition refresh_token_cleanup :: "timestamp \<Rightarrow> db \<Rightarrow> nat \<times> db" where
  "refresh_token_cleanup now d =
     (let doomed = doomed_ids now (refresh_tokens d); P = (\<lambda>t. rt_id t \<in> set doomed) in
      (count_where P (refresh_tokens d), d\<lparr>refresh_tokens := delete_where P (refresh_tokens d)\<rparr>))"

definition spent_reset :: "timestamp \<Rightarrow> reset_token \<Rightarrow> bool" where
  "spent_reset now t = (pt_used_at t \<noteq> None \<or> pt_expires_at t < now)"

definition password_reset_token_cleanup :: "timestamp \<Rightarrow> db \<Rightarrow> nat \<times> db" where
  "password_reset_token_cleanup now d =
     (count_where (spent_reset now) (reset_tokens d),
      d\<lparr>reset_tokens := delete_where (spent_reset now) (reset_tokens d)\<rparr>)"

section \<open>The sweeps' contract\<close>

text \<open>
  A sweep deletes the rows of one table that a condition dooms and reports how many; once doomed,
  a row stays doomed.  Running it late, or again, is then the same as running it once.
\<close>

locale sweep =
  fixes table :: "'s \<Rightarrow> 'r list" and run :: "timestamp \<Rightarrow> 's \<Rightarrow> nat \<times> 's"
    and doomed :: "timestamp \<Rightarrow> 'r \<Rightarrow> bool"
  assumes run_table: "table (snd (run now s)) = delete_where (doomed now) (table s)"
    and run_count: "fst (run now s) = count_where (doomed now) (table s)"
    and doomed_mono: "now \<le> now' \<Longrightarrow> doomed now r \<Longrightarrow> doomed now' r"
begin

lemma again: "fst (run now (snd (run now s))) = 0"
  by (simp add: run_count run_table)

lemma late: "now \<le> now' \<Longrightarrow> table (snd (run now' (snd (run now s)))) = table (snd (run now' s))"
  using doomed_mono by (auto simp: run_table delete_where_def intro!: filter_cong)

lemma counts: "fst (run now s) + length (table (snd (run now s))) = length (table s)"
  using delete_count [of "doomed now" "table s"] by (simp add: run_count run_table)

lemma spares: "r \<in> set (table s) \<Longrightarrow> \<not> doomed now r \<Longrightarrow> r \<in> set (table (snd (run now s)))"
  by (simp add: run_table sql)

end

interpretation resets: sweep reset_tokens password_reset_token_cleanup spent_reset
  by unfold_locales (auto simp: password_reset_token_cleanup_def spent_reset_def)

section \<open>Hours\<close>

definition aligned :: "timestamp \<Rightarrow> bool" where "aligned t = (t mod hours 1 = 0)"

lemma trunc_aligned [simp]: "aligned (trunc_hour t)"
  by (simp add: aligned_def trunc_hour_def mod_simps)

lemma trunc_bounds: "trunc_hour t \<le> t" "t < trunc_hour t + hours 1"
  by (simp_all add: trunc_hour_def time_units)

lemma aligned_step: "aligned a \<Longrightarrow> aligned b \<Longrightarrow> a < b \<Longrightarrow> a + hours 1 \<le> b"
proof -
  assume "aligned a" "aligned b" "a < b"
  then obtain i j where "a = hours 1 * i" "b = hours 1 * j" by (auto simp: aligned_def mod_eq_0_iff_dvd elim!: dvdE)
  moreover from this \<open>a < b\<close> have "i + 1 \<le> j" by (simp add: time_units)
  ultimately show "a + hours 1 \<le> b" by (simp add: time_units)
qed

lemma aligned_le_iff: "aligned a \<Longrightarrow> a \<le> t \<longleftrightarrow> a \<le> trunc_hour t"
  using aligned_step [of "trunc_hour t" a] trunc_bounds [of t] by fastforce

lemma aligned_gt_iff: "aligned a \<Longrightarrow> t < a \<longleftrightarrow> trunc_hour t < a"
  using aligned_le_iff [of a t] by fastforce

lemma aligned_max [simp]: "aligned a \<Longrightarrow> aligned b \<Longrightarrow> aligned (max a b)"
  by (simp add: max_def)

lemma aligned_day: "aligned a \<Longrightarrow> aligned (a - hours 24)"
  by (simp add: aligned_def time_units mod_diff_eq [symmetric, of a] mod_simps)

section \<open>Columns\<close>

lemma fold_col_Min: "fold_col min xs = (if xs = [] then None else Some (Min (set xs)))"
  by (cases xs) (simp_all add: fold_col_def Min.set_eq_fold [symmetric])

lemma fold_col_Max: "fold_col max xs = (if xs = [] then None else Some (Max (set xs)))"
  by (cases xs) (simp_all add: fold_col_def Max.set_eq_fold [symmetric])

section \<open>The roll-up\<close>

definition agg_lookup :: "hourly_agg list \<Rightarrow> timestamp \<times> string \<Rightarrow> hourly_agg option" where
  "agg_lookup hs k = find (\<lambda>h. agg_key h = k) hs"

lemma aggregate_row_key [simp]: "agg_key (aggregate_row avg b n g) = (b, n)"
  "h_bucket (aggregate_row avg b n g) = b"
  by (simp_all add: aggregate_row_def agg_key_def)

lemma find_append: "find P (xs @ ys) = (case find P xs of None \<Rightarrow> find P ys | Some x \<Rightarrow> Some x)"
  by (induction xs) auto

lemma agg_lookup_none: "agg_lookup hs k = None \<longleftrightarrow> k \<notin> set (map agg_key hs)"
  by (auto simp: agg_lookup_def find_None_iff)

lemma find_replace:
  "v \<in> f ` set hs \<Longrightarrow> f h = v \<Longrightarrow>
   find (\<lambda>x. f x = k) (update_where (\<lambda>x. f x = v) (\<lambda>_. h) hs) = (if k = v then Some h else find (\<lambda>x. f x = k) hs)"
proof (induction hs)
  case (Cons x hs)
  show ?case
  proof (cases "f x = v")
    case True
    have "find (\<lambda>x. f x = k) (update_where (\<lambda>x. f x = v) (\<lambda>_. h) hs) = find (\<lambda>x. f x = k) hs" if "k \<noteq> v"
      using that Cons.prems(2) by (induction hs) (auto simp: update_where_def)
    then show ?thesis using True Cons.prems(2) by (auto simp: update_where_def)
  next
    case False
    then show ?thesis using Cons by (auto simp: update_where_def)
  qed
qed simp

lemma upsert_lookup: "agg_lookup (upsert_agg h hs) k = (if k = agg_key h then Some h else agg_lookup hs k)"
proof (cases "agg_key h \<in> set (map agg_key hs)")
  case True
  then have "agg_lookup (update_where (\<lambda>x. agg_key x = agg_key h) (\<lambda>_. h) hs) k =
      (if k = agg_key h then Some h else agg_lookup hs k)"
    unfolding agg_lookup_def by (intro find_replace) simp_all
  then show ?thesis using True by (simp only: upsert_agg_def if_True)
next
  case False
  then have "agg_lookup hs (agg_key h) = None" by (simp only: agg_lookup_none not_False_eq_True)
  then show ?thesis using False
    by (auto simp: upsert_agg_def agg_lookup_def find_append split: option.splits)
qed

lemma upsert_map_keys:
  "map agg_key (upsert_agg h hs) =
     (if agg_key h \<in> set (map agg_key hs) then map agg_key hs else map agg_key hs @ [agg_key h])"
  by (simp add: upsert_agg_def update_where_def)

lemma upsert_keys: "set (map agg_key (upsert_agg h hs)) = insert (agg_key h) (set (map agg_key hs))"
  unfolding upsert_map_keys by auto

lemma upsert_distinct: "distinct (map agg_key hs) \<Longrightarrow> distinct (map agg_key (upsert_agg h hs))"
  unfolding upsert_map_keys by auto

text \<open>Writing a row that is already there changes nothing.\<close>

lemma upsert_same:
  assumes "distinct (map agg_key hs)" "agg_lookup hs (agg_key h) = Some h"
  shows "upsert_agg h hs = hs"
proof -
  have h: "h \<in> set hs" using assms(2) by (auto simp: agg_lookup_def find_Some_iff)
  then have "update_where (\<lambda>x. agg_key x = agg_key h) (\<lambda>_. h) hs = hs"
    using distinct_map_eq [OF assms(1)] by (auto simp: update_where_def intro!: map_idI)
  then show ?thesis using h by (simp add: upsert_agg_def)
qed

definition upserts :: "(timestamp \<Rightarrow> string \<Rightarrow> hourly_agg) \<Rightarrow> (timestamp \<times> string) list \<Rightarrow> hourly_agg list \<Rightarrow> hourly_agg list" where
  "upserts F ks hs = foldl (\<lambda>hs (b, n). upsert_agg (F b n) hs) hs ks"

lemma upserts_simps [simp]:
  "upserts F [] hs = hs" "upserts F ((b, n) # ks) hs = upserts F ks (upsert_agg (F b n) hs)"
  by (simp_all add: upserts_def)

lemma upserts_lookup:
  "(\<And>b n. agg_key (F b n) = (b, n)) \<Longrightarrow>
   agg_lookup (upserts F ks hs) (b, n) = (if (b, n) \<in> set ks then Some (F b n) else agg_lookup hs (b, n))"
  by (induction ks arbitrary: hs) (auto simp: upsert_lookup split: if_splits)

lemma upserts_distinct: "distinct (map agg_key hs) \<Longrightarrow> distinct (map agg_key (upserts F ks hs))"
  by (induction ks arbitrary: hs) (auto simp: upsert_distinct)

lemma upserts_keys:
  "(\<And>b n. agg_key (F b n) = (b, n)) \<Longrightarrow> set (map agg_key (upserts F ks hs)) = set ks \<union> set (map agg_key hs)"
proof (induction ks arbitrary: hs)
  case (Cons k ks)
  then show ?case by (cases k) (simp add: upsert_keys del: set_map)
qed simp

lemma upserts_same:
  assumes "distinct (map agg_key hs)" "\<And>b n. agg_key (F b n) = (b, n)"
    "\<forall>(b, n) \<in> set ks. agg_lookup hs (b, n) = Some (F b n)"
  shows "upserts F ks hs = hs"
  using assms(3)
proof (induction ks)
  case (Cons k ks)
  then show ?case using upsert_same [OF assms(1)] assms(2) by (cases k) (simp add: assms(2))
qed simp

definition row_of :: "(rat list \<Rightarrow> rat) \<Rightarrow> reading list \<Rightarrow> timestamp \<Rightarrow> string \<Rightarrow> hourly_agg" where
  "row_of avg rows b n = aggregate_row avg b n (group_of b n rows)"

lemma window_keys_iff:
  assumes "aligned start" "aligned endt"
  shows "(b, n) \<in> set (window_keys start endt rows) \<longleftrightarrow> start \<le> b \<and> b < endt \<and> group_of b n rows \<noteq> []"
  using aligned_le_iff [OF assms(1)] aligned_gt_iff [OF assms(2)]
  by (auto simp: window_keys_def group_of_def select_where_def filter_empty_conv)

text \<open>On aligned windows a bucket is aggregated whole.\<close>

lemma rollup_alt:
  assumes "aligned start" "aligned endt"
  shows "rollup avg start endt d = (length (window_keys start endt (readings d)),
     d\<lparr>hourly := upserts (row_of avg (readings d)) (window_keys start endt (readings d)) (hourly d)\<rparr>)"
proof -
  let ?w = "select_where (\<lambda>r. start \<le> s_time r \<and> s_time r < endt) (readings d)"
  let ?F = "\<lambda>b n. aggregate_row avg b n (group_of b n ?w)"
  have "group_of b n ?w = group_of b n (readings d)" if "start \<le> b" "b < endt" for b n
    using that aligned_le_iff [OF assms(1)] aligned_gt_iff [OF assms(2)]
    by (auto simp: group_of_def select_where_def intro!: filter_cong)
  then have "\<forall>(b, n) \<in> set (window_keys start endt (readings d)). ?F b n = row_of avg (readings d) b n"
    using window_keys_iff [OF assms, of _ _ "readings d"] by (auto simp: row_of_def)
  then have "upserts ?F ks hs = upserts (row_of avg (readings d)) ks hs"
    if "set ks \<subseteq> set (window_keys start endt (readings d))" for ks hs
    using that by (induction ks arbitrary: hs) auto
  then show ?thesis by (simp add: rollup_def Let_def upserts_def)
qed

definition buckets_aligned :: "db \<Rightarrow> bool" where
  "buckets_aligned d = list_all (\<lambda>h. aligned (h_bucket h)) (hourly d)"

lemma start_of_aligned:
  assumes "buckets_aligned d" "start_of endt d = Some start"
  shows "aligned start"
proof -
  have "aligned w" if "watermark (hourly d) = Some w" for w
  proof -
    have "w = Max (h_bucket ` set (hourly d))" "hourly d \<noteq> []"
      using that by (auto simp: watermark_def fold_col_Max split: if_splits)
    then have "w \<in> h_bucket ` set (hourly d)" by simp
    then show ?thesis using assms(1) by (auto simp: buckets_aligned_def list_all_iff)
  qed
  moreover have "aligned e" if "earliest_hour endt (readings d) = Some e" for e
  proof -
    let ?ts = "(\<lambda>r. trunc_hour (s_time r)) ` set (select_where (\<lambda>r. s_time r < endt) (readings d))"
    have "e = Min ?ts" "?ts \<noteq> {}" using that by (auto simp: earliest_hour_def fold_col_Min split: if_splits)
    then have "e \<in> ?ts" by (metis List.finite_set Min_in finite_imageI)
    then show ?thesis by auto
  qed
  ultimately show ?thesis using assms(2) by (auto simp: start_of_def aligned_day split: option.splits)
qed

text \<open>The run as one bulk write; an empty window writes nothing.\<close>

lemma hourly_aggregate_alt:
  assumes "buckets_aligned d"
  shows "hourly_aggregate avg now d =
    (case start_of (trunc_hour now) d of None \<Rightarrow> (0, d)
     | Some start \<Rightarrow> (length (window_keys start (trunc_hour now) (readings d)),
         d\<lparr>hourly := upserts (row_of avg (readings d)) (window_keys start (trunc_hour now) (readings d)) (hourly d)\<rparr>))"
proof (cases "start_of (trunc_hour now) d")
  case (Some start)
  have "window_keys start (trunc_hour now) (readings d) = []" if "trunc_hour now \<le> start"
    using that by (auto simp: window_keys_def select_where_def filter_empty_conv)
  then show ?thesis using Some rollup_alt [OF start_of_aligned [OF assms Some], of "trunc_hour now" avg d]
    by (cases "trunc_hour now \<le> start") (simp_all add: hourly_aggregate_def Let_def)
qed (simp add: hourly_aggregate_def)

lemma row_of_key [simp]: "agg_key (row_of avg rows b n) = (b, n)"
  by (simp add: row_of_def)

lemma aggregate_lookup:
  assumes "buckets_aligned d"
  shows "agg_lookup (hourly (snd (hourly_aggregate avg now d))) (b, n) =
    (case start_of (trunc_hour now) d of
       None \<Rightarrow> agg_lookup (hourly d) (b, n)
     | Some start \<Rightarrow>
         if start \<le> b \<and> b < trunc_hour now \<and> group_of b n (readings d) \<noteq> []
         then Some (aggregate_row avg b n (group_of b n (readings d)))
         else agg_lookup (hourly d) (b, n))"
proof (cases "start_of (trunc_hour now) d")
  case (Some start)
  then show ?thesis
    using window_keys_iff [OF start_of_aligned [OF assms Some], of "trunc_hour now" b n "readings d"]
    by (simp add: hourly_aggregate_alt [OF assms] upserts_lookup) (simp add: row_of_def)
qed (simp add: hourly_aggregate_alt [OF assms])

lemma aggregate_frame:
  assumes "buckets_aligned d"
  shows "buckets_aligned (snd (hourly_aggregate avg now d))"
    "readings (snd (hourly_aggregate avg now d)) = readings d"
    "distinct (map agg_key (hourly d)) \<Longrightarrow> distinct (map agg_key (hourly (snd (hourly_aggregate avg now d))))"
proof -
  have "list_all (\<lambda>h. aligned (h_bucket h)) (hourly e) \<longleftrightarrow> (\<forall>k \<in> set (map agg_key (hourly e)). aligned (fst k))" for e
    by (auto simp: list_all_iff agg_key_def)
  note al = this
  have "aligned b" if "(b, n) \<in> set (window_keys start (trunc_hour now) (readings d))" for b n start
    using that by (auto simp: window_keys_def)
  then show "buckets_aligned (snd (hourly_aggregate avg now d))"
    using assms by (fastforce simp: hourly_aggregate_alt buckets_aligned_def al upserts_keys simp del: set_map split: option.splits)
  show "readings (snd (hourly_aggregate avg now d)) = readings d"
    by (simp add: hourly_aggregate_alt [OF assms] split: option.splits)
  show "distinct (map agg_key (hourly d)) \<Longrightarrow> distinct (map agg_key (hourly (snd (hourly_aggregate avg now d))))"
    by (simp add: hourly_aggregate_alt [OF assms] upserts_distinct split: option.splits)
qed

section \<open>Properties of the roll-up\<close>

text \<open>
  C10: After a run, every hour from the start of the window (the earliest data, or 24 hours behind
  the watermark) up to the current hour holds exactly the aggregate of all its readings; every
  other bucket is as before, so the hour in progress is never written.
\<close>

theorem hourly_buckets_correct:
  assumes "buckets_aligned d"
  shows "agg_lookup (hourly (snd (hourly_aggregate avg now d))) (b, n) =
    (case start_of (trunc_hour now) d of
       None \<Rightarrow> agg_lookup (hourly d) (b, n)
     | Some start \<Rightarrow>
         if start \<le> b \<and> b < trunc_hour now \<and> group_of b n (readings d) \<noteq> []
         then Some (aggregate_row avg b n (group_of b n (readings d)))
         else agg_lookup (hourly d) (b, n)) \<and>
    buckets_aligned (snd (hourly_aggregate avg now d))"
  using aggregate_lookup [OF assms] aggregate_frame(1) [OF assms] by blast

definition reading_at :: "timestamp \<Rightarrow> int \<Rightarrow> reading" where
  "reading_at t q = \<lparr>s_time = t, s_node_id = ''n'', s_temperature = None, s_humidity = None, s_pressure = None,
     s_voc_ohm = None, s_mq135_ppm = None, s_pm1 = None, s_pm25 = None, s_pm10 = None, s_battery_v = None,
     s_fuzzy_score = None, s_aqi = Some q, s_aqi_category = None, s_is_anomaly = False\<rparr>"

definition two_readings :: db where
  "two_readings = empty_db\<lparr>readings := [reading_at 10 70, reading_at 20 90]\<rparr>"

theorem hourly_buckets_correct_witness:
  "map_option h_max_aqi (agg_lookup (hourly (snd (hourly_aggregate hd (hours 1 + 5) two_readings))) (0, ''n'')) = Some (Some 90)"
proof -
  have "buckets_aligned two_readings" by (simp add: buckets_aligned_def two_readings_def empty_db_def)
  then have "agg_lookup (hourly (snd (hourly_aggregate hd (hours 1 + 5) two_readings))) (0, ''n'') =
      Some (aggregate_row hd 0 ''n'' (readings two_readings))"
    using hourly_buckets_correct [of two_readings hd "hours 1 + 5" 0 "''n''"]
    by (simp add: start_of_def earliest_hour_def fold_col_def watermark_def two_readings_def empty_db_def
        reading_at_def select_where_def trunc_hour_def group_of_def time_units)
  then show ?thesis
    by (simp add: aggregate_row_def column_def fold_col_def two_readings_def reading_at_def empty_db_def)
qed

text \<open>Running the roll-up again at the same time changes nothing.\<close>

theorem hourly_aggregate_idempotent:
  assumes "buckets_aligned d" "distinct (map agg_key (hourly d))" "hourly_aggregate avg now d = (m, d')"
  shows "snd (hourly_aggregate avg now d') = d'"
proof (cases "start_of (trunc_hour now) d")
  case None
  then have "d' = d" using assms(3) by (simp add: hourly_aggregate_alt [OF assms(1)])
  then show ?thesis using assms(3) by simp
next
  case (Some start)
  have d': "d' = snd (hourly_aggregate avg now d)" using assms(3) by simp
  have ok: "buckets_aligned d'" "distinct (map agg_key (hourly d'))" "readings d' = readings d"
    using aggregate_frame [OF assms(1), of avg now] assms(2) d' by auto
  show ?thesis
  proof (cases "start_of (trunc_hour now) d'")
    case None
    then show ?thesis by (simp add: hourly_aggregate_alt [OF ok(1)])
  next
    case (Some start')
    have "agg_key ` set (hourly d) \<subseteq> agg_key ` set (hourly d')"
      using \<open>start_of (trunc_hour now) d = Some start\<close>
        upserts_keys [of "row_of avg (readings d)" "window_keys start (trunc_hour now) (readings d)" "hourly d"]
      by (simp add: d' hourly_aggregate_alt [OF assms(1)])
    then have "fst ` agg_key ` set (hourly d) \<subseteq> fst ` agg_key ` set (hourly d')" by (rule image_mono)
    then have sub: "h_bucket ` set (hourly d) \<subseteq> h_bucket ` set (hourly d')"
      by (simp add: image_image agg_key_def)
    have "start \<le> start'"
    proof (cases "hourly d = []")
      case True
      then show ?thesis using Some \<open>start_of (trunc_hour now) d = Some start\<close> ok(3)
        by (auto simp: start_of_def watermark_def fold_col_Max split: option.splits if_splits)
    next
      case False
      then have le: "Max (h_bucket ` set (hourly d)) \<le> Max (h_bucket ` set (hourly d'))" and "hourly d' \<noteq> []"
        using sub by (auto intro: Max_mono)
      then obtain e where "start = max e (Max (h_bucket ` set (hourly d)) - hours 24)"
        "start' = max e (Max (h_bucket ` set (hourly d')) - hours 24)"
        using False Some \<open>start_of (trunc_hour now) d = Some start\<close> ok(3)
        by (auto simp: start_of_def watermark_def fold_col_Max split: option.splits if_splits)
      then show ?thesis using le by (simp only: max.mono diff_right_mono order_refl)
    qed
    have "agg_lookup (hourly d') (b, n) = Some (row_of avg (readings d') b n)"
      if "(b, n) \<in> set (window_keys start' (trunc_hour now) (readings d'))" for b n
    proof -
      have "start' \<le> b" "b < trunc_hour now" "group_of b n (readings d) \<noteq> []"
        using that window_keys_iff [OF start_of_aligned [OF ok(1) Some] trunc_aligned] ok(3) by auto
      then show ?thesis using \<open>start \<le> start'\<close> \<open>start_of (trunc_hour now) d = Some start\<close>
        by (simp add: d' aggregate_lookup [OF assms(1)] row_of_def) (simp add: d' [symmetric] ok(3))
    qed
    then have "upserts (row_of avg (readings d')) (window_keys start' (trunc_hour now) (readings d')) (hourly d') = hourly d'"
      using upserts_same [OF ok(2), of "row_of avg (readings d')" "window_keys start' (trunc_hour now) (readings d')"]
      by auto
    then show ?thesis using Some by (simp add: hourly_aggregate_alt [OF ok(1)])
  qed
qed

theorem hourly_aggregate_idempotent_witness:
  "\<exists>m d'. hourly_aggregate hd (hours 1 + 5) two_readings = (m, d') \<and>
     snd (hourly_aggregate hd (hours 1 + 5) d') = d'"
proof -
  obtain m d' where p: "hourly_aggregate hd (hours 1 + 5) two_readings = (m, d')" by (cases "hourly_aggregate hd (hours 1 + 5) two_readings")
  have "buckets_aligned two_readings" "distinct (map agg_key (hourly two_readings))"
    by (simp_all add: buckets_aligned_def two_readings_def empty_db_def)
  then show ?thesis using hourly_aggregate_idempotent p by blast
qed

section \<open>Properties of the sweeps\<close>

lemma anonymise_simps [simp]:
  "u_id (anonymise u) = u_id u" "u_is_active (anonymise u) = u_is_active u"
  "u_email (anonymise u) = deleted_name u @ ''@deleted.invalid''"
  by (simp_all add: anonymise_def)

lemma ends_with_append [simp]: "ends_with (s @ t) t"
  by (simp add: ends_with_def)

lemma not_stale_anonymise [simp]: "\<not> stale_account c (anonymise u)"
  by (simp add: stale_account_def)


section \<open>Refresh tokens\<close>

lemma expired_of_set: "set (expired_of now uid ts) = {t \<in> set ts. rt_expires_at t < now \<and> rt_user_id t = uid}"
  by (auto simp: expired_of_def sql)

lemma doomed_iff:
  assumes "distinct (map rt_id ts)" "t \<in> set ts"
  shows "rt_id t \<in> set (doomed_ids now ts) \<longleftrightarrow>
    t \<in> set (drop REFRESH_TOKEN_RETENTION_PER_USER (expired_of now (rt_user_id t) ts)) \<or>
    rt_expires_at t < now - days REFRESH_TOKEN_GRACE_DAYS" (is "_ \<longleftrightarrow> ?R")
proof
  assume "rt_id t \<in> set (doomed_ids now ts)"
  then obtain uid x where x: "rt_id x = rt_id t" "x \<in> set (expired_of now uid ts)"
      "x \<in> set (drop REFRESH_TOKEN_RETENTION_PER_USER (expired_of now uid ts)) \<or>
       rt_expires_at x < now - days REFRESH_TOKEN_GRACE_DAYS"
    by (fastforce simp: doomed_ids_def Let_def sql dest: in_set_dropD)
  then have "x \<in> set ts" "rt_user_id x = uid" by (simp_all add: expired_of_set)
  then have "x = t" using distinct_map_eq [OF assms(1)] assms(2) x(1) by blast
  then show ?R using x(3) \<open>rt_user_id x = uid\<close> by simp
next
  assume R: ?R
  have "t \<in> set (drop REFRESH_TOKEN_RETENTION_PER_USER (expired_of now (rt_user_id t) ts)) \<Longrightarrow> ?thesis"
    using assms(2) by (auto simp: doomed_ids_def Let_def intro!: bexI [of _ t])
  moreover have "rt_expires_at t < now - days REFRESH_TOKEN_GRACE_DAYS \<Longrightarrow> ?thesis"
    using assms(2)
    by (auto simp: doomed_ids_def Let_def sql expired_of_set REFRESH_TOKEN_GRACE_DAYS_def time_units intro!: bexI [of _ t])
  ultimately show "rt_id t \<in> set (doomed_ids now ts)" using R by blast
qed

text \<open>
  The daily sweep never deletes a token that has not expired; afterwards each user has at most
  ten expired tokens, none of them expired for more than thirty days, and within these limits the
  most recently created ones are kept.
\<close>

theorem refresh_cleanup_keeps:
  assumes "distinct (map rt_id (refresh_tokens d))" "refresh_token_cleanup now d = (n, d')"
  shows "{t \<in> set (refresh_tokens d). now \<le> rt_expires_at t} \<subseteq> set (refresh_tokens d') \<and>
    length (expired_of now uid (refresh_tokens d')) \<le> 10 \<and>
    (\<forall>t \<in> set (refresh_tokens d'). now - days 30 \<le> rt_expires_at t) \<and>
    {t \<in> set (take 10 (expired_of now uid (refresh_tokens d))). now - days 30 \<le> rt_expires_at t} \<subseteq> set (refresh_tokens d')"
proof -
  let ?ts = "refresh_tokens d" and ?D = "set (doomed_ids now (refresh_tokens d))"
  have d': "refresh_tokens d' = delete_where (\<lambda>t. rt_id t \<in> ?D) ?ts"
    using assms(2) by (auto simp: refresh_token_cleanup_def Let_def)
  note iff = doomed_iff [OF assms(1), of _ now, unfolded REFRESH_TOKEN_RETENTION_PER_USER_def REFRESH_TOKEN_GRACE_DAYS_def]
  have g: "now - days 30 < now" by (simp add: time_units)
  have dist: "distinct ?ts" using assms(1) by (simp add: distinct_map)
  then have dd: "distinct (expired_of now uid ?ts)" for uid by (simp add: expired_of_def select_where_def)
  have "t \<in> set (take 10 (expired_of now uid ?ts))"
    if "t \<in> set (refresh_tokens d')" "t \<in> set (expired_of now uid (refresh_tokens d'))" for t
  proof -
    have "t \<in> set ?ts" "rt_id t \<notin> ?D" using that(1) by (auto simp: d' sql)
    moreover have "rt_user_id t = uid" "rt_expires_at t < now" using that(2) by (auto simp: expired_of_set)
    ultimately have "t \<in> set (expired_of now uid ?ts)" "t \<notin> set (drop 10 (expired_of now uid ?ts))"
      using iff by (auto simp: expired_of_set)
    then show ?thesis by (metis Un_iff append_take_drop_id set_append)
  qed
  then have sub: "set (expired_of now uid (refresh_tokens d')) \<subseteq> set (take 10 (expired_of now uid ?ts))"
    by (auto simp: expired_of_set)
  have "length (expired_of now uid (refresh_tokens d')) = card (set (expired_of now uid (refresh_tokens d')))"
    by (rule distinct_card [symmetric]) (use dist in \<open>simp add: d' expired_of_def select_where_def delete_where_def\<close>)
  also have "\<dots> \<le> card (set (take 10 (expired_of now uid ?ts)))" using sub by (intro card_mono) auto
  also have "\<dots> \<le> 10" using card_length [of "take 10 (expired_of now uid ?ts)"] by simp
  finally have ten: "length (expired_of now uid (refresh_tokens d')) \<le> 10" .
  have keep1: "rt_id t \<notin> ?D" if "t \<in> set ?ts" "now \<le> rt_expires_at t" for t
    using that iff g by (force dest!: in_set_dropD simp: expired_of_set)
  have keep2: "t \<in> set ?ts" "rt_id t \<notin> ?D"
    if t: "t \<in> set (take 10 (expired_of now uid ?ts))" "now - days 30 \<le> rt_expires_at t" for t
  proof -
    have "t \<in> set (expired_of now uid ?ts)" using t(1) in_set_takeD by metis
    then have ts: "t \<in> set ?ts" "rt_user_id t = uid" by (simp_all add: expired_of_set)
    have "t \<notin> set (drop 10 (expired_of now uid ?ts))"
      using t(1) set_take_disj_set_drop_if_distinct [OF dd [of uid], of 10 10] by blast
    then show "rt_id t \<notin> ?D" using iff [OF ts(1)] ts(2) t(2) by simp
    show "t \<in> set ?ts" by (rule ts)
  qed
  have mem: "t \<in> set (refresh_tokens d') \<longleftrightarrow> t \<in> set ?ts \<and> rt_id t \<notin> ?D" for t by (simp add: d' sql)
  then have "now - days 30 \<le> rt_expires_at t" if "t \<in> set (refresh_tokens d')" for t
    using that iff [of t] by (simp add: not_less)
  then show ?thesis using ten keep1 keep2 mem by blast
qed

definition old_token :: "int \<Rightarrow> refresh_token" where
  "old_token i = \<lparr>rt_id = i, rt_user_id = 1, rt_token_hash = ''h'', rt_expires_at = i, rt_created_at = i, rt_revoked = False\<rparr>"

theorem refresh_cleanup_keeps_witness:
  "\<exists>n d'. refresh_token_cleanup (days 31) (empty_db\<lparr>refresh_tokens := [old_token 1, old_token (days 40)]\<rparr>) = (n, d') \<and>
     old_token (days 40) \<in> set (refresh_tokens d') \<and> old_token 1 \<notin> set (refresh_tokens d')"
proof -
  let ?d = "empty_db\<lparr>refresh_tokens := [old_token 1, old_token (days 40)]\<rparr>"
  obtain n d' where p: "refresh_token_cleanup (days 31) ?d = (n, d')" by (cases "refresh_token_cleanup (days 31) ?d")
  have e: "rt_expires_at (old_token 1) = 1" "rt_expires_at (old_token (days 40)) = days 40" for i
    by (simp_all add: old_token_def)
  have lt: "days 31 < days 40" "1 < days 31 - days 30" by (simp_all add: time_units)
  have "distinct (map rt_id (refresh_tokens ?d))" by (simp add: old_token_def time_units)
  note keeps = refresh_cleanup_keeps [OF this p, of 1]
  have "old_token (days 40) \<in> {t \<in> set (refresh_tokens ?d). days 31 \<le> rt_expires_at t}"
    using e lt by simp
  moreover have "\<not> days 31 - days 30 \<le> rt_expires_at (old_token 1)" using e lt by simp
  ultimately have "old_token (days 40) \<in> set (refresh_tokens d')" "old_token 1 \<notin> set (refresh_tokens d')"
    using keeps by blast+
  then show ?thesis using p by blast
qed

text \<open>
  The sweep of reset tokens removes exactly the used and the expired ones, counts them, and a
  sweep at any later time gives the same table whether or not this one ran.
\<close>

theorem reset_cleanup_exact:
  "now \<le> now' \<Longrightarrow>
   reset_tokens (snd (password_reset_token_cleanup now' (snd (password_reset_token_cleanup now d)))) =
     reset_tokens (snd (password_reset_token_cleanup now' d)) \<and>
   fst (password_reset_token_cleanup now d) + length (reset_tokens (snd (password_reset_token_cleanup now d)))
     = length (reset_tokens d)"
  by (simp add: resets.late resets.counts)

theorem reset_cleanup_exact_witness:
  "fst (password_reset_token_cleanup 5 empty_db) + length (reset_tokens (snd (password_reset_token_cleanup 5 empty_db))) = 0"
  using reset_cleanup_exact [of 5 6 empty_db] by (simp add: empty_db_def)

end
