(* ===== verification/Sessions.thy ===== *)
theory Sessions imports Profile Aggregation begin

text \<open>
  Properties of the login sessions: single use of refresh and reset tokens, theft response,
  revocation on credential changes, no account enumeration, and the invariant of all
  authentication steps.  The claim-and-revoke contract is a locale, interpreted on the refresh
  tokens at any time.
\<close>

section \<open>Tokens that are spent once\<close>

locale token_store =
  fixes live_for :: "'s \<Rightarrow> 'h \<Rightarrow> 'u \<Rightarrow> bool" and claim :: "'h \<Rightarrow> 's \<Rightarrow> 'u option \<times> 's"
    and kill :: "'u \<Rightarrow> 's \<Rightarrow> 's"
  assumes claim_some: "fst (claim h s) = Some u \<Longrightarrow> live_for s h u"
    and claim_none: "fst (claim h s) = None \<Longrightarrow> \<not> live_for s h u"
    and claim_spends: "live_for (snd (claim h s)) h' u \<longleftrightarrow> h' \<noteq> h \<and> live_for s h' u"
    and kill_kills: "live_for (kill v s) h u \<longleftrightarrow> u \<noteq> v \<and> live_for s h u"
begin

lemma claim_twice: "fst (claim h (snd (claim h s))) = None"
  using claim_some [of h "snd (claim h s)"] by (cases "fst (claim h (snd (claim h s)))") (auto simp: claim_spends)

lemma claim_killed: "fst (claim h (kill v s)) \<noteq> Some v"
  using claim_some [of h "kill v s" v] by (auto simp: kill_kills)

lemma dead_stays_dead:
  "\<forall>u. \<not> live_for s h u \<Longrightarrow> \<forall>u. \<not> live_for (snd (claim h' s)) h u \<and> \<not> live_for (kill v s) h u"
  by (simp add: claim_spends kill_kills)

end

definition live_for :: "timestamp \<Rightarrow> db \<Rightarrow> string \<Rightarrow> int \<Rightarrow> bool" where
  "live_for now d h uid = list_ex (\<lambda>t. claimable now h t \<and> rt_user_id t = uid) (refresh_tokens d)"

lemma claimable_revoke [simp]: "\<not> claimable now h (revoke t)"
  by (simp add: claimable_def revoke_def)

lemma revoke_simps [simp]:
  "rt_user_id (revoke t) = rt_user_id t" "rt_token_hash (revoke t) = rt_token_hash t"
  "rt_expires_at (revoke t) = rt_expires_at t" "rt_id (revoke t) = rt_id t" "rt_revoked (revoke t)"
  by (simp_all add: revoke_def)

interpretation rts: token_store "live_for now" "claim_token now" revoke_all for now
proof unfold_locales
  show "fst (claim_token now h s) = Some u \<Longrightarrow> live_for now s h u" for h s u
    by (auto simp: claim_token_def live_for_def list_ex_iff select_where_def filter_eq_Cons_iff split: list.splits)
  show "fst (claim_token now h s) = None \<Longrightarrow> \<not> live_for now s h u" for h s u
    by (auto simp: claim_token_def live_for_def list_ex_iff select_where_def filter_empty_conv split: list.splits)
  show "live_for now (snd (claim_token now h s)) h' u \<longleftrightarrow> h' \<noteq> h \<and> live_for now s h' u" for h s h' u
    by (auto simp: claim_token_def live_for_def list_ex_iff sql claimable_def)
  show "live_for now (revoke_all v s) h u \<longleftrightarrow> u \<noteq> v \<and> live_for now s h u" for v s h u
    by (auto simp: revoke_all_def live_for_def list_ex_iff sql)
qed

section \<open>The steps of the authentication API\<close>

text \<open>
  All operations on accounts and tokens, whoever requests them and whenever; \<open>h\<close> and \<open>h'\<close> are a
  refresh-token and a reset-token digest that no step issues again.
\<close>

inductive auth_step :: "auth_env \<Rightarrow> string \<Rightarrow> string \<Rightarrow> db \<Rightarrow> db \<Rightarrow> bool" for env h h' where
  st_register: "sha256 env (rd_refresh rd) \<noteq> h \<Longrightarrow>
    auth_step env h h' d (snd (register env now rd username email password d))"
| st_login: "sha256 env (rd_refresh rd) \<noteq> h \<Longrightarrow>
    auth_step env h h' d (fst (snd (login env now rd username password d)))"
| st_refresh: "sha256 env (rd_refresh rd) \<noteq> h \<Longrightarrow>
    auth_step env h h' d (fst (snd (refresh env now rd token d r)))"
| st_logout: "auth_step env h h' d (fst (snd (logout env now auth token d r)))"
| st_forgot: "sha256 env (rd_reset rd) \<noteq> h' \<Longrightarrow>
    auth_step env h h' d (fst (snd (forgot_password env now rd email d)))"
| st_reset: "auth_step env h h' d (fst (snd (reset_password env now rd token new_password d r)))"
| st_profile: "auth_step env h h' d (snd (update_profile now cur username email' prefs d))"
| st_password: "auth_step env h h' d (fst (snd (change_password env now rd auth cur old new_password d r)))"
| st_delete: "auth_step env h h' d (fst (snd (delete_profile now cur d r)))"
| st_bootstrap: "auth_step env h h' d (fst (snd (ensure_hardcoded_admin env now rd cfg d r)))"
| st_sweep_refresh: "auth_step env h h' d (snd (refresh_token_cleanup now d))"
| st_sweep_reset: "auth_step env h h' d (snd (password_reset_token_cleanup now d))"

inductive_cases auth_stepE: "auth_step env h h' d d'"

text \<open>What a step may do to the tokens: keep, revoke, drop, or issue other ones.\<close>

definition tokens_evolve :: "string \<Rightarrow> db \<Rightarrow> db \<Rightarrow> bool" where
  "tokens_evolve h d d' = (\<forall>t' \<in> set (refresh_tokens d'). rt_token_hash t' \<noteq> h \<or>
     (\<exists>t \<in> set (refresh_tokens d). t' = t \<or> t' = revoke t))"

definition resets_evolve :: "string \<Rightarrow> db \<Rightarrow> db \<Rightarrow> bool" where
  "resets_evolve h d d' = (\<forall>t' \<in> set (reset_tokens d'). pt_token_hash t' \<noteq> h \<or>
     (\<exists>t \<in> set (reset_tokens d). t' = t \<or> (\<exists>x. t' = t\<lparr>pt_used_at := Some x\<rparr>)))"

lemma evolve_refl [simp]: "tokens_evolve h d d" "resets_evolve h d d"
  by (auto simp: tokens_evolve_def resets_evolve_def)

lemma update_user_frame [simp]:
  "refresh_tokens (update_user now uid f d) = refresh_tokens d"
  "reset_tokens (update_user now uid f d) = reset_tokens d"
  "next_id (update_user now uid f d) = next_id d"
  by (simp_all add: update_user_def)

lemma insert_user_frame:
  "insert_user u d = Inr (u', d') \<Longrightarrow> refresh_tokens d' = refresh_tokens d \<and> reset_tokens d' = reset_tokens d"
  by (auto simp: insert_user_def Let_def split: if_splits)

lemma add_refresh_token_frame [simp]:
  "reset_tokens (add_refresh_token env now uid h d) = reset_tokens d"
  "users (add_refresh_token env now uid h d) = users d"
  by (simp_all add: add_refresh_token_def)

lemma add_evolve: "h0 \<noteq> h \<Longrightarrow> refresh_tokens d1 = refresh_tokens d \<Longrightarrow> tokens_evolve h d (add_refresh_token env now uid h0 d1)"
  by (auto simp: tokens_evolve_def add_refresh_token_def)

lemma claim_frame [simp]:
  "users (snd (claim_token now h d)) = users d" "reset_tokens (snd (claim_token now h d)) = reset_tokens d"
  by (simp_all add: claim_token_def)

lemma claim_token_frame: "claim_token now h d = (c, d1) \<Longrightarrow> users d1 = users d \<and> reset_tokens d1 = reset_tokens d"
  by (auto simp: claim_token_def)

lemma refresh_evolve:
  assumes "sha256 env (rd_refresh rd) \<noteq> h"
  shows "tokens_evolve h d (fst (snd (refresh env now rd token d r)))"
proof -
  have c: "\<forall>t' \<in> set (refresh_tokens (snd (claim_token now k d))). \<exists>t \<in> set (refresh_tokens d). t' = t \<or> t' = revoke t" for k
    by (auto simp: claim_token_def sql)
  show ?thesis using assms c [of "hash_refresh_token env token"]
    by (auto simp: refresh_def Let_def tokens_evolve_def revoke_all_def sql add_refresh_token_def
        generate_refresh_token_def split: prod.splits option.splits sum.splits)
qed

lemma step_tokens: "auth_step env h h' d d' \<Longrightarrow> tokens_evolve h d d'"
proof (erule auth_stepE)
  show "tokens_evolve h d d'" if "d' = snd (register env now rd username email password d)"
      "sha256 env (rd_refresh rd) \<noteq> h" for rd now username email password
    using that insert_user_frame
    by (auto simp: register_def issue_auth_tokens_def generate_refresh_token_def Let_def add_evolve split: sum.splits)
  show "tokens_evolve h d d'" if "d' = fst (snd (login env now rd username password d))"
      "sha256 env (rd_refresh rd) \<noteq> h" for rd now username password
    using that by (auto simp: login_def issue_auth_tokens_def generate_refresh_token_def Let_def add_evolve split: option.splits)
  show "tokens_evolve h d d'" if "d' = fst (snd (refresh env now rd token d r))"
      "sha256 env (rd_refresh rd) \<noteq> h" for rd now token r
    using that refresh_evolve by simp
  show "tokens_evolve h d d'" if "d' = fst (snd (logout env now auth token d r))" for now auth token r
    using that by (auto simp: logout_def Let_def tokens_evolve_def sql split: sum.splits option.splits)
  show "tokens_evolve h d d'" if "d' = fst (snd (forgot_password env now rd email d))" for now rd email
    using that by (auto simp: forgot_password_def Let_def tokens_evolve_def split: prod.splits option.splits)
  show "tokens_evolve h d d'" if "d' = fst (snd (reset_password env now rd token new_password d r))" for now rd token new_password r
    using that by (auto simp: reset_password_def Let_def tokens_evolve_def revoke_live_def sql split: sum.splits option.splits)
  show "tokens_evolve h d d'" if "d' = snd (update_profile now cur username email' prefs d)" for now cur username email' prefs
    using that by (auto simp: update_profile_def Let_def tokens_evolve_def split: option.splits)
  show "tokens_evolve h d d'" if "d' = fst (snd (change_password env now rd auth cur old new_password d r))"
    for now rd auth cur old new_password r
    using that by (auto simp: change_password_def Let_def tokens_evolve_def revoke_live_def sql split: option.splits)
  show "tokens_evolve h d d'" if "d' = fst (snd (delete_profile now cur d r))" for now cur r
    using that by (auto simp: delete_profile_def tokens_evolve_def revoke_live_def sql split: option.splits)
  show "tokens_evolve h d d'" if "d' = fst (snd (ensure_hardcoded_admin env now rd cfg d r))" for now rd cfg r
    using that insert_user_frame
    by (auto simp: ensure_hardcoded_admin_def Let_def tokens_evolve_def split: option.splits sum.splits prod.splits)
  show "tokens_evolve h d d'" if "d' = snd (refresh_token_cleanup now d)" for now
    using that by (auto simp: refresh_token_cleanup_def Let_def tokens_evolve_def sql)
  show "tokens_evolve h d d'" if "d' = snd (password_reset_token_cleanup now d)" for now
    using that by (auto simp: password_reset_token_cleanup_def tokens_evolve_def)
qed

lemma step_resets: "auth_step env h h' d d' \<Longrightarrow> resets_evolve h' d d'"
proof (erule auth_stepE)
  show "resets_evolve h' d d'" if "d' = snd (register env now rd username email password d)"
     for rd now username email password
    using that insert_user_frame
    by (auto simp: register_def issue_auth_tokens_def Let_def resets_evolve_def split: sum.splits prod.splits)
  show "resets_evolve h' d d'" if "d' = fst (snd (login env now rd username password d))" for rd now username password
    using that by (auto simp: login_def issue_auth_tokens_def Let_def resets_evolve_def split: option.splits prod.splits)
  show "resets_evolve h' d d'" if "d' = fst (snd (refresh env now rd token d r))" for rd now token r
    using that
    by (auto simp: refresh_def Let_def resets_evolve_def revoke_all_def split: prod.splits option.splits sum.splits
        dest!: claim_token_frame)
  show "resets_evolve h' d d'" if "d' = fst (snd (logout env now auth token d r))" for now auth token r
    using that by (auto simp: logout_def Let_def resets_evolve_def split: sum.splits option.splits)
  show "resets_evolve h' d d'" if "d' = fst (snd (forgot_password env now rd email d))" "sha256 env (rd_reset rd) \<noteq> h'" for now rd email
    using that by (auto simp: forgot_password_def make_password_reset_token_def Let_def resets_evolve_def sql split: option.splits)
  show "resets_evolve h' d d'" if "d' = fst (snd (reset_password env now rd token new_password d r))" for now rd token new_password r
    using that by (auto simp: reset_password_def Let_def resets_evolve_def revoke_live_def sql split: sum.splits option.splits)
  show "resets_evolve h' d d'" if "d' = snd (update_profile now cur username email' prefs d)" for now cur username email' prefs
    using that by (auto simp: update_profile_def Let_def resets_evolve_def split: option.splits)
  show "resets_evolve h' d d'" if "d' = fst (snd (change_password env now rd auth cur old new_password d r))"
    for now rd auth cur old new_password r
    using that by (auto simp: change_password_def Let_def resets_evolve_def revoke_live_def split: option.splits)
  show "resets_evolve h' d d'" if "d' = fst (snd (delete_profile now cur d r))" for now cur r
    using that by (auto simp: delete_profile_def resets_evolve_def revoke_live_def split: option.splits)
  show "resets_evolve h' d d'" if "d' = fst (snd (ensure_hardcoded_admin env now rd cfg d r))" for now rd cfg r
    using that insert_user_frame
    by (auto simp: ensure_hardcoded_admin_def Let_def resets_evolve_def split: option.splits sum.splits prod.splits)
  show "resets_evolve h' d d'" if "d' = snd (refresh_token_cleanup now d)" for now
    using that by (auto simp: refresh_token_cleanup_def Let_def resets_evolve_def)
  show "resets_evolve h' d d'" if "d' = snd (password_reset_token_cleanup now d)" for now
    using that by (auto simp: password_reset_token_cleanup_def resets_evolve_def sql)
qed

section \<open>Spent tokens\<close>

text \<open>From \<open>now\<close> on, no row with this digest can be claimed; a reset token with it is used.\<close>

definition spent :: "timestamp \<Rightarrow> string \<Rightarrow> db \<Rightarrow> bool" where
  "spent now h d = (\<forall>t \<in> set (refresh_tokens d). rt_token_hash t = h \<longrightarrow> rt_revoked t \<or> rt_expires_at t \<le> now)"

definition redeemed :: "string \<Rightarrow> db \<Rightarrow> bool" where
  "redeemed h d = (\<forall>t \<in> set (reset_tokens d). pt_token_hash t = h \<longrightarrow> pt_used_at t \<noteq> None)"

lemma spent_evolve: "tokens_evolve h d d' \<Longrightarrow> spent now h d \<Longrightarrow> spent now h d'"
  by (fastforce simp: tokens_evolve_def spent_def)

lemma redeemed_evolve: "resets_evolve h d d' \<Longrightarrow> redeemed h d \<Longrightarrow> redeemed h d'"
  by (fastforce simp: resets_evolve_def redeemed_def)

lemma spent_path: "(auth_step env h h')\<^sup>*\<^sup>* d d' \<Longrightarrow> spent now h d \<Longrightarrow> spent now h d'"
  by (induction rule: rtranclp_induct) (auto intro: spent_evolve step_tokens)

lemma redeemed_path: "(auth_step env h h')\<^sup>*\<^sup>* d d' \<Longrightarrow> redeemed h' d \<Longrightarrow> redeemed h' d'"
  by (induction rule: rtranclp_induct) (auto intro: redeemed_evolve step_resets)

lemma spent_claim: "spent now h d \<Longrightarrow> now \<le> now' \<Longrightarrow> fst (claim_token now' h d) = None"
proof -
  assume "spent now h d" "now \<le> now'"
  then have "select_where (claimable now' h) (refresh_tokens d) = []"
    by (fastforce simp: spent_def select_where_def claimable_def filter_empty_conv)
  then show ?thesis by (simp add: claim_token_def)
qed

lemma claim_spent: "spent now h (snd (claim_token now h d))"
  unfolding spent_def
proof (intro ballI impI)
  fix t' assume "t' \<in> set (refresh_tokens (snd (claim_token now h d)))" "rt_token_hash t' = h"
  then obtain t where t: "t' = (if claimable now h t then revoke t else t)"
    by (auto simp: claim_token_def mem_update_where)
  show "rt_revoked t' \<or> rt_expires_at t' \<le> now"
  proof (cases "claimable now h t")
    case True
    then show ?thesis by (simp add: t)
  next
    case False
    then have "t' = t" by (simp add: t)
    then show ?thesis using False \<open>rt_token_hash t' = h\<close> by (auto simp: claimable_def)
  qed
qed

lemma refresh_none:
  "fst (claim_token now (hash_refresh_token env token) d) = None \<Longrightarrow> status (fst (refresh env now rd token d r)) \<in> {401, 500}"
  by (auto simp: refresh_def Let_def refresh_failed_def split: prod.splits sum.splits option.splits)

lemma refresh_success:
  "refresh env now rd token d r = (Reply n body, d', r') \<Longrightarrow>
   \<exists>uid u. fst (claim_token now (hash_refresh_token env token) d) = Some uid \<and> find_user d uid = Some u \<and> u_is_active u \<and>
     d' = add_refresh_token env now (u_id u) (sha256 env (rd_refresh rd)) (snd (claim_token now (hash_refresh_token env token) d))"
  by (auto simp: refresh_def Let_def refresh_failed_def problem_json_def unhandled_def generate_refresh_token_def find_user_def
      split: prod.splits sum.splits option.splits if_splits dest!: claim_token_frame)

section \<open>Accounts\<close>

definition accounts_ok :: "db \<Rightarrow> bool" where
  "accounts_ok d = (distinct (map u_id (users d)) \<and> distinct (map u_username (users d)) \<and>
     distinct (map u_email (users d)) \<and> list_all (\<lambda>u. u_id u < next_id d) (users d))"

lemma accounts_insert:
  "accounts_ok d \<Longrightarrow> insert_user u d = Inr (u', d') \<Longrightarrow> accounts_ok d'"
  by (force simp: accounts_ok_def insert_user_def Let_def list_all_iff split: if_splits)

lemma accounts_same: "accounts_ok d \<Longrightarrow> users d' = users d \<Longrightarrow> next_id d \<le> next_id d' \<Longrightarrow> accounts_ok d'"
  by (force simp: accounts_ok_def list_all_iff)

lemma touch_id: "(\<And>u. u_id (f u) = u_id u) \<Longrightarrow> u_id (touch now f u) = u_id u"
  by (simp add: touch_def)

lemma accounts_update:
  assumes "accounts_ok d" "\<And>u. u_id (f u) = u_id u" "\<And>u. u_username (f u) = u_username u" "\<And>u. u_email (f u) = u_email u"
  shows "accounts_ok (update_user now uid f d)"
proof -
  have "map u_id (users (update_user now uid f d)) = map u_id (users d)"
    "map u_username (users (update_user now uid f d)) = map u_username (users d)"
    "map u_email (users (update_user now uid f d)) = map u_email (users d)"
    unfolding update_user_def using assms(2-4) by (auto simp: update_where_def touch_def)
  moreover have "u_id u < next_id d" if "u \<in> set (users (update_user now uid f d))" for u
    using that assms(1,2) by (auto simp: update_user_def accounts_ok_def list_all_iff sql touch_def)
  ultimately show ?thesis using assms(1) by (simp add: accounts_ok_def list_all_iff)
qed

lemma profile_accounts:
  assumes "accounts_ok d" "distinct (map u_username (users (update_user now uid (apply_profile username email prefs) d)))"
    "distinct (map u_email (users (update_user now uid (apply_profile username email prefs) d)))"
  shows "accounts_ok (update_user now uid (apply_profile username email prefs) d)"
proof -
  have i: "u_id (touch now (apply_profile username email prefs) u) = u_id u" for u
    by (auto simp: touch_def apply_profile_def Let_def split: option.splits prefs_field.splits)
  have "map u_id (users (update_user now uid (apply_profile username email prefs) d)) = map u_id (users d)"
    by (auto simp: update_user_def update_where_def i)
  moreover have "u_id u < next_id d" if "u \<in> set (users (update_user now uid (apply_profile username email prefs) d))" for u
    using that assms(1) by (auto simp: update_user_def accounts_ok_def list_all_iff sql i)
  ultimately show ?thesis using assms by (simp add: accounts_ok_def list_all_iff)
qed

lemma revoke_live_frame [simp]:
  "users (revoke_live uid d) = users d" "next_id (revoke_live uid d) = next_id d"
  "reset_tokens (revoke_live uid d) = reset_tokens d"
  by (simp_all add: revoke_live_def)

lemma revoke_all_frame [simp]: "users (revoke_all uid d) = users d" "next_id (revoke_all uid d) = next_id d"
  by (simp_all add: revoke_all_def)

lemma claim_next_id: "claim_token now h d = (c, d1) \<Longrightarrow> next_id d1 = next_id d \<and> users d1 = users d"
  by (auto simp: claim_token_def)

lemma revoke_live_kills:
  "\<forall>t \<in> set (refresh_tokens (revoke_live uid d)). rt_user_id t = uid \<longrightarrow> rt_revoked t"
proof (intro ballI impI)
  fix t assume "t \<in> set (refresh_tokens (revoke_live uid d))" "rt_user_id t = uid"
  then obtain t0 where "t = (if rt_user_id t0 = uid \<and> \<not> rt_revoked t0 then revoke t0 else t0)"
    by (auto simp: revoke_live_def mem_update_where)
  then show "rt_revoked t" using \<open>rt_user_id t = uid\<close> by (cases "rt_user_id t0 = uid \<and> \<not> rt_revoked t0") auto
qed

section \<open>Properties\<close>

text \<open>
  C6: A refresh token buys one new pair: after a successful exchange at time \<open>now\<close>, and after any
  number of further requests and sweeps of the authentication API at any times (none of which
  happens to draw the same digest), every later exchange of the token fails.
\<close>

theorem refresh_single_use:
  assumes "refresh env now rd token d r = (Reply n body, d1, r1)"
    and "sha256 env (rd_refresh rd) \<noteq> hash_refresh_token env token"
    and "(auth_step env (hash_refresh_token env token) h')\<^sup>*\<^sup>* d1 d2" "now \<le> now'"
  shows "status (fst (refresh env now' rd' token d2 r2)) \<in> {401, 500}"
proof -
  let ?h = "hash_refresh_token env token"
  obtain u :: user where d1: "d1 = add_refresh_token env now (u_id u) (sha256 env (rd_refresh rd)) (snd (claim_token now ?h d))"
    using refresh_success [OF assms(1)] by (elim exE conjE) blast
  have "spent now ?h d1" using claim_spent [of now ?h d] assms(2)
    by (simp add: d1 spent_def add_refresh_token_def)
  then have "fst (claim_token now' ?h d2) = None" using spent_claim spent_path [OF assms(3)] assms(4) by blast
  then show ?thesis by (rule refresh_none)
qed

definition demo_token :: refresh_token where
  "demo_token = \<lparr>rt_id = 5, rt_user_id = 1, rt_token_hash = ''hold'', rt_expires_at = 1000, rt_created_at = 0, rt_revoked = False\<rparr>"

definition demo_rand :: rand where
  "demo_rand = \<lparr>rd_salt = ''s'', rd_jti = ''j2'', rd_refresh = ''new'', rd_reset = ''reset''\<rparr>"

definition session_db :: db where
  "session_db = demo_db\<lparr>refresh_tokens := [demo_token]\<rparr>"

lemmas session_defs = session_db_def demo_db_def demo_user_def demo_token_def demo_rand_def demo_auth_def empty_db_def

theorem refresh_single_use_witness:
  "\<exists>body d1 r1. refresh demo_auth 10 demo_rand ''old'' session_db NoClient = (Reply 200 body, d1, r1) \<and>
     status (fst (refresh demo_auth 20 demo_rand ''old'' d1 NoClient)) \<in> {401, 500}"
proof -
  obtain body d1 r1 where p: "refresh demo_auth 10 demo_rand ''old'' session_db NoClient = (Reply 200 body, d1, r1)"
    by (simp add: refresh_def claim_token_def select_where_def claimable_def hash_refresh_token_def find_user_def
        select_one_def session_defs generate_refresh_token_def Let_def)
  have "sha256 demo_auth (rd_refresh demo_rand) \<noteq> hash_refresh_token demo_auth ''old''"
    by (simp add: demo_auth_def demo_rand_def hash_refresh_token_def)
  then show ?thesis using refresh_single_use [OF p _ rtranclp.rtrancl_refl] p by auto
qed

text \<open>
  C7: Presenting a revoked refresh token is answered like any invalid one, but revokes every token of
  its owner: afterwards no token of that user can be exchanged at any time.
\<close>

theorem reuse_revokes_everything:
  assumes "map rt_user_id (select_where (\<lambda>t. rt_token_hash t = hash_refresh_token env token \<and> rt_revoked t) (refresh_tokens d)) = [uid]"
    and "fst (claim_token now (hash_refresh_token env token) d) = None"
  shows "\<exists>d' r'. refresh env now rd token d r = (refresh_failed, d', r') \<and>
    (\<forall>h t. fst (claim_token t h d') \<noteq> Some uid) \<and> (\<forall>t h v. v \<noteq> uid \<longrightarrow> live_for t d' h v = live_for t d h v)"
proof -
  obtain d1 where "claim_token now (hash_refresh_token env token) d = (None, d1)"
    using assms(2) by (cases "claim_token now (hash_refresh_token env token) d") auto
  then have "refresh env now rd token d r = (refresh_failed, revoke_all uid d, record_token_reuse now r)"
    using assms(1) by (simp add: refresh_def scalar_one_or_none_def)
  then show ?thesis using rts.claim_killed rts.kill_kills by blast
qed

theorem reuse_revokes_everything_witness:
  "\<exists>d' r'. refresh demo_auth 10 demo_rand ''old'' (session_db\<lparr>refresh_tokens := [demo_token\<lparr>rt_revoked := True\<rparr>,
      demo_token\<lparr>rt_token_hash := ''hother''\<rparr>]\<rparr>) NoClient = (refresh_failed, d', r') \<and>
    fst (claim_token 10 ''hother'' d') \<noteq> Some 1"
proof -
  let ?d = "session_db\<lparr>refresh_tokens := [demo_token\<lparr>rt_revoked := True\<rparr>, demo_token\<lparr>rt_token_hash := ''hother''\<rparr>]\<rparr>"
  have "map rt_user_id (select_where (\<lambda>t. rt_token_hash t = hash_refresh_token demo_auth ''old'' \<and> rt_revoked t) (refresh_tokens ?d)) = [1]"
    "fst (claim_token 10 (hash_refresh_token demo_auth ''old'') ?d) = None"
    by (simp_all add: select_where_def hash_refresh_token_def session_defs claim_token_def claimable_def)
  from reuse_revokes_everything [OF this, of demo_rand NoClient] show ?thesis by blast
qed

text \<open>
  C9: A change of credentials ends every session: after a successful password change, password reset
  or account deactivation, all refresh tokens of that user are revoked; and a deactivated user is
  inactive in the database.
\<close>

theorem credential_change_ends_sessions:
  "(fst (change_password env now rd auth cur old new_password d r) = Reply n x \<longrightarrow>
     (\<forall>t \<in> set (refresh_tokens (fst (snd (change_password env now rd auth cur old new_password d r)))).
        rt_user_id t = u_id cur \<longrightarrow> rt_revoked t)) \<and>
   (fst (delete_profile now cur d r) = Reply n x \<longrightarrow>
     (\<forall>t \<in> set (refresh_tokens (fst (snd (delete_profile now cur d r)))). rt_user_id t = u_id cur \<longrightarrow> rt_revoked t) \<and>
     (\<forall>u \<in> set (users (fst (snd (delete_profile now cur d r)))). u_id u = u_id cur \<longrightarrow> \<not> u_is_active u)) \<and>
   (fst (reset_password env now rd token new_password d r) = Reply n y \<longrightarrow>
     (\<exists>t u. t \<in> set (reset_tokens d) \<and> pt_token_hash t = hash_password_reset_token env token \<and>
        pt_used_at t = None \<and> now < pt_expires_at t \<and> find_user d (pt_user_id t) = Some u \<and> u_is_active u \<and>
        (\<forall>rt \<in> set (refresh_tokens (fst (snd (reset_password env now rd token new_password d r)))).
           rt_user_id rt = u_id u \<longrightarrow> rt_revoked rt)))"
proof (intro conjI impI)
  show "\<forall>t \<in> set (refresh_tokens (fst (snd (change_password env now rd auth cur old new_password d r)))).
      rt_user_id t = u_id cur \<longrightarrow> rt_revoked t"
    if "fst (change_password env now rd auth cur old new_password d r) = Reply n x"
    using that revoke_live_kills by (auto simp: change_password_def problem_json_def Let_def split: option.splits if_splits)
  show "\<forall>t \<in> set (refresh_tokens (fst (snd (delete_profile now cur d r)))). rt_user_id t = u_id cur \<longrightarrow> rt_revoked t"
    if "fst (delete_profile now cur d r) = Reply n x"
    using that revoke_live_kills by (auto simp: delete_profile_def problem_json_def split: option.splits)
  show "\<forall>u \<in> set (users (fst (snd (delete_profile now cur d r)))). u_id u = u_id cur \<longrightarrow> \<not> u_is_active u"
    if "fst (delete_profile now cur d r) = Reply n x"
    using that by (auto simp: delete_profile_def problem_json_def update_user_def sql touch_def split: option.splits if_splits)
      (metis user.select_convs(7) user.surjective user.update_convs(7))
  show "\<exists>t u. t \<in> set (reset_tokens d) \<and> pt_token_hash t = hash_password_reset_token env token \<and>
        pt_used_at t = None \<and> now < pt_expires_at t \<and> find_user d (pt_user_id t) = Some u \<and> u_is_active u \<and>
        (\<forall>rt \<in> set (refresh_tokens (fst (snd (reset_password env now rd token new_password d r)))).
           rt_user_id rt = u_id u \<longrightarrow> rt_revoked rt)"
    if s: "fst (reset_password env now rd token new_password d r) = Reply n y"
  proof -
    obtain t where t: "scalar_one_or_none (select_where (\<lambda>t. pt_token_hash t = hash_password_reset_token env token) (reset_tokens d)) = Inr (Some t)"
      using s by (auto simp: reset_password_def reset_failed_def problem_json_def unhandled_def Let_def split: sum.splits option.splits)
    then have "t \<in> set (reset_tokens d)" "pt_token_hash t = hash_password_reset_token env token"
      by (auto simp: scalar_one_or_none_def select_where_def filter_eq_Cons_iff split: list.splits)
    then show ?thesis using s t revoke_live_kills
      by (auto simp: reset_password_def reset_failed_def problem_json_def Let_def not_le split: option.splits if_splits
          intro!: exI [of _ t])
  qed
qed

theorem credential_change_ends_sessions_witness:
  "[t \<leftarrow> refresh_tokens (fst (snd (delete_profile 10 demo_user session_db NoClient))). rt_user_id t = 1 \<and> \<not> rt_revoked t] = []"
proof -
  have "fst (delete_profile 10 demo_user session_db NoClient) = Reply 200 (Said ''Account deactivated successfully'')"
    by (simp add: delete_profile_def find_user_def select_one_def session_defs)
  then show ?thesis using credential_change_ends_sessions [of demo_auth 10 demo_rand "[]" demo_user "[]" "[]" session_db NoClient]
    by (simp add: demo_user_def filter_empty_conv)
qed

text \<open>
  Login answers 201 exactly for an active account and the right password; an unknown name, a wrong
  password and an inactive account get the same answer, change nothing, and cost the same one
  bcrypt compare.
\<close>

theorem login_uniform:
  "snd (snd (login env now rd username password d)) = 1 \<and>
   (if (\<exists>u. select_one (\<lambda>u. u_username u = username) (users d) = Some u \<and> checkpw env password (u_password_hash u) \<and> u_is_active u)
    then status (fst (login env now rd username password d)) = 201
    else fst (login env now rd username password d) = login_failed \<and> fst (snd (login env now rd username password d)) = d)"
  by (auto simp: login_def issue_auth_tokens_def Let_def split: option.splits prod.splits)

text \<open>
  The reset request reveals nothing: its answer is the same for every address, a mail goes out only
  to the address of an active account, and afterwards at most the token just issued is unused
  for that account, so an older link is dead.
\<close>

theorem forgot_password_uniform:
  "case forgot_password env now rd email d of (resp, d', mails) \<Rightarrow>
     resp = forgot_message \<and>
     (case select_one (\<lambda>u. u_email u = email) (users d) of
        None \<Rightarrow> d' = d \<and> mails = []
      | Some u \<Rightarrow>
          if u_is_active u
          then map m_recipient mails = [email] \<and>
            [t \<leftarrow> reset_tokens d'. pt_user_id t = u_id u \<and> pt_used_at t = None] = [hd (reset_tokens d')] \<and>
            pt_token_hash (hd (reset_tokens d')) = sha256 env (rd_reset rd)
          else d' = d \<and> mails = [])"
proof (cases "select_one (\<lambda>u. u_email u = email) (users d)")
  case (Some u)
  then have "u_email u = email" using select_one_Some by fast
  moreover have "[t \<leftarrow> update_where (\<lambda>t. pt_user_id t = u_id u \<and> pt_used_at t = None) (\<lambda>t. t\<lparr>pt_used_at := Some now\<rparr>) ts.
      pt_user_id t = u_id u \<and> pt_used_at t = None] = []" for ts :: "reset_token list"
    by (auto simp: filter_empty_conv sql)
  ultimately show ?thesis using Some
    by (simp add: forgot_password_def make_password_reset_token_def Let_def email_reset_def)
qed (simp add: forgot_password_def)

section \<open>Reset links and accounts\<close>

lemma reset_success:
  assumes "reset_password env now rd token new_password d r = (Reply n body, d', r')"
  shows "redeemed (hash_password_reset_token env token) d'"
proof -
  let ?h = "hash_password_reset_token env token"
  obtain t where t: "scalar_one_or_none (select_where (\<lambda>t. pt_token_hash t = ?h) (reset_tokens d)) = Inr (Some t)"
    using assms by (auto simp: reset_password_def reset_failed_def problem_json_def unhandled_def Let_def split: sum.splits option.splits)
  then have u: "x = t" if "x \<in> set (reset_tokens d)" "pt_token_hash x = ?h" for x
  proof -
    have "filter (\<lambda>t. pt_token_hash t = ?h) (reset_tokens d) = [t]"
      using t by (auto simp: scalar_one_or_none_def select_where_def split: list.splits)
    moreover have "x \<in> set (filter (\<lambda>t. pt_token_hash t = ?h) (reset_tokens d))" using that by simp
    ultimately show ?thesis by simp
  qed
  have "reset_tokens d' = update_where (\<lambda>x. pt_id x = pt_id t) (\<lambda>x. x\<lparr>pt_used_at := Some now\<rparr>) (reset_tokens d)"
    using assms t by (auto simp: reset_password_def reset_failed_def problem_json_def Let_def revoke_live_def split: option.splits if_splits)
  then show ?thesis using u by (fastforce simp: redeemed_def mem_update_where)
qed

lemma reset_redeemed:
  assumes "redeemed (hash_password_reset_token env token) d"
  shows "status (fst (reset_password env now rd token new_password d r)) \<in> {401, 500}"
proof (cases "scalar_one_or_none (select_where (\<lambda>t. pt_token_hash t = hash_password_reset_token env token) (reset_tokens d))")
  case (Inr x)
  then show ?thesis
  proof (cases x)
    case (Some t)
    then have "t \<in> set (reset_tokens d)" "pt_token_hash t = hash_password_reset_token env token"
      using Inr by (auto simp: scalar_one_or_none_def select_where_def filter_eq_Cons_iff split: list.splits)
    then have "pt_used_at t \<noteq> None" using assms by (auto simp: redeemed_def)
    then show ?thesis using Inr Some by (auto simp: reset_password_def reset_failed_def Let_def)
  qed (use Inr in \<open>simp add: reset_password_def reset_failed_def Let_def\<close>)
qed (simp add: reset_password_def Let_def)

text \<open>
  C12: A reset link works once: after a successful reset at any time, and any number of further requests
  and sweeps (none drawing the same digest), presenting the token again is refused, whatever
  the new password.
\<close>

theorem reset_single_use:
  assumes "reset_password env now rd token new_password d r = (Reply n body, d1, r1)"
    and "(auth_step env h (hash_password_reset_token env token))\<^sup>*\<^sup>* d1 d2"
  shows "status (fst (reset_password env now' rd' token new_password' d2 r2)) \<in> {401, 500}"
  using reset_redeemed redeemed_path [OF assms(2)] reset_success [OF assms(1)] by blast

definition demo_reset :: reset_token where
  "demo_reset = \<lparr>pt_id = 7, pt_user_id = 1, pt_token_hash = ''hlink'', pt_expires_at = 1000, pt_used_at = None, pt_created_at = 0\<rparr>"

theorem reset_single_use_witness:
  "\<exists>body d1 r1. reset_password demo_auth 10 demo_rand ''link'' ''pw2'' (session_db\<lparr>reset_tokens := [demo_reset]\<rparr>) NoClient = (Reply 200 body, d1, r1) \<and>
     status (fst (reset_password demo_auth 20 demo_rand ''link'' ''pw3'' d1 NoClient)) \<in> {401, 500}"
proof -
  obtain body d1 r1 where p: "reset_password demo_auth 10 demo_rand ''link'' ''pw2'' (session_db\<lparr>reset_tokens := [demo_reset]\<rparr>) NoClient = (Reply 200 body, d1, r1)"
    by (simp add: reset_password_def select_where_def scalar_one_or_none_def hash_password_reset_token_def find_user_def
        select_one_def session_defs demo_reset_def Let_def)
  then show ?thesis using reset_single_use [OF p rtranclp.rtrancl_refl] by blast
qed

lemma accounts_revoke [simp]:
  "accounts_ok (revoke_live uid d) = accounts_ok d" "accounts_ok (revoke_all uid d) = accounts_ok d"
  "accounts_ok (snd (claim_token now h d)) = accounts_ok d"
  "accounts_ok (d\<lparr>refresh_tokens := ts\<rparr>) = accounts_ok d" "accounts_ok (d\<lparr>reset_tokens := ps\<rparr>) = accounts_ok d"
  by (simp_all add: accounts_ok_def revoke_live_def revoke_all_def claim_token_def)

lemma accounts_next: "accounts_ok d \<Longrightarrow> accounts_ok (d\<lparr>next_id := next_id d + 1\<rparr>)"
  by (auto simp: accounts_ok_def list_all_iff)

lemma accounts_add: "accounts_ok d \<Longrightarrow> accounts_ok (add_refresh_token env now uid h d)"
proof -
  assume "accounts_ok d"
  then have "accounts_ok ((d\<lparr>refresh_tokens := ts\<rparr>)\<lparr>next_id := next_id (d\<lparr>refresh_tokens := ts\<rparr>) + 1\<rparr>)" for ts
    by (intro accounts_next) simp
  then show ?thesis by (simp add: add_refresh_token_def)
qed

lemma accounts_claim: "claim_token now h d = (c, d1) \<Longrightarrow> accounts_ok d1 = accounts_ok d"
  using accounts_revoke(3) [of now h d] by simp

lemma accounts_inserted: "insert_user u d = Inr (u', d') \<Longrightarrow> accounts_ok d \<longrightarrow> accounts_ok d'"
  using accounts_insert by blast

lemma step_accounts: "auth_step env h h' d d' \<Longrightarrow> accounts_ok d \<Longrightarrow> accounts_ok d'"
proof (erule auth_stepE)
  assume ok: "accounts_ok d"
  show "accounts_ok d'" if "d' = snd (register env now rd username email password d)" for rd now username email password
    using that ok by (auto simp: register_def issue_auth_tokens_def Let_def split: sum.splits prod.splits
        intro!: accounts_add dest!: accounts_inserted)
  show "accounts_ok d'" if "d' = fst (snd (login env now rd username password d))" for rd now username password
  proof -
    have "accounts_ok (update_user now uid (u_last_login_at_update (\<lambda>_. Some now)) d)" for uid
      by (rule accounts_update [OF ok]) simp_all
    then show ?thesis using that ok
      by (auto simp: login_def issue_auth_tokens_def Let_def split: option.splits prod.splits intro!: accounts_add)
  qed
  show "accounts_ok d'" if "d' = fst (snd (refresh env now rd token d r))" for rd now token r
    using that ok
    by (auto simp: refresh_def Let_def split: prod.splits option.splits sum.splits
        dest!: accounts_claim intro!: accounts_add)
  show "accounts_ok d'" if "d' = fst (snd (logout env now auth token d r))" for now auth token r
    using that ok by (auto simp: logout_def Let_def split: sum.splits option.splits)
  show "accounts_ok d'" if "d' = fst (snd (forgot_password env now rd email d))" for now rd email
    using that ok accounts_next [of "d\<lparr>reset_tokens := ts\<rparr>" for ts]
    by (auto simp: forgot_password_def Let_def split: option.splits prod.splits)
  show "accounts_ok d'" if "d' = fst (snd (reset_password env now rd token new_password d r))" for now rd token new_password r
  proof -
    have "accounts_ok (update_user now uid (u_password_hash_update (\<lambda>_. x)) d)" for uid x
      by (rule accounts_update [OF ok]) simp_all
    then show ?thesis using that ok
      by (auto simp: reset_password_def Let_def split: sum.splits option.splits)
  qed
  show "accounts_ok d'" if "d' = snd (update_profile now cur username email' prefs d)" for now cur username email' prefs
    using that ok profile_accounts [OF ok, of now "u_id cur" username email' prefs]
    by (auto simp: update_profile_def Let_def split: option.splits)
  show "accounts_ok d'" if "d' = fst (snd (change_password env now rd auth cur old new_password d r))"
    for now rd auth cur old new_password r
  proof -
    have "accounts_ok (update_user now uid (u_password_hash_update (\<lambda>_. x)) d)" for uid x
      by (rule accounts_update [OF ok]) simp_all
    then show ?thesis using that ok
      by (auto simp: change_password_def Let_def split: option.splits)
  qed
  show "accounts_ok d'" if "d' = fst (snd (delete_profile now cur d r))" for now cur r
  proof -
    have "accounts_ok (update_user now uid (u_is_active_update (\<lambda>_. False)) d)" for uid
      by (rule accounts_update [OF ok]) simp_all
    then show ?thesis using that ok by (auto simp: delete_profile_def split: option.splits)
  qed
  show "accounts_ok d'" if "d' = fst (snd (ensure_hardcoded_admin env now rd cfg d r))" for now rd cfg r
  proof -
    have "accounts_ok (update_user now uid (\<lambda>u. u\<lparr>u_role := ''admin'', u_is_active := True\<rparr>) d)" for uid
      by (rule accounts_update [OF ok]) simp_all
    then show ?thesis using that ok
      by (auto simp: ensure_hardcoded_admin_def Let_def split: option.splits sum.splits prod.splits if_splits dest!: accounts_inserted)
  qed
  show "accounts_ok d'" if "d' = snd (refresh_token_cleanup now d)" for now
    using that ok by (auto simp: refresh_token_cleanup_def Let_def)
  show "accounts_ok d'" if "d' = snd (password_reset_token_cleanup now d)" for now
    using that ok by (auto simp: password_reset_token_cleanup_def)
qed



end
