(* ===== verification/Mqtt_Messages.thy ===== *)
theory Mqtt_Messages imports Models begin

text \<open>
  The messages of the device protocol: topics (\<open>src/mqtt/client.py\<close>, \<open>src/mqtt/config.py\<close>), payload
  validation (\<open>src/mqtt/validator.py\<close>), the configuration push and the client registry
  (\<open>src/mqtt/registry.py\<close>).  What pydantic does with one value is a parameter: \<open>pd_float\<close> reads a
  numeric string, \<open>pd_datetime\<close> and \<open>pd_bool\<close> any value, \<open>pd_iso\<close> prints a datetime.
\<close>

section \<open>Node ids and topics\<close>

definition is_alpha :: "char \<Rightarrow> bool" where
  "is_alpha c = ((65 \<le> code c \<and> code c \<le> 90) \<or> (97 \<le> code c \<and> code c \<le> 122))"

definition is_id_char :: "char \<Rightarrow> bool" where
  "is_id_char c = (is_alpha c \<or> is_digit c \<or> c = CHR ''_'' \<or> c = CHR ''-'')"

text \<open>\<open>_NODE_ID_RE\<close>.\<close>

definition node_id_ok :: "string \<Rightarrow> bool" where
  "node_id_ok s = (1 \<le> length s \<and> length s \<le> 50 \<and> list_all is_id_char s)"

definition config_topic :: "string \<Rightarrow> py_error + string" where
  "config_topic node_id =
     (if node_id_ok node_id then Inr (''air/node/'' @ node_id @ ''/config'') else Inl ValueError)"

text \<open>\<open>_TOPIC_RE\<close>: the node id and the kind.\<close>

definition match_topic :: "string \<Rightarrow> (string \<times> string) option" where
  "match_topic topic =
     (case split_on (CHR ''/'') topic of
        [a, b, node_id, kind] \<Rightarrow>
          (if a = ''air'' \<and> b = ''node'' \<and> node_id \<noteq> [] \<and> kind \<in> {''reading'', ''status''}
           then Some (node_id, kind) else None)
      | _ \<Rightarrow> None)"

definition READING_TOPIC :: string where "READING_TOPIC = ''air/node/+/reading''"
definition STATUS_TOPIC :: string where "STATUS_TOPIC = ''air/node/+/status''"
definition ALERTS_TOPIC :: string where "ALERTS_TOPIC = ''air/alerts''"

section \<open>Configuration push\<close>

text \<open>
  A publish is its topic and document; \<open>rc\<close> is what the client answers.  The result is the
  exception, or whether the broker took it (a failure is only logged).
\<close>

type_synonym push = "string \<times> (string \<times> json) list"

definition publish_config :: "int \<Rightarrow> string \<Rightarrow> int \<Rightarrow> bool \<Rightarrow> bool \<Rightarrow> py_error + push" where
  "publish_config rc node_id interval_s fuzzy_enabled enabled =
     ebind (config_topic node_id) (\<lambda>topic.
       if \<not> (1 \<le> interval_s \<and> interval_s \<le> 86400) then Inl ValueError
       else Inr (topic, [(''interval_s'', JInt interval_s), (''fuzzy_enabled'', JBool fuzzy_enabled),
                         (''enabled'', JBool enabled)]))"

text \<open>The registry: the running client, if any.\<close>

definition set_registered :: "'c option \<Rightarrow> 'c option \<Rightarrow> 'c option" where
  "set_registered client registry = client"

definition get_registered :: "'c option \<Rightarrow> 'c option" where
  "get_registered registry = registry"

section \<open>Validation\<close>

record pydantic =
  pd_float :: "string \<Rightarrow> pyfloat option"
  pd_datetime :: "json \<Rightarrow> datetime option"
  pd_bool :: "json \<Rightarrow> bool option"
  pd_iso :: "datetime \<Rightarrow> string"

record reading_payload =
  rp_node_id :: "string option"
  rp_time :: "datetime option"
  rp_fields :: "(string \<times> rat option) list"

text \<open>The float fields with their bounds \<open>ge\<close> and \<open>le\<close>, in the order of the class.\<close>

definition FLOAT_FIELDS :: "(string \<times> rat \<times> rat option) list" where
  "FLOAT_FIELDS = [(''temperature'', -40, Some 60), (''humidity'', 0, Some 100), (''pressure'', 300, Some 1250),
     (''voc_ohm'', 0, None), (''mq135_ppm'', 0, None), (''pm1'', 0, Some 2000), (''pm25'', 0, Some 2000),
     (''pm10'', 0, Some 2000), (''battery_v'', 0, Some 5)]"

definition in_bounds :: "rat \<Rightarrow> rat option \<Rightarrow> rat \<Rightarrow> bool" where
  "in_bounds lo hi x = (lo \<le> x \<and> (case hi of None \<Rightarrow> True | Some h \<Rightarrow> x \<le> h))"

text \<open>
  One float field: \<open>None\<close> is a validation error.  The before-validator refuses \<open>bool\<close>, the
  configuration refuses infinities and NaN.
\<close>

definition float_field :: "pydantic \<Rightarrow> rat \<Rightarrow> rat option \<Rightarrow> json \<Rightarrow> rat option option" where
  "float_field pd lo hi v =
     (case v of
        JNull \<Rightarrow> Some None
      | JBool b \<Rightarrow> None
      | _ \<Rightarrow>
          (case (case v of JInt i \<Rightarrow> Some (to_float (of_int i)) | JFloat x \<Rightarrow> Some x | JStr s \<Rightarrow> pd_float pd s | _ \<Rightarrow> None) of
             Some (Fin x) \<Rightarrow> (if in_bounds lo hi x then Some (Some x) else None)
           | _ \<Rightarrow> None))"

fun float_fields :: "pydantic \<Rightarrow> (string \<times> json) list \<Rightarrow> (string \<times> rat \<times> rat option) list \<Rightarrow> (string \<times> rat option) list option" where
  "float_fields pd data [] = Some []"
| "float_fields pd data ((k, lo, hi) # fs) =
     (case float_field pd lo hi (get data k) of
        None \<Rightarrow> None
      | Some x \<Rightarrow> map_option (\<lambda>xs. (k, x) # xs) (float_fields pd data fs))"

definition validate_reading :: "pydantic \<Rightarrow> (string \<times> json) list \<Rightarrow> reading_payload option" where
  "validate_reading pd data =
     (case (case get data ''node_id'' of JNull \<Rightarrow> Some None | JStr s \<Rightarrow> if node_id_ok s then Some (Some s) else None | _ \<Rightarrow> None) of
        None \<Rightarrow> None
      | Some nid \<Rightarrow>
          (case (if get data ''time'' = JNull then Some None else map_option Some (pd_datetime pd (get data ''time''))) of
             None \<Rightarrow> None
           | Some t \<Rightarrow>
               map_option (\<lambda>fs. \<lparr>rp_node_id = nid, rp_time = t, rp_fields = fs\<rparr>) (float_fields pd data FLOAT_FIELDS)))"

text \<open>\<open>model_dump(mode="json")\<close>.\<close>

definition dump_reading :: "pydantic \<Rightarrow> reading_payload \<Rightarrow> (string \<times> json) list" where
  "dump_reading pd p =
     (''node_id'', jstr (rp_node_id p)) # (''time'', jstr (map_option (pd_iso pd) (rp_time p))) #
       map (\<lambda>(k, x). (k, jnum x)) (rp_fields p)"

text \<open>
  \<open>StatusPayload\<close>: the \<open>online\<close> flag, when all three fields are valid.  Its battery level accepts
  what the defaults of pydantic accept: \<open>bool\<close> as 0 or 1, and NaN, which no bound excludes.
\<close>

definition status_float_ok :: "pydantic \<Rightarrow> json \<Rightarrow> bool" where
  "status_float_ok pd v =
     (case (case v of JNull \<Rightarrow> Some (Fin 0) | JBool b \<Rightarrow> Some (Fin (if b then 1 else 0)) | JInt i \<Rightarrow> Some (to_float (of_int i))
              | JFloat x \<Rightarrow> Some x | JStr s \<Rightarrow> pd_float pd s | _ \<Rightarrow> None) of
        Some (Fin x) \<Rightarrow> 0 \<le> x \<and> x \<le> 5
      | Some NaN \<Rightarrow> True
      | _ \<Rightarrow> False)"

definition validate_status :: "pydantic \<Rightarrow> (string \<times> json) list \<Rightarrow> bool option" where
  "validate_status pd data =
     (let online = (if map_of data ''online'' = None then None else pd_bool pd (get data ''online''));
          firmware_ok = (case get data ''firmware'' of JNull \<Rightarrow> True | JStr s \<Rightarrow> length s \<le> 64 | _ \<Rightarrow> False)
      in if status_float_ok pd (get data ''battery_v'') \<and> firmware_ok then online else None)"

section \<open>What validation guarantees\<close>

lemma float_field_range: "float_field pd lo hi v = Some (Some x) \<Longrightarrow> in_bounds lo hi x"
  by (auto simp: float_field_def split: json.splits option.splits pyfloat.splits if_splits)

lemma float_fields_range:
  "float_fields pd data fs = Some xs \<Longrightarrow>
   map fst xs = map fst fs \<and> (\<forall>k x. (k, Some x) \<in> set xs \<longrightarrow> (\<exists>lo hi. (k, lo, hi) \<in> set fs \<and> in_bounds lo hi x))"
proof (induction pd data fs arbitrary: xs rule: float_fields.induct)
  case (2 pd data k lo hi fs)
  then obtain x ys where x: "float_field pd lo hi (get data k) = Some x" "float_fields pd data fs = Some ys" "xs = (k, x) # ys"
    by (auto split: option.splits)
  moreover have "in_bounds lo hi y" if "x = Some y" for y using float_field_range x(1) that by blast
  moreover have "map fst ys = map fst fs" "\<forall>k x. (k, Some x) \<in> set ys \<longrightarrow> (\<exists>lo hi. (k, lo, hi) \<in> set fs \<and> in_bounds lo hi x)"
    using "2.IH" [OF x(1,2)] by blast+
  ultimately show ?case by fastforce
qed simp

lemma validate_reading_fields:
  "validate_reading pd data = Some p \<Longrightarrow> float_fields pd data FLOAT_FIELDS = Some (rp_fields p)"
  by (auto simp: validate_reading_def split: option.splits)

lemma validate_reading_id:
  "validate_reading pd data = Some p \<Longrightarrow> get data ''node_id'' = jstr (rp_node_id p)"
  by (auto simp: validate_reading_def jstr_def split: option.splits json.splits if_splits)

lemma validate_reading_id_ok:
  "validate_reading pd data = Some p \<Longrightarrow> rp_node_id p = Some s \<Longrightarrow> node_id_ok s"
  by (auto simp: validate_reading_def split: option.splits json.splits if_splits)

text \<open>Matched topics are built from their parts, and a valid id has no separator or wildcard.\<close>

lemma match_topic_Some:
  "match_topic topic = Some (n, k) \<Longrightarrow> topic = ''air/node/'' @ n @ ''/'' @ k \<and> n \<noteq> [] \<and> k \<in> {''reading'', ''status''}"
proof -
  assume m: "match_topic topic = Some (n, k)"
  then have "split_on (CHR ''/'') topic = [''air'', ''node'', n, k]" "n \<noteq> []" "k \<in> {''reading'', ''status''}"
    by (auto simp: match_topic_def split: list.splits if_splits)
  then show ?thesis using join_split [of "CHR ''/''" topic] by simp
qed

lemma id_char_safe: "is_id_char c \<Longrightarrow> c \<noteq> CHR ''/'' \<and> c \<noteq> CHR ''+'' \<and> c \<noteq> CHR ''#''"
  by (auto simp: is_id_char_def is_alpha_def is_digit_def code_def)

lemma split_on_append:
  "sep \<notin> set w \<Longrightarrow> split_on sep (w @ sep # s) = w # split_on sep s"
  by (induction w) auto

lemma split_on_none: "sep \<notin> set w \<Longrightarrow> split_on sep w = [w]"
  by (induction w) auto

end
