(* ===== verification/Schemas.thy ===== *)
theory Schemas imports Mqtt_Messages begin

text \<open>
  \<open>src/api/schemas.py\<close>: the request bodies as functions from the JSON object to the validated model
  (\<open>None\<close> is a validation error).  What pydantic's types do with one value is a parameter: the
  e-mail and URL checks and the reading of numbers and flags.  Strings are UTF-8 bytes, so a
  length in characters counts the bytes that start one.
\<close>

record schema_env =
  sc_email :: "string \<Rightarrow> string option"
  sc_url :: "json \<Rightarrow> bool"
  sc_int :: "json \<Rightarrow> int option"
  sc_float :: "json \<Rightarrow> pyfloat option"
  sc_bool :: "json \<Rightarrow> bool option"
  sc_password_max_bytes :: int

type_synonym body = "(string \<times> json) list"

section \<open>Fields\<close>

definition MAX_PASSWORD_LEN :: nat where "MAX_PASSWORD_LEN = 72"

definition char_len :: "string \<Rightarrow> nat" where
  "char_len s = length (filter (\<lambda>c. \<not> (128 \<le> code c \<and> code c < 192)) s)"

definition str_field :: "nat \<Rightarrow> nat \<Rightarrow> json \<Rightarrow> string option" where
  "str_field lo hi v = (case v of JStr s \<Rightarrow> if lo \<le> char_len s \<and> char_len s \<le> hi then Some s else None | _ \<Rightarrow> None)"

definition int_field :: "schema_env \<Rightarrow> int \<Rightarrow> int \<Rightarrow> json \<Rightarrow> int option" where
  "int_field env lo hi v = (case sc_int env v of None \<Rightarrow> None | Some i \<Rightarrow> if lo \<le> i \<and> i \<le> hi then Some i else None)"

text \<open>A bounded float refuses what lies below or above the bounds; NaN does neither.\<close>

definition float_ok :: "rat \<Rightarrow> rat \<Rightarrow> pyfloat \<Rightarrow> bool" where
  "float_ok lo hi x = (\<not> x < Fin lo \<and> \<not> Fin hi < x)"

definition bounded_float :: "schema_env \<Rightarrow> rat \<Rightarrow> rat \<Rightarrow> json \<Rightarrow> pyfloat option" where
  "bounded_float env lo hi v = (case sc_float env v of None \<Rightarrow> None | Some x \<Rightarrow> if float_ok lo hi x then Some x else None)"

text \<open>\<open>T | None = None\<close>\<close>

definition opt_field :: "(json \<Rightarrow> 'a option) \<Rightarrow> json \<Rightarrow> 'a option option" where
  "opt_field f v = (if v = JNull then Some None else map_option Some (f v))"

section \<open>Usernames and passwords\<close>

definition is_user_char :: "char \<Rightarrow> bool" where "is_user_char c = (is_alpha c \<or> is_digit c \<or> c = CHR ''_'')"

text \<open>\<open>_USERNAME_RE.fullmatch\<close>\<close>

definition username_re :: "string \<Rightarrow> bool" where "username_re s = (s \<noteq> [] \<and> list_all is_user_char s)"

definition normalise_username :: "json \<Rightarrow> py_error + json" where
  "normalise_username v =
     (case v of
        JStr s \<Rightarrow> (let s' = strip s in if username_re s' then Inr (JStr s') else Inl ValueError)
      | _ \<Rightarrow> Inr v)"

definition validate_password_bytes :: "schema_env \<Rightarrow> string \<Rightarrow> py_error + string" where
  "validate_password_bytes env v = (if sc_password_max_bytes env < int (length v) then Inl ValueError else Inr v)"

definition password_field :: "schema_env \<Rightarrow> nat \<Rightarrow> nat \<Rightarrow> json \<Rightarrow> string option" where
  "password_field env lo hi v =
     (case str_field lo hi v of
        None \<Rightarrow> None
      | Some s \<Rightarrow> (case validate_password_bytes env s of Inl e \<Rightarrow> None | Inr s' \<Rightarrow> Some s'))"

definition email_field :: "schema_env \<Rightarrow> json \<Rightarrow> string option" where
  "email_field env v =
     (case v of
        JStr s \<Rightarrow> (case sc_email env s of None \<Rightarrow> None | Some e \<Rightarrow> if char_len e \<le> 255 then Some (lower e) else None)
      | _ \<Rightarrow> None)"

definition username_field :: "json \<Rightarrow> string option" where
  "username_field v = (case normalise_username v of Inl e \<Rightarrow> None | Inr v' \<Rightarrow> str_field 3 50 v')"

section \<open>Request bodies\<close>

record register_request =
  rr_username :: string
  rr_email :: string
  rr_password :: string

definition register_request_of :: "schema_env \<Rightarrow> body \<Rightarrow> register_request option" where
  "register_request_of env b =
     (case (username_field (get b ''username''), email_field env (get b ''email''), password_field env 6 MAX_PASSWORD_LEN (get b ''password'')) of
        (Some u, Some e, Some p) \<Rightarrow> Some \<lparr>rr_username = u, rr_email = e, rr_password = p\<rparr>
      | _ \<Rightarrow> None)"

definition login_request_of :: "schema_env \<Rightarrow> body \<Rightarrow> (string \<times> string) option" where
  "login_request_of env b =
     (case (str_field 1 50 (get b ''username''), password_field env 1 MAX_PASSWORD_LEN (get b ''password'')) of
        (Some u, Some p) \<Rightarrow> Some (u, p) | _ \<Rightarrow> None)"

definition refresh_request_of :: "body \<Rightarrow> string option" where
  "refresh_request_of b = str_field 1 256 (get b ''refresh_token'')"

definition forgot_password_request_of :: "schema_env \<Rightarrow> body \<Rightarrow> string option" where
  "forgot_password_request_of env b = email_field env (get b ''email'')"

definition reset_password_request_of :: "schema_env \<Rightarrow> body \<Rightarrow> (string \<times> string) option" where
  "reset_password_request_of env b =
     (case (str_field 8 512 (get b ''token''), password_field env 6 MAX_PASSWORD_LEN (get b ''new_password'')) of
        (Some t, Some p) \<Rightarrow> Some (t, p) | _ \<Rightarrow> None)"

text \<open>A body value has no upper length for the current password but its bytes.\<close>

definition change_password_request_of :: "schema_env \<Rightarrow> body \<Rightarrow> (string \<times> string) option" where
  "change_password_request_of env b =
     (case (get b ''current_password'', password_field env 6 MAX_PASSWORD_LEN (get b ''new_password'')) of
        (JStr c, Some p) \<Rightarrow>
          (if char_len c = 0 then None
           else case validate_password_bytes env c of Inl e \<Rightarrow> None | Inr c' \<Rightarrow> Some (c', p))
      | _ \<Rightarrow> None)"

definition webhook_ok :: "schema_env \<Rightarrow> json \<Rightarrow> bool" where
  "webhook_ok env v =
     (case v of JObj w \<Rightarrow> sc_url env (get w ''url'') \<and> opt_field (str_field 0 100) (get w ''label'') \<noteq> None | _ \<Rightarrow> False)"

definition notification_prefs_ok :: "schema_env \<Rightarrow> body \<Rightarrow> bool" where
  "notification_prefs_ok env p =
     (opt_field (int_field env 0 96) (get p ''msgs_per_hr'') \<noteq> None \<and>
      opt_field (int_field env 0 96) (get p ''alert_email_threshold'') \<noteq> None \<and>
      (case get p ''webhooks'' of JNull \<Rightarrow> True | JList ws \<Rightarrow> length ws \<le> 50 \<and> list_all (webhook_ok env) ws | _ \<Rightarrow> False))"

record update_profile_request =
  up_username :: "string option"
  up_email :: "string option"
  up_notification_prefs :: "body option"

definition update_profile_request_of :: "schema_env \<Rightarrow> body \<Rightarrow> update_profile_request option" where
  "update_profile_request_of env b =
     (case (opt_field username_field (get b ''username''), opt_field (email_field env) (get b ''email''),
            opt_field (\<lambda>v. case v of JObj p \<Rightarrow> if notification_prefs_ok env p then Some p else None | _ \<Rightarrow> None)
              (get b ''notification_prefs'')) of
        (Some u, Some e, Some p) \<Rightarrow> Some \<lparr>up_username = u, up_email = e, up_notification_prefs = p\<rparr>
      | _ \<Rightarrow> None)"

record register_node_request =
  rn_node_id :: string
  rn_name :: "string option"
  rn_location_name :: "string option"
  rn_lat :: "pyfloat option"
  rn_lon :: "pyfloat option"
  rn_firmware_version :: "string option"
  rn_reading_interval :: int

definition node_id_safe :: "string \<Rightarrow> py_error + string" where
  "node_id_safe v = (if node_id_ok v then Inr v else Inl ValueError)"

definition register_node_request_of :: "schema_env \<Rightarrow> body \<Rightarrow> register_node_request option" where
  "register_node_request_of env b =
     (case (str_field 1 50 (get b ''node_id''), opt_field (str_field 0 100) (get b ''name''),
            opt_field (str_field 0 200) (get b ''location_name''), opt_field (bounded_float env (- 90) 90) (get b ''lat''),
            opt_field (bounded_float env (- 180) 180) (get b ''lon''), opt_field (str_field 0 50) (get b ''firmware_version''),
            (case map_of b ''reading_interval'' of None \<Rightarrow> Some 30 | Some v \<Rightarrow> int_field env 1 86400 v)) of
        (Some nid, Some name, Some loc, Some lat, Some lon, Some fw, Some interval) \<Rightarrow>
          (case node_id_safe nid of
             Inl e \<Rightarrow> None
           | Inr nid' \<Rightarrow> Some \<lparr>rn_node_id = nid', rn_name = name, rn_location_name = loc, rn_lat = lat, rn_lon = lon,
               rn_firmware_version = fw, rn_reading_interval = interval\<rparr>)
      | _ \<Rightarrow> None)"

record update_node_request =
  un_name :: "string option"
  un_location_name :: "string option"
  un_lat :: "pyfloat option"
  un_lon :: "pyfloat option"
  un_firmware_version :: "string option"
  un_reading_interval :: "int option"
  un_is_active :: "bool option"

definition update_node_request_of :: "schema_env \<Rightarrow> body \<Rightarrow> update_node_request option" where
  "update_node_request_of env b =
     (case (opt_field (str_field 0 100) (get b ''name''), opt_field (str_field 0 200) (get b ''location_name''),
            opt_field (bounded_float env (- 90) 90) (get b ''lat''), opt_field (bounded_float env (- 180) 180) (get b ''lon''),
            opt_field (str_field 0 50) (get b ''firmware_version''), opt_field (int_field env 1 86400) (get b ''reading_interval''),
            opt_field (sc_bool env) (get b ''is_active'')) of
        (Some name, Some loc, Some lat, Some lon, Some fw, Some interval, Some active) \<Rightarrow>
          Some \<lparr>un_name = name, un_location_name = loc, un_lat = lat, un_lon = lon, un_firmware_version = fw,
            un_reading_interval = interval, un_is_active = active\<rparr>
      | _ \<Rightarrow> None)"

text \<open>
  A settings patch keeps the fields that were given, a given null included: each is
  \<open>None\<close> (absent) or what was given.
\<close>

datatype setting_value = SInt int | SBool bool | SText string

type_synonym settings_patch = "(string \<times> setting_value option) list"

definition SETTING_KEYS :: "string list" where
  "SETTING_KEYS = [''aqi_warning_threshold'', ''aqi_critical_threshold'', ''data_retention_days'', ''alerts_enabled'', ''alert_email'']"

definition setting_field :: "schema_env \<Rightarrow> string \<Rightarrow> json \<Rightarrow> setting_value option option" where
  "setting_field env key v =
     opt_field (\<lambda>v.
       if key \<in> {''aqi_warning_threshold'', ''aqi_critical_threshold''} then map_option SInt (int_field env 0 500 v)
       else if key = ''data_retention_days'' then map_option SInt (int_field env 1 3650 v)
       else if key = ''alerts_enabled'' then map_option SBool (sc_bool env v)
       else (case v of JStr s \<Rightarrow> (case sc_email env s of None \<Rightarrow> None | Some e \<Rightarrow> if char_len e \<le> 255 then Some (SText e) else None)
             | _ \<Rightarrow> None)) v"

fun setting_fields :: "schema_env \<Rightarrow> body \<Rightarrow> string list \<Rightarrow> settings_patch option" where
  "setting_fields env b [] = Some []"
| "setting_fields env b (k # ks) =
     (case map_of b k of
        None \<Rightarrow> setting_fields env b ks
      | Some v \<Rightarrow>
          (case setting_field env k v of
             None \<Rightarrow> None
           | Some x \<Rightarrow> map_option ((#) (k, x)) (setting_fields env b ks)))"

text \<open>\<open>_thresholds_ordered\<close>\<close>

definition thresholds_ordered :: "settings_patch \<Rightarrow> bool" where
  "thresholds_ordered p =
     (case (map_of p ''aqi_warning_threshold'', map_of p ''aqi_critical_threshold'') of
        (Some (Some (SInt w)), Some (Some (SInt c))) \<Rightarrow> \<not> c \<le> w
      | _ \<Rightarrow> True)"

definition admin_settings_update_of :: "schema_env \<Rightarrow> body \<Rightarrow> settings_patch option" where
  "admin_settings_update_of env b =
     (if \<not> set (map fst b) \<subseteq> set SETTING_KEYS then None
      else case setting_fields env b SETTING_KEYS of
        None \<Rightarrow> None
      | Some p \<Rightarrow> if thresholds_ordered p then Some p else None)"

section \<open>What an accepted body guarantees\<close>

lemma str_field_Some: "str_field lo hi v = Some s \<longleftrightarrow> v = JStr s \<and> lo \<le> char_len s \<and> char_len s \<le> hi"
  by (auto simp: str_field_def split: json.splits)

lemma int_field_Some: "int_field env lo hi v = Some i \<longleftrightarrow> sc_int env v = Some i \<and> lo \<le> i \<and> i \<le> hi"
  by (auto simp: int_field_def split: option.splits)

lemma opt_field_Some: "opt_field f v = Some (Some x) \<longleftrightarrow> v \<noteq> JNull \<and> f v = Some x"
  by (auto simp: opt_field_def)

lemma username_field_Some:
  "username_field v = Some u \<longleftrightarrow> (\<exists>s. v = JStr s \<and> u = strip s \<and> username_re u \<and> 3 \<le> char_len u \<and> char_len u \<le> 50)"
  by (auto simp: username_field_def normalise_username_def Let_def str_field_Some split: json.splits)

lemma password_field_Some:
  "password_field env lo hi v = Some p \<longleftrightarrow>
     v = JStr p \<and> lo \<le> char_len p \<and> char_len p \<le> hi \<and> int (length p) \<le> sc_password_max_bytes env"
  by (auto simp: password_field_def validate_password_bytes_def str_field_Some str_field_def split: option.splits if_splits json.splits)

lemma email_field_Some:
  "email_field env v = Some e \<longleftrightarrow> (\<exists>s e0. v = JStr s \<and> sc_email env s = Some e0 \<and> char_len e0 \<le> 255 \<and> e = lower e0)"
  by (auto simp: email_field_def split: json.splits option.splits)

lemma lower_char_lower: "lower_char (lower_char c) = lower_char c"
proof -
  have "code (char_of (code c + 32)) = code c + 32" if "65 \<le> code c" "code c \<le> 90"
  proof -
    let ?n = "of_char c + 32 :: nat"
    have "char_of (code c + 32) = char_of ?n" using char_of_nat [of ?n, where 'a = int] by (simp add: code_def)
    then show ?thesis using that by (simp add: code_def)
  qed
  then show ?thesis by (auto simp: lower_char_def)
qed

lemma lower_lower [simp]: "lower (lower s) = lower s"
  by (simp add: lower_def lower_char_lower)

text \<open>User characters are one byte each, so the two lengths agree on usernames.\<close>

lemma user_char_len: "list_all is_user_char s \<Longrightarrow> char_len s = length s"
  unfolding char_len_def
  by (induction s) (auto simp: is_user_char_def is_alpha_def is_digit_def code_def)

section \<open>Properties\<close>

text \<open>
  An accepted registration is canonical: the username is 3 to 50 letters, digits and underscores with
  no padding left, the e-mail is in lower case, and the password has at least 6 characters and no
  byte that bcrypt would ignore.
\<close>

theorem register_request_canonical:
  assumes "register_request_of env b = Some rq" "sc_password_max_bytes env \<le> 72"
  shows "list_all is_user_char (rr_username rq) \<and> 3 \<le> length (rr_username rq) \<and> length (rr_username rq) \<le> 50 \<and>
    lower (rr_email rq) = rr_email rq \<and> 6 \<le> char_len (rr_password rq) \<and> length (rr_password rq) \<le> 72"
proof -
  from assms(1) obtain u e p where f: "username_field (get b ''username'') = Some u" "email_field env (get b ''email'') = Some e"
    "password_field env 6 MAX_PASSWORD_LEN (get b ''password'') = Some p" "rq = \<lparr>rr_username = u, rr_email = e, rr_password = p\<rparr>"
    by (auto simp: register_request_of_def split: option.splits)
  have u: "list_all is_user_char u" "3 \<le> char_len u" "char_len u \<le> 50"
    using f(1) by (auto simp: username_field_Some username_re_def)
  have "lower e = e" using f(2) by (auto simp: email_field_Some)
  moreover have "6 \<le> char_len p" "length p \<le> 72" using f(3) assms(2) by (auto simp: password_field_Some)
  ultimately show ?thesis using u user_char_len [OF u(1)] f(4) by simp
qed

definition demo_schema_env :: schema_env where
  "demo_schema_env = \<lparr>sc_email = Some, sc_url = (\<lambda>_. True), sc_int = (\<lambda>v. case v of JInt i \<Rightarrow> Some i | _ \<Rightarrow> None),
     sc_float = (\<lambda>v. case v of JFloat x \<Rightarrow> Some x | JInt i \<Rightarrow> Some (Fin (of_int i)) | _ \<Rightarrow> None),
     sc_bool = (\<lambda>v. case v of JBool x \<Rightarrow> Some x | _ \<Rightarrow> None), sc_password_max_bytes = 72\<rparr>"

definition demo_registration :: body where
  "demo_registration = [(''username'', JStr ''  Ada_1 ''), (''email'', JStr ''Ada@Example.ORG''), (''password'', JStr ''secret!'')]"

theorem register_request_canonical_witness:
  "\<exists>rq. register_request_of demo_schema_env demo_registration = Some rq \<and> rr_username rq = ''Ada_1'' \<and>
     rr_email rq = ''ada@example.org'' \<and> list_all is_user_char (rr_username rq) \<and> lower (rr_email rq) = rr_email rq"
proof -
  let ?rq = "\<lparr>rr_username = ''Ada_1'', rr_email = ''ada@example.org'', rr_password = ''secret!''\<rparr>"
  have rq: "register_request_of demo_schema_env demo_registration = Some ?rq" by code_simp
  have "sc_password_max_bytes demo_schema_env \<le> 72" by (simp add: demo_schema_env_def)
  from register_request_canonical [OF rq this] rq show ?thesis by (intro exI [of _ ?rq]) simp
qed

lemma node_id_topic:
  assumes "node_id_ok n" "k \<in> {''reading'', ''status''}"
  shows "match_topic (''air/node/'' @ n @ ''/'' @ k) = Some (n, k)"
proof -
  have n: "CHR ''/'' \<notin> set n" "n \<noteq> []" using assms(1) id_char_safe by (auto simp: node_id_ok_def list_all_iff)
  have "split_on (CHR ''/'') (''air'' @ CHR ''/'' # ''node'' @ CHR ''/'' # n @ CHR ''/'' # k) = [''air'', ''node'', n, k]"
    using n assms(2) by (auto simp: split_on_append split_on_none simp del: append.simps)
  then show ?thesis using n assms(2) by (auto simp: match_topic_def)
qed

text \<open>
  C29: Every node that can be registered can be talked to: its id builds a configuration topic, a reading
  published under it is routed back to it and to no other node, and its interval is one the
  configuration push accepts.
\<close>

theorem registered_node_reachable:
  assumes "register_node_request_of env b = Some rq"
  shows "config_topic (rn_node_id rq) = Inr (''air/node/'' @ rn_node_id rq @ ''/config'') \<and>
    match_topic (''air/node/'' @ rn_node_id rq @ ''/reading'') = Some (rn_node_id rq, ''reading'') \<and>
    (\<exists>push. publish_config rc (rn_node_id rq) (rn_reading_interval rq) fuzzy enabled = Inr push)"
proof -
  have id: "node_id_ok (rn_node_id rq)"
    using assms by (auto simp: register_node_request_of_def node_id_safe_def split: option.splits if_splits sum.splits)
  have "1 \<le> rn_reading_interval rq \<and> rn_reading_interval rq \<le> 86400"
    using assms by (auto simp: register_node_request_of_def node_id_safe_def int_field_Some split: option.splits if_splits sum.splits)
  then show ?thesis using id node_id_topic [OF id, of "''reading''"] by (simp add: config_topic_def publish_config_def)
qed

definition demo_node_body :: body where
  "demo_node_body = [(''node_id'', JStr ''esp-01''), (''lat'', JInt 12), (''reading_interval'', JInt 60)]"

theorem registered_node_reachable_witness:
  "\<exists>rq. register_node_request_of demo_schema_env demo_node_body = Some rq \<and>
     match_topic (''air/node/'' @ rn_node_id rq @ ''/reading'') = Some (rn_node_id rq, ''reading'') \<and> rn_reading_interval rq = 60"
proof -
  let ?rq = "\<lparr>rn_node_id = ''esp-01'', rn_name = None, rn_location_name = None, rn_lat = Some (Fin 12), rn_lon = None,
      rn_firmware_version = None, rn_reading_interval = 60\<rparr>"
  have rq: "register_node_request_of demo_schema_env demo_node_body = Some ?rq" by code_simp
  from registered_node_reachable [OF rq] rq show ?thesis by (intro exI [of _ ?rq]) simp
qed

text \<open>
  The coordinate bounds refuse the infinities but not NaN: with the defaults of the schema a body whose
  latitude is NaN is accepted.
\<close>

lemma coordinate_nan:
  "sc_float env (JFloat NaN) = Some NaN \<Longrightarrow> opt_field (bounded_float env (- 90) 90) (JFloat NaN) = Some (Some NaN)"
  by (simp add: opt_field_def bounded_float_def float_ok_def)

lemma coordinate_finite_range: "bounded_float env lo hi v = Some (Fin r) \<Longrightarrow> lo \<le> r \<and> r \<le> hi"
  by (auto simp: bounded_float_def float_ok_def not_less split: option.splits if_splits)

text \<open>An accepted settings patch names known keys only, once each, with every number in its range.\<close>

definition setting_in_range :: "string \<Rightarrow> setting_value option \<Rightarrow> bool" where
  "setting_in_range k v =
     (case v of
        Some (SInt i) \<Rightarrow>
          (k \<in> {''aqi_warning_threshold'', ''aqi_critical_threshold''} \<and> 0 \<le> i \<and> i \<le> 500) \<or>
          (k = ''data_retention_days'' \<and> 1 \<le> i \<and> i \<le> 3650)
      | Some (SBool x) \<Rightarrow> k = ''alerts_enabled''
      | Some (SText s) \<Rightarrow> k = ''alert_email'' \<and> char_len s \<le> 255
      | None \<Rightarrow> True)"

lemma setting_field_range: "setting_field env k v = Some x \<Longrightarrow> k \<in> set SETTING_KEYS \<Longrightarrow> setting_in_range k x"
  by (auto simp: setting_field_def setting_in_range_def opt_field_def int_field_Some SETTING_KEYS_def
      split: if_splits json.splits option.splits)

lemma setting_fields_range:
  "setting_fields env b ks = Some p \<Longrightarrow> set ks \<subseteq> set SETTING_KEYS \<Longrightarrow> distinct ks \<Longrightarrow>
   distinct (map fst p) \<and> set (map fst p) \<subseteq> set ks \<and> list_all (\<lambda>(k, x). setting_in_range k x) p"
proof (induction ks arbitrary: p)
  case (Cons k ks)
  show ?case
  proof (cases "map_of b k")
    case None
    then show ?thesis using Cons by auto
  next
    case (Some v)
    then obtain x q where x: "setting_field env k v = Some x" "setting_fields env b ks = Some q" "p = (k, x) # q"
      using Cons.prems(1) by (auto split: option.splits)
    then show ?thesis using Cons.IH [OF x(2)] Cons.prems(2,3) setting_field_range [OF x(1)] by auto
  qed
qed simp

lemma admin_settings_update_range:
  assumes "admin_settings_update_of env b = Some p"
  shows "distinct (map fst p) \<and> set (map fst p) \<subseteq> set SETTING_KEYS \<and> list_all (\<lambda>(k, x). setting_in_range k x) p \<and> thresholds_ordered p"
proof -
  have "setting_fields env b SETTING_KEYS = Some p" "thresholds_ordered p"
    using assms by (auto simp only: admin_settings_update_of_def split: if_splits option.splits)
  moreover have "distinct SETTING_KEYS" by (simp add: SETTING_KEYS_def)
  ultimately show ?thesis using setting_fields_range by blast
qed

end
