(* ===== verification/Operator_Scripts.thy ===== *)
theory Operator_Scripts imports Sessions Schemas Config "HOL-Library.Sublist" begin

text \<open>
  \<open>src/scripts/create_admin.py\<close> and \<open>src/scripts/seed.py\<close>: the console programs that write to the
  database.  What the operator types is a list of answers, one per prompt; running out of answers is
  the end of the input.  \<open>sys.exit\<close>, the end of the input and exceptions are values of \<open>stop\<close>.
\<close>

section \<open>Prompts\<close>

datatype stop = Exits int | EndOfInput | Raises py_error

definition ERR_EXIT :: int where "ERR_EXIT = 3"
definition MIN_USERNAME_LEN :: nat where "MIN_USERNAME_LEN = 3"
definition MAX_USERNAME_LEN :: nat where "MAX_USERNAME_LEN = 50"
definition MAX_PASSWORD_BYTES :: nat where "MAX_PASSWORD_BYTES = 72"
definition MIN_PASSWORD_LEN :: nat where "MIN_PASSWORD_LEN = 8"

text \<open>
  The e-mail check of pydantic, bcrypt, and the Unicode classes of the characters beyond ASCII are
  parameters.
\<close>

record console =
  con_email :: "string \<Rightarrow> string option"
  con_hash :: "string \<Rightarrow> string \<Rightarrow> string"
  con_upper :: "string \<Rightarrow> bool"
  con_lower :: "string \<Rightarrow> bool"
  con_digit :: "string \<Rightarrow> bool"

definition username_problems :: "string \<Rightarrow> string list" where
  "username_problems value =
     (let v = strip value in
      if \<not> (MIN_USERNAME_LEN \<le> char_len v \<and> char_len v \<le> MAX_USERNAME_LEN) then [''must be 3-50 characters'']
      else if \<not> username_re v then [''may contain only letters, digits, and underscores'']
      else [])"

fun ask_username :: "string list \<Rightarrow> stop + string \<times> string list" where
  "ask_username [] = Inl EndOfInput"
| "ask_username (v # vs) = (if username_problems v = [] then Inr (strip v, vs) else ask_username vs)"

definition prompt_username :: "string option \<Rightarrow> string list \<Rightarrow> stop + string \<times> string list" where
  "prompt_username cli answers =
     (case cli of
        None \<Rightarrow> ask_username answers
      | Some v \<Rightarrow> (if username_problems v \<noteq> [] then Inl (Exits ERR_EXIT) else Inr (strip v, answers)))"

fun ask_email :: "console \<Rightarrow> string list \<Rightarrow> stop + string \<times> string list" where
  "ask_email con [] = Inl EndOfInput"
| "ask_email con (v # vs) = (case con_email con (strip v) of Some e \<Rightarrow> Inr (lower e, vs) | None \<Rightarrow> ask_email con vs)"

definition prompt_email :: "console \<Rightarrow> string option \<Rightarrow> string list \<Rightarrow> stop + string \<times> string list" where
  "prompt_email con cli answers =
     (case cli of
        None \<Rightarrow> ask_email con answers
      | Some v \<Rightarrow> (case con_email con (strip v) of None \<Rightarrow> Inl (Exits ERR_EXIT) | Some e \<Rightarrow> Inr (lower e, answers)))"

text \<open>The classes of one character, given as its UTF-8 bytes.\<close>

definition char_within :: "int \<Rightarrow> int \<Rightarrow> (string \<Rightarrow> bool) \<Rightarrow> string \<Rightarrow> bool" where
  "char_within lo hi beyond c = (case c of [b] \<Rightarrow> lo \<le> code b \<and> code b \<le> hi | _ \<Rightarrow> beyond c)"

definition is_punctuation :: "string \<Rightarrow> bool" where
  "is_punctuation c = list_ex (\<lambda>(lo, hi). char_within lo hi (\<lambda>_. False) c) [(33, 47), (58, 64), (91, 96), (123, 126)]"

definition password_problems :: "console \<Rightarrow> string \<Rightarrow> string list" where
  "password_problems con value =
     (let cs = characters value; need = (\<lambda>ok msg. if ok then [] else [msg]) in
      need (MIN_PASSWORD_LEN \<le> char_len value) ''at least 8 characters'' @
      need (char_len value \<le> MAX_PASSWORD_LEN) ''at most 72 characters'' @
      need (length value \<le> MAX_PASSWORD_BYTES) ''at most 72 bytes in UTF-8 (bcrypt limit)'' @
      need (list_ex (char_within 65 90 (con_upper con)) cs) ''an uppercase letter'' @
      need (list_ex (char_within 97 122 (con_lower con)) cs) ''a lowercase letter'' @
      need (list_ex (char_within 48 57 (con_digit con)) cs) ''a digit'' @
      need (list_ex is_punctuation cs) ''a symbol'')"

text \<open>A weak password is asked for again, and so is one whose confirmation differs.\<close>

fun prompt_password :: "console \<Rightarrow> string list \<Rightarrow> stop + string" where
  "prompt_password con (p # c # rest) =
     (if password_problems con p \<noteq> [] then prompt_password con (c # rest)
      else if c \<noteq> p then prompt_password con rest
      else Inr p)"
| "prompt_password con _ = Inl EndOfInput"

section \<open>\<open>create_admin\<close>\<close>

definition ADMIN_PREFS :: "(string \<times> json) list" where "ADMIN_PREFS = [(''email_on_critical'', JBool True)]"

datatype report = CreatedAdmin | PasswordReset | AlreadyAdmin | Promoted

text \<open>An existing row: the role, the active flag and, when asked for, the password.\<close>

definition repair_admin :: "console \<Rightarrow> string list \<Rightarrow> bool \<Rightarrow> timestamp \<Rightarrow> string \<Rightarrow> user \<Rightarrow> db \<Rightarrow> (stop + report) \<times> db" where
  "repair_admin con hidden reset now salt u d =
     (let promote = (\<lambda>u. u\<lparr>u_role := ''admin'', u_is_active := True\<rparr>) in
      if reset then
        (case prompt_password con hidden of
           Inl s \<Rightarrow> (Inl s, d)
         | Inr p \<Rightarrow> (Inr PasswordReset,
             update_user now (u_id u) (\<lambda>u. (promote u)\<lparr>u_password_hash := con_hash con salt p\<rparr>) d))
      else if u_role u \<noteq> ''admin'' \<or> \<not> u_is_active u then
        (Inr (if u_role (promote u) = ''admin'' \<and> u_is_active (promote u) then AlreadyAdmin else Promoted),
         update_user now (u_id u) promote d)
      else (Inr AlreadyAdmin, d))"

definition provision_admin :: "console \<Rightarrow> string list \<Rightarrow> string \<Rightarrow> string \<Rightarrow> timestamp \<Rightarrow> string \<Rightarrow> db \<Rightarrow> (stop + report) \<times> db" where
  "provision_admin con hidden username email now salt d =
     (case select_one (\<lambda>u. lower (u_username u) = lower username) (users d) of
        Some v \<Rightarrow> (Inl (Exits ERR_EXIT), d)
      | None \<Rightarrow>
          (case select_one (\<lambda>u. u_email u = email) (users d) of
             Some v \<Rightarrow> (Inl (Exits ERR_EXIT), d)
           | None \<Rightarrow>
               (case prompt_password con hidden of
                  Inl s \<Rightarrow> (Inl s, d)
                | Inr p \<Rightarrow>
                    (case insert_user (new_user now username email (con_hash con salt p) ''admin'' ADMIN_PREFS) d of
                       Inl e \<Rightarrow> (Inl (Raises e), d)
                     | Inr (u, d') \<Rightarrow> (Inr CreatedAdmin, d')))))"

definition create_admin :: "console \<Rightarrow> config_values \<Rightarrow> string option \<Rightarrow> string option \<Rightarrow> bool \<Rightarrow> bool
    \<Rightarrow> string list \<Rightarrow> string list \<Rightarrow> timestamp \<Rightarrow> string \<Rightarrow> db \<Rightarrow> (stop + report) \<times> db" where
  "create_admin con cfg username email reset force answers hidden now salt d =
     (if cf_app_env cfg = ''production'' \<and> \<not> force then (Inl (Exits ERR_EXIT), d)
      else case prompt_username username answers of
        Inl s \<Rightarrow> (Inl s, d)
      | Inr (name, answers1) \<Rightarrow>
          (case prompt_email con email answers1 of
             Inl s \<Rightarrow> (Inl s, d)
           | Inr (mail, _) \<Rightarrow>
               (case select_one (\<lambda>u. u_username u = name) (users d) of
                  None \<Rightarrow> provision_admin con hidden name mail now salt d
                | Some u \<Rightarrow> repair_admin con hidden reset now salt u d)))"

text \<open>The exit status of the program; \<open>loaded\<close> is the outcome of \<open>get_config\<close>.\<close>

definition exit_status :: "stop + 'a \<Rightarrow> int" where
  "exit_status r = (case r of Inr _ \<Rightarrow> 0 | Inl (Exits n) \<Rightarrow> n | Inl EndOfInput \<Rightarrow> ERR_EXIT | Inl (Raises e) \<Rightarrow> 1)"

section \<open>\<open>seed\<close>\<close>

record seed_environ =
  se_admin_password :: "string option"
  se_bootstrap :: bootstrap

definition admin_password :: "seed_environ \<Rightarrow> string option" where
  "admin_password env =
     (case se_admin_password env of None \<Rightarrow> None | Some p \<Rightarrow> if p = [] then None else Some p)"

text \<open>
  The stages of the one session.  An exception rolls it back to the start; the explicit commit of a
  promoted row needs no state of its own, because no insert after it can be refused.
\<close>

definition seed_admin :: "console \<Rightarrow> seed_environ \<Rightarrow> timestamp \<Rightarrow> string \<Rightarrow> db \<Rightarrow> py_error + db" where
  "seed_admin con env now salt d =
     (case admin_password env of
        None \<Rightarrow> Inr d
      | Some p \<Rightarrow>
          (case select_one (\<lambda>u. u_username u = ''admin'') (users d) of
             Some u \<Rightarrow> Inr d
           | None \<Rightarrow>
               (case insert_user (new_user now ''admin'' ''admin@empyrean.local'' (con_hash con salt p) ''admin'' ADMIN_PREFS) d of
                  Inl e \<Rightarrow> Inl e
                | Inr (u, d') \<Rightarrow> Inr d')))"

definition seed_bootstrap :: "console \<Rightarrow> seed_environ \<Rightarrow> timestamp \<Rightarrow> string \<Rightarrow> db \<Rightarrow> py_error + db" where
  "seed_bootstrap con env now salt d =
     (case bootstrap_admin_credentials (se_bootstrap env) of
        None \<Rightarrow> Inr d
      | Some (name, password, mail) \<Rightarrow>
          (case select_one (\<lambda>u. u_username u = name) (users d) of
             Some u \<Rightarrow>
               (if u_role u \<noteq> ''admin'' \<or> \<not> u_is_active u then
                  Inr (update_user now (u_id u) (\<lambda>u. u\<lparr>u_role := ''admin'', u_is_active := True\<rparr>) d)
                else Inr d)
           | None \<Rightarrow>
               (case select_one (\<lambda>u. lower (u_username u) = lower name) (users d) of
                  Some v \<Rightarrow> Inr d
                | None \<Rightarrow>
                    (case insert_user (new_user now name mail (con_hash con salt password) ''admin'' ADMIN_PREFS) d of
                       Inl e \<Rightarrow> Inl e
                     | Inr (u, d') \<Rightarrow> Inr d'))))"

definition SEED_SETTINGS :: "(string \<times> string \<times> string) list" where
  "SEED_SETTINGS =
     [(''aqi_warning_threshold'', ''100'', ''AQI value that triggers a warning alert''),
      (''aqi_critical_threshold'', ''150'', ''AQI value that triggers a critical alert''),
      (''data_retention_days'', ''365'', ''How long raw readings are retained before purging''),
      (''alerts_enabled'', ''true'', ''Master toggle for alert generation'')]"

definition seed_setting :: "timestamp \<Rightarrow> string \<times> string \<times> string \<Rightarrow> db \<Rightarrow> db" where
  "seed_setting now s d =
     (let (key, val, about) = s in
      if select_one (\<lambda>g. g_key g = key) (settings d) \<noteq> None then d
      else d\<lparr>settings := settings d @ [\<lparr>g_key = key, g_value = val, g_description = Some about,
                                         g_updated_at = now, g_updated_by = None\<rparr>]\<rparr>)"

definition sample_seed_node :: "timestamp \<Rightarrow> node" where
  "sample_seed_node now =
     \<lparr>n_node_id = ''ESP32-01'', n_name = Some ''Downtown Sensor'', n_location_name = Some ''City Center, Main Street'',
      n_lat = Some (to_float (286139 / 10000)), n_lon = Some (to_float (77209 / 1000)),
      n_firmware_version = Some ''v2.1.0'', n_reading_interval = 30, n_is_active = True, n_registered_at = now,
      n_last_seen = None\<rparr>"

definition seed_node :: "timestamp \<Rightarrow> db \<Rightarrow> db" where
  "seed_node now d =
     (if select_one (\<lambda>n. n_node_id n = ''ESP32-01'') (nodes d) \<noteq> None then d
      else d\<lparr>nodes := nodes d @ [sample_seed_node now]\<rparr>)"

definition seed :: "console \<Rightarrow> config_values \<Rightarrow> seed_environ \<Rightarrow> bool \<Rightarrow> timestamp \<Rightarrow> string \<Rightarrow> string \<Rightarrow> db \<Rightarrow> (stop + unit) \<times> db" where
  "seed con cfg env force now salt1 salt2 d =
     (if cf_app_env cfg = ''production'' \<and> \<not> force then (Inl (Exits ERR_EXIT), d)
      else case seed_admin con env now salt1 d of
        Inl e \<Rightarrow> (Inl (Raises e), d)
      | Inr d1 \<Rightarrow>
          (case seed_bootstrap con env now salt2 d1 of
             Inl e \<Rightarrow> (Inl (Raises e), d)
           | Inr d2 \<Rightarrow> (Inr (), seed_node now (fold (seed_setting now) SEED_SETTINGS d2))))"

section \<open>Lemmas\<close>

lemma ask_username_ok: "ask_username vs = Inr (name, rest) \<Longrightarrow> \<exists>v. name = strip v \<and> username_problems v = []"
  by (induction vs rule: ask_username.induct) (auto split: if_splits)

lemma prompt_username_ok:
  "prompt_username cli answers = Inr (name, rest) \<Longrightarrow> username_re name \<and> 3 \<le> char_len name \<and> char_len name \<le> 50"
  by (auto simp: prompt_username_def username_problems_def Let_def MIN_USERNAME_LEN_def MAX_USERNAME_LEN_def
      dest!: ask_username_ok split: option.splits if_splits)

lemma prompt_password_ok: "prompt_password con hidden = Inr p \<Longrightarrow> password_problems con p = []"
  by (induction con hidden rule: prompt_password.induct) (auto split: if_splits)

text \<open>A row that is found by its unique name is the only one the update reaches.\<close>

lemma update_user_rows:
  assumes "accounts_ok d" "select_one (\<lambda>u. u_username u = name) (users d) = Some u"
    and "\<And>u. u_username (f u) = u_username u" "\<And>u. u_id (f u) = u_id u" "\<And>u. u_email (f u) = u_email u"
  shows "accounts_ok (update_user now (u_id u) f d)"
    and "select_where (\<lambda>v. u_username v = name) (users (update_user now (u_id u) f d)) = [touch now f u]"
    and "select_where (\<lambda>v. u_username v \<noteq> name) (users (update_user now (u_id u) f d)) =
         select_where (\<lambda>v. u_username v \<noteq> name) (users d)"
proof -
  show "accounts_ok (update_user now (u_id u) f d)" using assms by (intro accounts_update) auto
  have u: "u \<in> set (users d)" "u_username u = name" using assms(2) by (auto dest: select_one_Some)
  have ids: "u_id v = u_id u \<longleftrightarrow> v = u" "u_username v = name \<longleftrightarrow> v = u" if "v \<in> set (users d)" for v
    using assms(1) u that distinct_map_eq by (fastforce simp: accounts_ok_def)+
  have same: "users (update_user now (u_id u) f d) = update_where (\<lambda>v. u_username v = name) (touch now f) (users d)"
    by (simp add: update_user_def update_where_def ids cong: map_cong)
  have name: "u_username (touch now f v) = u_username v" for v by (simp add: touch_def assms(3))
  show "select_where (\<lambda>v. u_username v = name) (users (update_user now (u_id u) f d)) = [touch now f u]"
    using filter_unique [of u_username "users d" u] assms(1) u
    by (simp add: same select_where_def filter_update_same name accounts_ok_def)
  show "select_where (\<lambda>v. u_username v \<noteq> name) (users (update_user now (u_id u) f d)) =
         select_where (\<lambda>v. u_username v \<noteq> name) (users d)"
    by (simp add: same select_where_def filter_update_other name)
qed

lemma insert_user_rows:
  assumes "insert_user u d = Inr (u', d')"
  shows "u' = u\<lparr>u_id := next_id d\<rparr>" "users d' = u' # users d" "d' = d\<lparr>users := users d', next_id := next_id d + 1\<rparr>"
  using assms by (auto simp: insert_user_def Let_def split: if_splits)

text \<open>
  What a run that ends well leaves: one administrator of the asked name, nobody else touched.
\<close>

definition others_kept :: "string \<Rightarrow> db \<Rightarrow> db \<Rightarrow> bool" where
  "others_kept name d d' \<longleftrightarrow> accounts_ok d' \<and> d' = d\<lparr>users := users d', next_id := next_id d'\<rparr> \<and>
     select_where (\<lambda>v. u_username v \<noteq> name) (users d') = select_where (\<lambda>v. u_username v \<noteq> name) (users d)"

definition admin_row :: "string \<Rightarrow> user \<Rightarrow> db \<Rightarrow> bool" where
  "admin_row name u d \<longleftrightarrow> select_where (\<lambda>v. u_username v = name) (users d) = [u] \<and> u_role u = ''admin'' \<and> u_is_active u"

lemma promoted_row:
  assumes "accounts_ok d" "select_one (\<lambda>u. u_username u = name) (users d) = Some u"
    and "\<And>u. u_username (f u) = u_username u" "\<And>u. u_id (f u) = u_id u" "\<And>u. u_email (f u) = u_email u"
    and "\<And>u. u_role (f u) = ''admin''" "\<And>u. u_is_active (f u)"
  shows "others_kept name d (update_user now (u_id u) f d)"
    and "admin_row name (touch now f u) (update_user now (u_id u) f d)"
proof -
  have "u_role (touch now f u) = ''admin''" "u_is_active (touch now f u)"
    using assms(6,7) [of u] by (cases "f u = u"; simp add: touch_def)+
  then show "others_kept name d (update_user now (u_id u) f d)"
    "admin_row name (touch now f u) (update_user now (u_id u) f d)"
    using update_user_rows [OF assms(1,2), of f now] assms(3-5)
    by (simp_all add: others_kept_def admin_row_def) (simp add: update_user_def)
qed

lemma inserted_row:
  assumes "accounts_ok d" "insert_user (new_user now name mail h ''admin'' prefs) d = Inr (u, d')"
  shows "others_kept name d d'" "admin_row name u d'" "u_password_hash u = h"
proof -
  note rows = insert_user_rows [OF assms(2)]
  have fresh: "\<forall>v \<in> set (users d). u_username v \<noteq> name"
    using assms(2) by (auto simp: insert_user_def new_user_def split: if_splits)
  have u: "u_username u = name" "u_role u = ''admin''" "u_is_active u" "u_password_hash u = h"
    by (simp_all add: rows(1) new_user_def)
  have "next_id d' = next_id d + 1" by (subst rows(3)) simp
  then have "d' = d\<lparr>users := users d', next_id := next_id d'\<rparr>" using rows(3) by simp
  with u fresh show "others_kept name d d'" "admin_row name u d'" "u_password_hash u = h"
    by (auto simp: others_kept_def admin_row_def select_where_def rows(2) filter_empty_conv accounts_insert [OF assms])
qed

text \<open>What each report means for the row \<open>u\<close> it leaves, against the database \<open>d\<close> of before.\<close>

definition report_ok :: "console \<Rightarrow> string \<Rightarrow> string \<Rightarrow> db \<Rightarrow> report \<Rightarrow> user \<Rightarrow> bool" where
  "report_ok con salt name d rep u \<longleftrightarrow>
     (case rep of
        AlreadyAdmin \<Rightarrow> \<exists>old \<in> set (users d). u_username old = name \<and> u_password_hash u = u_password_hash old
      | Promoted \<Rightarrow> False
      | PasswordReset \<Rightarrow> \<exists>p. password_problems con p = [] \<and> u_password_hash u = con_hash con salt p
      | CreatedAdmin \<Rightarrow> (\<forall>w \<in> set (users d). lower (u_username w) \<noteq> lower name) \<and>
          (\<exists>p. password_problems con p = [] \<and> u_password_hash u = con_hash con salt p))"

lemma reset_admin_ok:
  assumes "accounts_ok d" "select_one (\<lambda>u. u_username u = name) (users d) = Some u"
    and "password_problems con p = []"
    and f: "f = (\<lambda>u. u\<lparr>u_role := ''admin'', u_is_active := True, u_password_hash := con_hash con salt p\<rparr>)"
  shows "others_kept name d (update_user now (u_id u) f d)"
    "\<exists>v. admin_row name v (update_user now (u_id u) f d) \<and> report_ok con salt name d PasswordReset v"
proof -
  have "u_password_hash (touch now f u) = con_hash con salt p"
    by (auto simp: touch_def f dest: arg_cong [of _ _ u_password_hash])
  then show "others_kept name d (update_user now (u_id u) f d)"
    "\<exists>v. admin_row name v (update_user now (u_id u) f d) \<and> report_ok con salt name d PasswordReset v"
    using promoted_row [OF assms(1,2), of f now] assms(3) by (auto simp: f report_ok_def)
qed

lemma promote_admin_ok:
  assumes "accounts_ok d" "select_one (\<lambda>u. u_username u = name) (users d) = Some u"
    and f: "f = (\<lambda>u. u\<lparr>u_role := ''admin'', u_is_active := True\<rparr>)"
  shows "others_kept name d (update_user now (u_id u) f d)"
    "\<exists>v. admin_row name v (update_user now (u_id u) f d) \<and> report_ok con salt name d AlreadyAdmin v"
proof -
  have "u_password_hash (touch now f u) = u_password_hash u" by (simp add: touch_def f)
  then show "others_kept name d (update_user now (u_id u) f d)"
    "\<exists>v. admin_row name v (update_user now (u_id u) f d) \<and> report_ok con salt name d AlreadyAdmin v"
    using promoted_row [OF assms(1,2), of f now] assms(2) by (auto simp: f report_ok_def dest!: select_one_Some)
qed

lemma kept_admin_ok:
  assumes "accounts_ok d" "select_one (\<lambda>u. u_username u = name) (users d) = Some u" "u_role u = ''admin''" "u_is_active u"
  shows "others_kept name d d" "\<exists>v. admin_row name v d \<and> report_ok con salt name d AlreadyAdmin v"
proof -
  have "u \<in> set (users d)" "u_username u = name" using assms(2) by (auto dest: select_one_Some)
  then have "filter (\<lambda>v. u_username v = name) (users d) = [u]"
    using filter_unique [of u_username "users d" u] assms(1) by (simp add: accounts_ok_def)
  then show "others_kept name d d" "\<exists>v. admin_row name v d \<and> report_ok con salt name d AlreadyAdmin v"
    using assms \<open>u \<in> _\<close> \<open>u_username u = name\<close>
    by (auto simp: others_kept_def admin_row_def select_where_def report_ok_def)
qed

lemma repair_admin_ok:
  assumes "accounts_ok d" "select_one (\<lambda>u. u_username u = name) (users d) = Some u"
    and "repair_admin con hidden reset now salt u d = (Inr rep, d')"
  shows "others_kept name d d' \<and> (\<exists>v. admin_row name v d' \<and> report_ok con salt name d rep v)"
  using assms(3) reset_admin_ok [OF assms(1,2)] promote_admin_ok [OF assms(1,2)] kept_admin_ok [OF assms(1,2)]
  by (simp add: repair_admin_def Let_def split: if_splits sum.splits) (auto dest: prompt_password_ok)

lemma provision_admin_ok:
  assumes "accounts_ok d" "provision_admin con hidden name mail now salt d = (Inr rep, d')"
  shows "others_kept name d d' \<and> (\<exists>v. admin_row name v d' \<and> report_ok con salt name d rep v)"
proof -
  obtain v p where ins: "insert_user (new_user now name mail (con_hash con salt p) ''admin'' ADMIN_PREFS) d = Inr (v, d')"
    and "password_problems con p = []" "rep = CreatedAdmin" "\<forall>w \<in> set (users d). lower (u_username w) \<noteq> lower name"
    using assms(2)
    by (auto simp: provision_admin_def select_one_None dest!: prompt_password_ok split: option.splits sum.splits prod.splits)
  then show ?thesis using inserted_row [OF assms(1) ins] by (auto simp: report_ok_def)
qed

lemma create_admin_stopped: "create_admin con cfg username email reset force answers hidden now salt d = (Inl s, d') \<Longrightarrow> d' = d"
  by (auto simp: create_admin_def provision_admin_def repair_admin_def Let_def
      split: if_splits sum.splits option.splits prod.splits)

lemma create_admin_done:
  assumes "accounts_ok d"
    and "create_admin con cfg username email reset force answers hidden now salt d = (Inr rep, d')"
  shows "(cf_app_env cfg = ''production'' \<longrightarrow> force) \<and>
    (\<exists>name u. username_re name \<and> others_kept name d d' \<and> admin_row name u d' \<and> report_ok con salt name d rep u)"
  using assms(2) repair_admin_ok [OF assms(1)] provision_admin_ok [OF assms(1)]
  by (simp add: create_admin_def split: if_splits sum.splits prod.splits option.splits)
    (metis prompt_username_ok)+

text \<open>
  The administrator program is confined.  A run that is refused, aborted or fails leaves the
  database as it was.  A run that ends well (in production only with \<open>--force\<close>) leaves exactly one
  row of a well-formed username, an active administrator, and every other account and table
  untouched; a new account has no case variant and a password that meets the policy, an existing one
  keeps its password unless a reset was asked for, and the report \<open>Promoted\<close> is never made.
\<close>

theorem create_admin_confined:
  assumes "accounts_ok d" and "create_admin con cfg username email reset force answers hidden now salt d = (out, d')"
  shows "case out of Inl s \<Rightarrow> d' = d
    | Inr rep \<Rightarrow> (cf_app_env cfg = ''production'' \<longrightarrow> force) \<and>
        (\<exists>name u. username_re name \<and> others_kept name d d' \<and> admin_row name u d' \<and> report_ok con salt name d rep u)"
  using assms create_admin_stopped create_admin_done [OF assms(1)] by (cases out) fastforce+

section \<open>Seeding twice\<close>

definition admin_there :: "seed_environ \<Rightarrow> db \<Rightarrow> bool" where
  "admin_there env d \<longleftrightarrow> admin_password env = None \<or> (\<exists>u \<in> set (users d). u_username u = ''admin'')"

definition bootstrap_there :: "seed_environ \<Rightarrow> db \<Rightarrow> bool" where
  "bootstrap_there env d \<longleftrightarrow>
     (case bootstrap_admin_credentials (se_bootstrap env) of
        None \<Rightarrow> True
      | Some (name, password, mail) \<Rightarrow>
          (case select_one (\<lambda>u. u_username u = name) (users d) of
             Some u \<Rightarrow> u_role u = ''admin'' \<and> u_is_active u
           | None \<Rightarrow> \<exists>v \<in> set (users d). lower (u_username v) = lower name))"

lemma select_one_where: "select_where P rows = [r] \<Longrightarrow> select_one P rows = Some r"
  by (induction rows) (auto simp: select_where_def select_one_def split: if_splits)

lemma insert_named:
  assumes "accounts_ok d" "insert_user (new_user now name mail h ''admin'' prefs) d = Inr (u, d')"
  shows "accounts_ok d'" "select_one (\<lambda>v. u_username v = name) (users d') = Some u" "u_role u = ''admin''" "u_is_active u"
    "set (map u_username (users d')) = insert name (set (map u_username (users d)))"
    "settings d' = settings d" "nodes d' = nodes d"
proof -
  note rows = insert_user_rows [OF assms(2)]
  show "accounts_ok d'" using assms accounts_insert by blast
  show "select_one (\<lambda>v. u_username v = name) (users d') = Some u" "u_role u = ''admin''" "u_is_active u"
    using inserted_row [OF assms] by (auto simp: admin_row_def select_one_where)
  show "set (map u_username (users d')) = insert name (set (map u_username (users d)))"
    by (simp add: rows(1,2) new_user_def)
  show "settings d' = settings d" "nodes d' = nodes d" by (subst rows(3), simp)+
qed

lemma seed_admin_cases:
  assumes "seed_admin con env now salt d = Inr d1"
  obtains (kept) "d1 = d" "admin_there env d"
  | (inserted) h u where "insert_user (new_user now ''admin'' ''admin@empyrean.local'' h ''admin'' ADMIN_PREFS) d = Inr (u, d1)"
  using assms
  by (fastforce simp: seed_admin_def admin_there_def split: option.splits sum.splits prod.splits dest!: select_one_Some)

lemma seed_admin_there:
  assumes "accounts_ok d" "seed_admin con env now salt d = Inr d1"
  shows "admin_there env d1 \<and> accounts_ok d1 \<and> settings d1 = settings d \<and> nodes d1 = nodes d"
  using assms(2)
proof (cases rule: seed_admin_cases)
  case kept
  with assms(1) show ?thesis by simp
next
  case (inserted h u)
  note new = insert_named [OF assms(1) inserted]
  from select_one_Some [OF new(2)] have "admin_there env d1" by (auto simp: admin_there_def)
  with new show ?thesis by simp
qed

lemma seed_admin_skips: "admin_there env d \<Longrightarrow> seed_admin con env now salt d = Inr d"
  by (auto simp: seed_admin_def admin_there_def select_one_None split: option.splits)

lemma promoted_named:
  assumes "accounts_ok d" "select_one (\<lambda>u. u_username u = name) (users d) = Some u"
    and f: "f = (\<lambda>u. u\<lparr>u_role := ''admin'', u_is_active := True\<rparr>)"
  shows "accounts_ok (update_user now (u_id u) f d)"
    "\<exists>v. select_one (\<lambda>u. u_username u = name) (users (update_user now (u_id u) f d)) = Some v \<and> u_role v = ''admin'' \<and> u_is_active v"
    "set (map u_username (users (update_user now (u_id u) f d))) = set (map u_username (users d))"
    "settings (update_user now (u_id u) f d) = settings d" "nodes (update_user now (u_id u) f d) = nodes d"
proof -
  note p = promoted_row [OF assms(1,2), of f now]
  show "accounts_ok (update_user now (u_id u) f d)" using p(1) by (simp add: f others_kept_def)
  show "\<exists>v. select_one (\<lambda>u. u_username u = name) (users (update_user now (u_id u) f d)) = Some v \<and> u_role v = ''admin'' \<and> u_is_active v"
    using p(2) by (auto simp: f admin_row_def select_one_where)
  show "set (map u_username (users (update_user now (u_id u) f d))) = set (map u_username (users d))"
    by (subst update_user_def) (simp add: map_update_where touch_def f)
  show "settings (update_user now (u_id u) f d) = settings d" "nodes (update_user now (u_id u) f d) = nodes d"
    by (simp_all add: update_user_def)
qed

lemma seed_bootstrap_cases:
  assumes "seed_bootstrap con env now salt d = Inr d'"
  obtains (kept) "d' = d" "bootstrap_there env d"
  | (inserted) name pw mail h u where "bootstrap_admin_credentials (se_bootstrap env) = Some (name, pw, mail)"
      "insert_user (new_user now name mail h ''admin'' ADMIN_PREFS) d = Inr (u, d')"
  | (promoted) name pw mail u where "bootstrap_admin_credentials (se_bootstrap env) = Some (name, pw, mail)"
      "select_one (\<lambda>u. u_username u = name) (users d) = Some u"
      "d' = update_user now (u_id u) (\<lambda>u. u\<lparr>u_role := ''admin'', u_is_active := True\<rparr>) d"
proof (cases "bootstrap_admin_credentials (se_bootstrap env)")
  case None
  then show ?thesis using assms kept by (simp add: seed_bootstrap_def bootstrap_there_def)
next
  case (Some c)
  obtain name pw mail where c: "c = (name, pw, mail)" by (cases c)
  show ?thesis
  proof (cases "select_one (\<lambda>u. u_username u = name) (users d)")
    case None
    then show ?thesis
    proof (cases "select_one (\<lambda>u. lower (u_username u) = lower name) (users d)")
      case None
      with assms Some c \<open>select_one (\<lambda>u. u_username u = name) _ = None\<close> show ?thesis
        by (auto simp: seed_bootstrap_def intro: inserted split: sum.splits prod.splits)
    next
      case (Some v)
      with assms \<open>bootstrap_admin_credentials _ = _\<close> c \<open>select_one (\<lambda>u. u_username u = name) _ = None\<close> show ?thesis
        by (intro kept) (auto simp: seed_bootstrap_def bootstrap_there_def dest: select_one_Some)
    qed
  next
    case (Some u)
    with assms \<open>bootstrap_admin_credentials _ = _\<close> c show ?thesis
      by (auto simp: seed_bootstrap_def bootstrap_there_def intro: kept promoted split: if_splits)
  qed
qed

lemma seed_bootstrap_there:
  assumes "accounts_ok d" "seed_bootstrap con env now salt d = Inr d'"
  shows "bootstrap_there env d' \<and> accounts_ok d' \<and> set (map u_username (users d)) \<subseteq> set (map u_username (users d')) \<and>
    settings d' = settings d \<and> nodes d' = nodes d"
  using assms(2)
proof (cases rule: seed_bootstrap_cases)
  case kept
  with assms(1) show ?thesis by simp
next
  case (inserted name pw mail h u)
  with insert_named [OF assms(1)] show ?thesis by (simp add: bootstrap_there_def del: set_map) blast
next
  case (promoted name pw mail u)
  with promoted_named [OF assms(1) promoted(2) refl, of now] show ?thesis
    by (auto simp: bootstrap_there_def simp del: set_map)
qed

lemma seed_bootstrap_skips: "bootstrap_there env d \<Longrightarrow> seed_bootstrap con env now salt d = Inr d"
  by (auto simp: seed_bootstrap_def bootstrap_there_def split: option.splits dest: select_one_Some)
    (auto simp: select_one_None)

lemma seed_setting_frame:
  "users (seed_setting now s d) = users d" "nodes (seed_setting now s d) = nodes d" "next_id (seed_setting now s d) = next_id d"
  by (simp_all add: seed_setting_def Let_def split: prod.split)

lemma seed_settings_frame:
  "users (fold (seed_setting now) ss d) = users d" "nodes (fold (seed_setting now) ss d) = nodes d"
  "next_id (fold (seed_setting now) ss d) = next_id d"
  by (induction ss arbitrary: d) (simp_all add: seed_setting_frame)

lemma seed_setting_keys:
  "set (map g_key (settings (seed_setting now s d))) = insert (fst s) (set (map g_key (settings d)))"
  by (auto simp: seed_setting_def Let_def split: prod.splits dest!: select_one_Some)

lemma seed_settings_keys:
  "set (map g_key (settings (fold (seed_setting now) ss d))) = set (map fst ss) \<union> set (map g_key (settings d))"
  by (induction ss arbitrary: d) (auto simp: seed_setting_keys simp del: set_map)

lemma seed_settings_skip:
  "set (map fst ss) \<subseteq> set (map g_key (settings d)) \<Longrightarrow> fold (seed_setting now) ss d = d"
  by (induction ss) (auto simp: seed_setting_def select_one_None split: prod.splits)

lemma seed_settings_prefix: "prefix (settings d) (settings (fold (seed_setting now) ss d))"
proof (induction ss arbitrary: d)
  case (Cons s ss)
  have "prefix (settings d) (settings (seed_setting now s d))" by (simp add: seed_setting_def Let_def split: prod.split)
  also have "prefix \<dots> (settings (fold (seed_setting now) ss (seed_setting now s d)))" by (rule Cons)
  finally show ?case by simp
qed simp

text \<open>What a seed that ends well leaves.\<close>

lemma seed_leaves:
  assumes "accounts_ok d" "seed con cfg env force now salt1 salt2 d = (Inr (), d')"
  shows "admin_there env d'" "bootstrap_there env d'" "set (map fst SEED_SETTINGS) \<subseteq> set (map g_key (settings d'))"
    "\<exists>n \<in> set (nodes d'). n_node_id n = ''ESP32-01''" "accounts_ok d'"
    "prefix (settings d) (settings d')" "prefix (nodes d) (nodes d')" "\<not> (cf_app_env cfg = ''production'' \<and> \<not> force)"
proof -
  obtain d1 d2 where d1: "seed_admin con env now salt1 d = Inr d1" and d2: "seed_bootstrap con env now salt2 d1 = Inr d2"
    and d': "d' = seed_node now (fold (seed_setting now) SEED_SETTINGS d2)"
    and go: "\<not> (cf_app_env cfg = ''production'' \<and> \<not> force)"
    using assms(2) by (auto simp: seed_def split: if_splits sum.splits)
  note a = seed_admin_there [OF assms(1) d1]
  note b = seed_bootstrap_there [OF conjunct1 [OF conjunct2 [OF a]] d2]
  have same: "users d' = users d2" "settings d' = settings (fold (seed_setting now) SEED_SETTINGS d2)"
    "next_id d' = next_id d2"
    by (simp_all add: d' seed_node_def seed_settings_frame)
  show "bootstrap_there env d'" using b unfolding bootstrap_there_def same(1) by blast
  show "admin_there env d'"
    using a b same(1) unfolding admin_there_def set_map image_subset_iff by (metis imageE)
  show "set (map fst SEED_SETTINGS) \<subseteq> set (map g_key (settings d'))"
    unfolding same(2) seed_settings_keys by simp
  show "\<exists>n \<in> set (nodes d'). n_node_id n = ''ESP32-01''"
    by (auto simp: d' seed_node_def sample_seed_node_def dest: select_one_Some)
  show "accounts_ok d'" using b accounts_same [of d2 d'] same by simp
  show "prefix (settings d) (settings d')" using a b seed_settings_prefix [of d2 now] same(2) by simp
  show "prefix (nodes d) (nodes d')" using a b by (simp add: d' seed_node_def seed_settings_frame)
qed (use assms(2) in \<open>auto simp: seed_def split: if_splits\<close>)

text \<open>
  Seeding is idempotent and additive: after a run that ends well, a second run, at any later time
  and with other salts, changes nothing; the settings and nodes that were there are kept in place, and the
  accounts stay well formed.
\<close>

theorem seed_idempotent:
  assumes "accounts_ok d" "seed con cfg env force now salt1 salt2 d = (Inr (), d')"
  shows "seed con cfg env force now' salt1' salt2' d' = (Inr (), d') \<and>
    prefix (settings d) (settings d') \<and> prefix (nodes d) (nodes d') \<and> accounts_ok d'"
proof -
  note left = seed_leaves [OF assms]
  have "seed_node now' d' = d'" using left(4) by (auto simp: seed_node_def select_one_None)
  with left show ?thesis by (simp add: seed_def seed_admin_skips seed_bootstrap_skips seed_settings_skip)
qed

text \<open>Nobody but an administrator holds the name \<open>admin\<close>.\<close>

definition admin_reserved :: "db \<Rightarrow> bool" where
  "admin_reserved d \<longleftrightarrow> (\<forall>u \<in> set (users d). u_username u = ''admin'' \<longrightarrow> u_role u = ''admin'')"

lemma admin_reserved_insert:
  "admin_reserved d \<Longrightarrow> insert_user (new_user now name mail h ''admin'' prefs) d = Inr (u, d') \<Longrightarrow> admin_reserved d'"
  using insert_user_rows [of "new_user now name mail h ''admin'' prefs" d u d']
  by (auto simp: admin_reserved_def new_user_def)

lemma admin_reserved_promote:
  "admin_reserved d \<Longrightarrow> admin_reserved (update_user now uid (\<lambda>u. u\<lparr>u_role := ''admin'', u_is_active := True\<rparr>) d)"
  by (auto simp: admin_reserved_def update_user_def mem_update_where touch_def split: if_splits)

lemma seed_admin_reserved:
  assumes "seed con cfg env force now salt1 salt2 d = (Inr (), d')" "admin_reserved d"
  shows "admin_reserved d'"
proof -
  obtain d1 d2 where d1: "seed_admin con env now salt1 d = Inr d1" and d2: "seed_bootstrap con env now salt2 d1 = Inr d2"
    and d': "d' = seed_node now (fold (seed_setting now) SEED_SETTINGS d2)"
    using assms(1) by (auto simp: seed_def split: if_splits sum.splits)
  have "admin_reserved d1"
    using d1 by (cases rule: seed_admin_cases) (use assms(2) admin_reserved_insert in blast)+
  with d2 have "admin_reserved d2"
    by (cases rule: seed_bootstrap_cases) (use admin_reserved_insert admin_reserved_promote in blast)+
  then show ?thesis by (simp add: admin_reserved_def d' seed_node_def seed_settings_frame)
qed

section \<open>Witnesses\<close>

definition demo_console :: console where
  "demo_console = \<lparr>con_email = Some, con_hash = (\<lambda>salt p. salt @ p), con_upper = (\<lambda>_. False), con_lower = (\<lambda>_. False),
     con_digit = (\<lambda>_. False)\<rparr>"

lemma demo_prompts:
  "prompt_username (Some '' root '') vs = Inr (''root'', vs)"
  "prompt_email demo_console None [''me@example.com''] = Inr (''me@example.com'', [])"
  "prompt_password demo_console [''weak'', ''Secret-2024'', ''Secret-2024''] = Inr ''Secret-2024''"
  by code_simp+

theorem create_admin_confined_witness:
  "\<exists>u. username_re ''root'' \<and> admin_row ''root'' u (snd (create_admin demo_console CONFIG_DEFAULTS (Some '' root '') None False False
      [''me@example.com''] [''weak'', ''Secret-2024'', ''Secret-2024''] 5 ''s'' empty_db))"
proof -
  have run: "create_admin demo_console CONFIG_DEFAULTS (Some '' root '') None False False [''me@example.com'']
      [''weak'', ''Secret-2024'', ''Secret-2024''] 5 ''s'' empty_db =
    (Inr CreatedAdmin, empty_db\<lparr>users := [(new_user 5 ''root'' ''me@example.com'' ''sSecret-2024'' ''admin'' ADMIN_PREFS)\<lparr>u_id := 1\<rparr>],
       next_id := 2\<rparr>)" (is "?run = (_, ?d)")
    by (simp add: create_admin_def demo_prompts provision_admin_def empty_db_def select_one_def insert_user_def
        new_user_def Let_def CONFIG_DEFAULTS_def del: prompt_password.simps) (simp add: demo_console_def)
  have "accounts_ok empty_db" by (simp add: accounts_ok_def empty_db_def)
  from create_admin_confined [OF this run] obtain name u where "username_re name" "admin_row name u ?d" by auto
  moreover from this have "name = ''root''"
    by (auto simp: admin_row_def select_where_def new_user_def split: if_splits)
  ultimately show ?thesis using run by auto
qed

theorem seed_idempotent_witness:
  "let env = \<lparr>se_admin_password = Some ''pw'', se_bootstrap = \<lparr>bs_username = ''ops'', bs_password = ''x'', bs_email = []\<rparr>\<rparr>;
       d = snd (seed demo_console CONFIG_DEFAULTS env False 5 ''a'' ''b'' empty_db)
   in seed demo_console CONFIG_DEFAULTS env False 9 ''c'' ''d'' d = (Inr (), d)"
proof -
  let ?env = "\<lparr>se_admin_password = Some ''pw'', se_bootstrap = \<lparr>bs_username = ''ops'', bs_password = ''x'', bs_email = []\<rparr>\<rparr>"
  have creds: "bootstrap_admin_credentials \<lparr>bs_username = ''ops'', bs_password = ''x'', bs_email = []\<rparr> = Some (''ops'', ''x'', ''ops@empyrean.local'')"
    "lower ''ops'' = ''ops''" "lower ''admin'' = ''admin''"
    by code_simp+
  have "fst (seed demo_console CONFIG_DEFAULTS ?env False 5 ''a'' ''b'' empty_db) = Inr ()"
    by (simp add: seed_def seed_admin_def seed_bootstrap_def creds admin_password_def insert_user_def new_user_def Let_def
        CONFIG_DEFAULTS_def empty_db_def select_one_def)
  then have run: "seed demo_console CONFIG_DEFAULTS ?env False 5 ''a'' ''b'' empty_db =
      (Inr (), snd (seed demo_console CONFIG_DEFAULTS ?env False 5 ''a'' ''b'' empty_db))"
    by (simp add: prod_eq_iff)
  have "accounts_ok empty_db" by (simp add: accounts_ok_def empty_db_def)
  from seed_idempotent [OF this run] show ?thesis by simp
qed

end
