(* ===== verification/Operator_Checks.thy ===== *)
theory Operator_Checks imports Operator_Scripts begin

text \<open>
  \<open>src/scripts/generate_secrets.py\<close>, \<open>check_health.py\<close> and \<open>verify.py\<close>: the console programs that make
  the secrets of a deployment and judge a running stack.  What the environment answers (the random
  tokens, the database, Redis, Alembic, the app factory) is an input; the printed explanations are
  left out, the verdict of every line is kept.
\<close>

section \<open>Secrets\<close>

definition strong_token :: "string \<Rightarrow> bool" where
  "strong_token token = (token \<notin> set DEV_SECRETS \<and> MIN_SECRET_BYTES \<le> length token \<and>
     MIN_SECRET_DISTINCT_CHARS \<le> length (remdups (characters token)))"

text \<open>\<open>tok n\<close> is the n-th value of \<open>secrets.token_urlsafe\<close>; the loop may never end.\<close>

partial_function (option) generate_secure_secret :: "(nat \<Rightarrow> string) \<Rightarrow> nat \<Rightarrow> (string \<times> nat) option" where
  "generate_secure_secret tok n =
     (if strong_token (tok n) then Some (tok n, Suc n) else generate_secure_secret tok (Suc n))"

text \<open>\<open>str.splitlines\<close> on UTF-8 bytes: how many bytes of a line boundary the text starts with.\<close>

definition boundary :: "string \<Rightarrow> nat" where
  "boundary s =
     (let b = (\<lambda>i. if i < length s then code (s ! i) else 0) in
      if b 0 = 13 then (if b 1 = 10 then 2 else 1)
      else if b 0 \<in> {10, 11, 12, 28, 29, 30} then 1
      else if b 0 = 0xC2 \<and> b 1 = 0x85 then 2
      else if b 0 = 0xE2 \<and> b 1 = 0x80 \<and> b 2 \<in> {0xA8, 0xA9} then 3
      else 0)"

function split_lines :: "string \<Rightarrow> string \<Rightarrow> string list" where
  "split_lines cur [] = (if cur = [] then [] else [cur])"
| "split_lines cur (c # cs) =
     (if boundary (c # cs) = 0 then split_lines (cur @ [c]) cs
      else cur # split_lines [] (drop (boundary (c # cs) - 1) cs))"
  by pat_completeness auto
termination by (relation "measure (\<lambda>(_, s). length s)") auto

definition starts :: "string \<Rightarrow> string \<Rightarrow> bool" where "starts p s = (take (length p) s = p)"

definition SECRET_LINE :: string where "SECRET_LINE = ''SECRET_KEY=''"
definition JWT_LINE :: string where "JWT_LINE = ''JWT_SECRET=''"

definition rewrite_env :: "string \<Rightarrow> string \<Rightarrow> string list \<Rightarrow> string list" where
  "rewrite_env secret_key jwt_secret ls =
     map (\<lambda>l. if starts SECRET_LINE l then SECRET_LINE @ secret_key
               else if starts JWT_LINE l then JWT_LINE @ jwt_secret else l) ls
     @ (if list_ex (starts SECRET_LINE) ls then [] else [SECRET_LINE @ secret_key])
     @ (if list_ex (starts JWT_LINE) ls then [] else [JWT_LINE @ jwt_secret])"

record env_files =
  env_file :: "string option"
  example_file :: "string option"

definition env_content :: "env_files \<Rightarrow> string" where
  "env_content fs =
     (case env_file fs of
        Some c \<Rightarrow> c
      | None \<Rightarrow> (case example_file fs of Some c \<Rightarrow> c | None \<Rightarrow> []))"

text \<open>The printed secrets, if any, and the files; \<open>None\<close> is a run that never ends.\<close>

definition generate_secrets :: "(nat \<Rightarrow> string) \<Rightarrow> bool \<Rightarrow> bool \<Rightarrow> env_files \<Rightarrow> ((string \<times> string) option \<times> env_files) option" where
  "generate_secrets tok force write_env fs =
     (if env_file fs \<noteq> None \<and> \<not> force then Some (None, fs)
      else case generate_secure_secret tok 0 of
        None \<Rightarrow> None
      | Some (secret_key, n) \<Rightarrow>
          (case generate_secure_secret tok n of
             None \<Rightarrow> None
           | Some (jwt_secret, _) \<Rightarrow>
               Some (Some (secret_key, jwt_secret),
                 if write_env then
                   fs\<lparr>env_file := Some (join_on (CHR 0x0A) (rewrite_env secret_key jwt_secret (split_lines [] (env_content fs))) @ nl)\<rparr>
                 else fs)))"

section \<open>The health check\<close>

datatype check_line = Checked string bool | Skipped string

fun passed :: "check_line \<Rightarrow> bool" where
  "passed (Checked d ok) = ok"
| "passed (Skipped d) = True"

text \<open>What each probe of the stack answers; an exception is a value.\<close>

record stack =
  ck_python :: "nat \<times> nat"
  ck_imports :: bool
  ck_connect :: bool
  ck_version :: "py_error + string option"
  ck_tables :: "py_error + string list"
  ck_indexes :: "py_error + string list"
  ck_head :: "py_error + string option"
  ck_has_alembic :: "py_error + bool"
  ck_db_rev :: "py_error + string option"
  ck_extension :: "py_error + bool"
  ck_hypertable :: "py_error + string option"
  ck_ping :: "py_error + bool"
  ck_counts :: "py_error + nat \<times> nat \<times> nat"
  ck_factory :: bool

definition EXPECTED_TABLES :: "string list" where
  "EXPECTED_TABLES = [''users'', ''refresh_tokens'', ''password_reset_tokens'', ''nodes'', ''sensor_readings'',
     ''hourly_agg'', ''alerts'', ''system_settings'', ''audit_logs'']"

definition REQUIRED_INDEXES :: "string list" where
  "REQUIRED_INDEXES = [''idx_readings_node_time'', ''idx_readings_time'']"

definition SEED_TABLES :: "string list" where "SEED_TABLES = [''users'', ''nodes'', ''system_settings'']"

definition mentions :: "string \<Rightarrow> string \<Rightarrow> bool" where
  "mentions needle s = list_ex (starts needle) (suffixes s)"

definition environment_section :: "stack \<Rightarrow> check_line list" where
  "environment_section st =
     [Checked ''Python >= 3.12'' (3 < fst (ck_python st) \<or> fst (ck_python st) = 3 \<and> 12 \<le> snd (ck_python st)),
      Checked ''Model imports'' (ck_imports st)]"

text \<open>A version query that raises fails the connection check, which has passed already, once more.\<close>

definition database_section :: "stack \<Rightarrow> check_line list" where
  "database_section st =
     (if \<not> ck_connect st then [Checked ''PostgreSQL connection'' False]
      else Checked ''PostgreSQL connection'' True #
        (case ck_version st of
           Inl e \<Rightarrow> [Checked ''PostgreSQL connection'' False]
         | Inr v \<Rightarrow> [Checked ''PostgreSQL version'' (mentions ''PostgreSQL'' (case v of None \<Rightarrow> [] | Some s \<Rightarrow> s))]))"

definition missing_tables :: "stack \<Rightarrow> string list" where
  "missing_tables st =
     (if \<not> ck_connect st then []
      else case ck_tables st of Inl e \<Rightarrow> EXPECTED_TABLES | Inr ts \<Rightarrow> filter (\<lambda>t. t \<notin> set ts) EXPECTED_TABLES)"

definition tables_section :: "stack \<Rightarrow> check_line list" where
  "tables_section st =
     (if \<not> ck_connect st then [Skipped ''Table checks'']
      else [Checked ''All tables exist'' (missing_tables st = [])])"

definition indexes_section :: "stack \<Rightarrow> check_line list" where
  "indexes_section st =
     (if \<not> ck_connect st \<or> missing_tables st \<noteq> [] then [Skipped ''Sensor reading index checks'']
      else [Checked ''Sensor reading indexes''
              (case ck_indexes st of Inl e \<Rightarrow> False | Inr is \<Rightarrow> set REQUIRED_INDEXES \<subseteq> set is)])"

definition alembic_section :: "stack \<Rightarrow> check_line list" where
  "alembic_section st =
     (if \<not> ck_connect st then [Skipped ''Alembic check'']
      else [Checked ''Alembic migration applied''
              (case (ck_head st, ck_has_alembic st) of
                 (Inr head, Inr True) \<Rightarrow> (case ck_db_rev st of Inl e \<Rightarrow> False | Inr v \<Rightarrow> v = head)
               | _ \<Rightarrow> False)])"

definition hypertable_section :: "stack \<Rightarrow> check_line list" where
  "hypertable_section st =
     (if \<not> ck_connect st then [Skipped ''Hypertable check'']
      else [Checked ''sensor_readings is a hypertable''
              (case ck_extension st of
                 Inr True \<Rightarrow> (case ck_hypertable st of Inl e \<Rightarrow> False | Inr t \<Rightarrow> t = Some ''sensor_readings'')
               | _ \<Rightarrow> False)])"

definition redis_section :: "stack \<Rightarrow> check_line list" where
  "redis_section st = [Checked ''Redis reachable'' (case ck_ping st of Inl e \<Rightarrow> False | Inr pong \<Rightarrow> pong)]"

definition seed_section :: "string \<Rightarrow> stack \<Rightarrow> check_line list" where
  "seed_section app_env st =
     (if app_env \<noteq> ''development'' then [Skipped ''Seed checks'']
      else if \<not> ck_connect st then [Skipped ''Seed checks'']
      else if list_ex (\<lambda>t. t \<in> set (missing_tables st)) SEED_TABLES then [Skipped ''Seed checks'']
      else case ck_counts st of
        Inl e \<Rightarrow> [Checked ''Seed data queries'' False]
      | Inr (admins, sample_nodes, rows) \<Rightarrow>
          [Checked ''Admin user exists'' (0 < admins), Checked ''Sample node exists'' (0 < sample_nodes),
           Checked ''Default settings seeded'' (3 \<le> rows)])"

definition factory_section :: "stack \<Rightarrow> check_line list" where
  "factory_section st = [Checked ''App factory'' (ck_factory st)]"

text \<open>\<open>main\<close>: an unreadable configuration ends it before any check.\<close>

definition check_health :: "'e + config_values \<Rightarrow> stack \<Rightarrow> bool \<times> check_line list" where
  "check_health loaded st =
     (case loaded of
        Inl e \<Rightarrow> (False, [])
      | Inr cfg \<Rightarrow>
          (let ls = environment_section st @ database_section st @ tables_section st @ indexes_section st @
             alembic_section st @ hypertable_section st @ redis_section st @ seed_section (cf_app_env cfg) st @
             factory_section st
           in (list_all passed ls, ls)))"

section \<open>The verification script\<close>

text \<open>\<open>pytest_exit\<close> is \<open>None\<close> when the suite runs into its time limit.\<close>

definition check_migrations :: "stack \<Rightarrow> bool" where
  "check_migrations st =
     (case (ck_head st, ck_connect st, ck_db_rev st) of (Inr head, True, Inr v) \<Rightarrow> v = head | _ \<Rightarrow> False)"

definition check_tests :: "bool \<Rightarrow> int option \<Rightarrow> bool" where
  "check_tests pytest_installed pytest_exit = (pytest_installed \<and> pytest_exit = Some 0)"

definition verify :: "bool \<Rightarrow> 'e + config_values \<Rightarrow> stack \<Rightarrow> bool \<Rightarrow> int option \<Rightarrow> int \<times> (string \<times> bool option) list" where
  "verify full loaded st pytest_installed pytest_exit =
     (let results =
        [(''PostgreSQL'', Some (case loaded of Inl e \<Rightarrow> False | Inr cfg \<Rightarrow> ck_connect st)),
         (''Migrations'', Some (case loaded of Inl e \<Rightarrow> False | Inr cfg \<Rightarrow> check_migrations st)),
         (''Health'', Some (fst (check_health loaded st))),
         (''Tests'', if full then Some (check_tests pytest_installed pytest_exit) else None)]
      in (if list_all (\<lambda>(_, r). r \<noteq> Some False) results then 0 else 1, results))"

section \<open>The secrets pass the guards\<close>

lemma strong_token_passes: "strong_token s \<Longrightarrow> \<not> is_weak_secret s True"
  by (simp add: strong_token_def is_weak_secret_def)

lemma generate_secure_secret_strong:
  assumes "generate_secure_secret tok n = Some (s, m)"
  shows "strong_token s"
proof -
  have "strong_token (fst r)" if "generate_secure_secret tok n = Some r" for r
    by (rule generate_secure_secret.raw_induct [of "\<lambda>_ _ r. strong_token (fst r)", OF _ that]) (auto split: if_splits)
  from this [OF assms] show ?thesis by simp
qed

lemma generate_secure_secret_ends:
  assumes "strong_token (tok k)" "n \<le> k"
  shows "\<exists>s m. generate_secure_secret tok n = Some (s, m) \<and> m \<le> Suc k"
  using assms(2)
proof (induction rule: inc_induct)
  case base
  then show ?case using assms(1) by (subst generate_secure_secret.simps) simp
next
  case (step n)
  then show ?case by (subst generate_secure_secret.simps) (cases "strong_token (tok n)"; simp)
qed

lemma starts_append [simp]: "starts p (p @ s)" by (simp add: starts_def)

lemma secret_lines_differ: "starts SECRET_LINE (JWT_LINE @ s) = False" "starts JWT_LINE (SECRET_LINE @ s) = False"
  by (simp_all add: starts_def SECRET_LINE_def JWT_LINE_def)

lemma starts_one: "starts SECRET_LINE l \<Longrightarrow> starts JWT_LINE l = False"
  by (cases l) (auto simp: starts_def SECRET_LINE_def JWT_LINE_def)

lemma rewrite_env_exact:
  "filter (starts SECRET_LINE) (rewrite_env s j ls) =
     replicate (max 1 (length (filter (starts SECRET_LINE) ls))) (SECRET_LINE @ s)"
  "filter (starts JWT_LINE) (rewrite_env s j ls) =
     replicate (max 1 (length (filter (starts JWT_LINE) ls))) (JWT_LINE @ j)"
  "filter (\<lambda>l. \<not> starts SECRET_LINE l \<and> \<not> starts JWT_LINE l) (rewrite_env s j ls) =
     filter (\<lambda>l. \<not> starts SECRET_LINE l \<and> \<not> starts JWT_LINE l) ls"
proof -
  let ?f = "\<lambda>l. if starts SECRET_LINE l then SECRET_LINE @ s else if starts JWT_LINE l then JWT_LINE @ j else l"
  have "filter (starts SECRET_LINE) (map ?f ls) = replicate (length (filter (starts SECRET_LINE) ls)) (SECRET_LINE @ s)"
    "filter (starts JWT_LINE) (map ?f ls) = replicate (length (filter (starts JWT_LINE) ls)) (JWT_LINE @ j)"
    "filter (\<lambda>l. \<not> starts SECRET_LINE l \<and> \<not> starts JWT_LINE l) (map ?f ls) =
     filter (\<lambda>l. \<not> starts SECRET_LINE l \<and> \<not> starts JWT_LINE l) ls"
    by (induction ls) (auto simp: secret_lines_differ starts_one)
  moreover have "list_ex (starts p) ls \<longleftrightarrow> filter (starts p) ls \<noteq> []" for p
    by (auto simp: list_ex_iff filter_empty_conv)
  ultimately show "filter (starts SECRET_LINE) (rewrite_env s j ls) =
     replicate (max 1 (length (filter (starts SECRET_LINE) ls))) (SECRET_LINE @ s)"
  "filter (starts JWT_LINE) (rewrite_env s j ls) =
     replicate (max 1 (length (filter (starts JWT_LINE) ls))) (JWT_LINE @ j)"
  "filter (\<lambda>l. \<not> starts SECRET_LINE l \<and> \<not> starts JWT_LINE l) (rewrite_env s j ls) =
     filter (\<lambda>l. \<not> starts SECRET_LINE l \<and> \<not> starts JWT_LINE l) ls"
    by (auto simp: rewrite_env_def secret_lines_differ max_def Suc_le_eq)
qed

text \<open>
  The secret generator ends as soon as the random source gives two strong tokens, and what it writes
  passes the guards of the configuration: both secrets are strong and go to the file, every line for
  either secret is replaced (one is added when there was none), and every other line is kept in
  order.  An existing file is never touched without \<open>--force\<close>.
\<close>

theorem generated_secrets_deployable:
  assumes "strong_token (tok i)" "strong_token (tok k)" "i < k"
  shows "if env_file fs \<noteq> None \<and> \<not> force then generate_secrets tok force True fs = Some (None, fs)
    else \<exists>s j ls. generate_secrets tok force True fs =
        Some (Some (s, j), fs\<lparr>env_file := Some (join_on (CHR 0x0A) ls @ nl)\<rparr>) \<and>
      \<not> is_weak_secret s True \<and> \<not> is_weak_secret j True \<and>
      (let old = split_lines [] (env_content fs); rest = (\<lambda>l. \<not> starts SECRET_LINE l \<and> \<not> starts JWT_LINE l) in
        filter (starts SECRET_LINE) ls = replicate (max 1 (length (filter (starts SECRET_LINE) old))) (SECRET_LINE @ s) \<and>
        filter (starts JWT_LINE) ls = replicate (max 1 (length (filter (starts JWT_LINE) old))) (JWT_LINE @ j) \<and>
        filter rest ls = filter rest old)"
proof -
  obtain s n where s: "generate_secure_secret tok 0 = Some (s, n)" "n \<le> Suc i"
    using generate_secure_secret_ends [of tok i 0] assms(1) by auto
  with assms(3) have "n \<le> k" by simp
  then obtain j m where j: "generate_secure_secret tok n = Some (j, m)"
    using generate_secure_secret_ends [of tok k n] assms(2) by auto
  have "\<not> is_weak_secret s True" "\<not> is_weak_secret j True"
    using strong_token_passes generate_secure_secret_strong s(1) j by blast+
  then show ?thesis
    by (auto simp: generate_secrets_def s(1) j rewrite_env_exact Let_def)
qed

section \<open>What a passing check vouches for\<close>

definition seed_sound :: "stack \<Rightarrow> bool" where
  "seed_sound st \<longleftrightarrow>
     (case ck_counts st of Inl e \<Rightarrow> False | Inr (admins, sample_nodes, rows) \<Rightarrow> 0 < admins \<and> 0 < sample_nodes \<and> 3 \<le> rows)"

definition stack_sound :: "string \<Rightarrow> stack \<Rightarrow> bool" where
  "stack_sound app_env st \<longleftrightarrow>
     (3 < fst (ck_python st) \<or> fst (ck_python st) = 3 \<and> 12 \<le> snd (ck_python st)) \<and> ck_imports st \<and> ck_connect st \<and>
     (\<exists>v. ck_version st = Inr (Some v) \<and> mentions ''PostgreSQL'' v) \<and>
     (\<exists>ts. ck_tables st = Inr ts \<and> set EXPECTED_TABLES \<subseteq> set ts) \<and>
     (\<exists>ns. ck_indexes st = Inr ns \<and> set REQUIRED_INDEXES \<subseteq> set ns) \<and>
     ck_has_alembic st = Inr True \<and> (\<exists>h. ck_head st = Inr h \<and> ck_db_rev st = Inr h) \<and>
     ck_extension st = Inr True \<and> ck_hypertable st = Inr (Some ''sensor_readings'') \<and>
     ck_ping st = Inr True \<and> ck_factory st \<and> (if app_env = ''development'' then seed_sound st else True)"

lemma mentions_Nil: "mentions ''PostgreSQL'' [] = False" by (simp add: mentions_def starts_def)

lemma version_iff:
  "list_all passed (database_section st) \<longleftrightarrow>
     ck_connect st \<and> (\<exists>v. ck_version st = Inr (Some v) \<and> mentions ''PostgreSQL'' v)"
  by (auto simp: database_section_def mentions_Nil split: sum.splits option.splits)

lemma tables_iff:
  "ck_connect st \<Longrightarrow> missing_tables st = [] \<longleftrightarrow> (\<exists>ts. ck_tables st = Inr ts \<and> set EXPECTED_TABLES \<subseteq> set ts)"
  by (auto simp: missing_tables_def filter_empty_conv split: sum.splits) (simp_all add: EXPECTED_TABLES_def)

lemma sections_iff:
  assumes "ck_connect st" "missing_tables st = []"
  shows "list_all passed (indexes_section st) \<longleftrightarrow> (\<exists>ns. ck_indexes st = Inr ns \<and> set REQUIRED_INDEXES \<subseteq> set ns)"
    and "list_all passed (alembic_section st) \<longleftrightarrow>
      ck_has_alembic st = Inr True \<and> (\<exists>h. ck_head st = Inr h \<and> ck_db_rev st = Inr h)"
    and "list_all passed (hypertable_section st) \<longleftrightarrow>
      ck_extension st = Inr True \<and> ck_hypertable st = Inr (Some ''sensor_readings'')"
    and "list_all passed (seed_section app_env st) \<longleftrightarrow> (if app_env = ''development'' then seed_sound st else True)"
    and "list_all passed (redis_section st) \<longleftrightarrow> ck_ping st = Inr True"
  using assms
  by (auto simp: indexes_section_def alembic_section_def hypertable_section_def seed_section_def seed_sound_def
      redis_section_def SEED_TABLES_def split: sum.splits bool.splits)

lemma check_health_exact: "fst (check_health (Inr cfg) st) \<longleftrightarrow> stack_sound (cf_app_env cfg) st"
proof (cases "ck_connect st \<and> missing_tables st = []")
  case True
  then have "ck_connect st" "missing_tables st = []" by auto
  moreover have "\<exists>ts. ck_tables st = Inr ts \<and> set EXPECTED_TABLES \<subseteq> set ts" using True tables_iff by blast
  ultimately show ?thesis
    by (simp add: check_health_def Let_def version_iff sections_iff stack_sound_def)
      (auto simp: environment_section_def tables_section_def factory_section_def)
next
  case False
  then have "\<not> stack_sound (cf_app_env cfg) st" using tables_iff by (auto simp: stack_sound_def)
  moreover have "\<not> list_all passed (database_section st @ tables_section st)"
    using False by (auto simp: database_section_def tables_section_def)
  ultimately show ?thesis by (auto simp: check_health_def Let_def)
qed

lemma sound_migrations: "stack_sound app_env st \<Longrightarrow> ck_connect st \<and> check_migrations st"
  by (auto simp: stack_sound_def check_migrations_def)

text \<open>
  The verification script exits with 0 exactly when the stack is sound: the configuration loads,
  Python is recent enough, all nine tables, both indexes and the hypertable are there, the database is
  at the migration head, Redis answers, the application can be built, in development the seed data
  are present, and with \<open>--full\<close> the tests ran and passed.  No skipped section can hide a fault.
\<close>

theorem verify_exact:
  "fst (verify full loaded st pytest_installed pytest_exit) = 0 \<longleftrightarrow>
     (\<exists>cfg. loaded = Inr cfg \<and> stack_sound (cf_app_env cfg) st \<and>
        (if full then pytest_installed \<and> pytest_exit = Some 0 else True))"
proof (cases loaded)
  case (Inl e)
  then show ?thesis by (simp add: verify_def check_health_def)
next
  case (Inr cfg)
  then show ?thesis
    using sound_migrations [of "cf_app_env cfg" st]
    by (cases full) (auto simp: verify_def Let_def check_health_exact check_tests_def)
qed

section \<open>The seed and the check\<close>

text \<open>What the three queries of the seed section count.\<close>

definition seed_counts :: "db \<Rightarrow> nat \<times> nat \<times> nat" where
  "seed_counts d =
     (count_where (\<lambda>u. u_username u = ''admin'' \<and> u_role u = ''admin'') (users d),
      count_where (\<lambda>n. n_node_id n = ''ESP32-01'') (nodes d), length (settings d))"

lemma seeded_counts:
  assumes "accounts_ok d" "seed con cfg env force now salt1 salt2 d = (Inr (), d')"
  shows "3 \<le> length (settings d')" "0 < count_where (\<lambda>n. n_node_id n = ''ESP32-01'') (nodes d')"
proof -
  note left = seed_leaves [OF assms]
  have "card (set (map fst SEED_SETTINGS)) \<le> card (set (map g_key (settings d')))"
    using left(3) by (intro card_mono) auto
  also have "\<dots> \<le> length (settings d')" using card_length [of "map g_key (settings d')"] by simp
  finally show "3 \<le> length (settings d')" by (simp add: SEED_SETTINGS_def)
  show "0 < count_where (\<lambda>n. n_node_id n = ''ESP32-01'') (nodes d')"
    using left(4) by (auto simp: count_where_0 simp flip: neq0_conv)
qed

lemma seeded_admin:
  assumes "accounts_ok d" "seed con cfg env force now salt1 salt2 d = (Inr (), d')" "admin_password env \<noteq> None" "admin_reserved d"
  shows "\<exists>u \<in> set (users d'). u_username u = ''admin'' \<and> u_role u = ''admin''"
  using seed_leaves(1) [OF assms(1,2)] seed_admin_reserved [OF assms(2,4)] assms(3)
  by (auto simp: admin_there_def admin_reserved_def)

lemma seeded_sound:
  assumes "accounts_ok d" "seed con cfg env force now salt1 salt2 d = (Inr (), d')" "ck_counts st = Inr (seed_counts d')"
  shows "seed_sound st \<longleftrightarrow> (\<exists>u \<in> set (users d'). u_username u = ''admin'' \<and> u_role u = ''admin'')"
  using seeded_counts [OF assms(1,2)] assms(3)
  by (auto simp: seed_sound_def seed_counts_def count_where_0 simp flip: neq0_conv)

text \<open>
  On a seeded development database the seed section of the health check passes exactly when an
  account named \<open>admin\<close> has the role: so it passes after a seed with \<open>SEED_ADMIN_PASSWORD\<close> unless
  somebody else holds that name, and fails after the documented set-up in which \<open>create_admin.py\<close>
  makes the administrator under another name.
\<close>

theorem seed_meets_health_check:
  assumes "accounts_ok d" "seed con cfg env force now salt1 salt2 d = (Inr (), d')"
    and "ck_connect st" "missing_tables st = []" "ck_counts st = Inr (seed_counts d')"
  shows "(list_all passed (seed_section ''development'' st) \<longleftrightarrow>
      (\<exists>u \<in> set (users d'). u_username u = ''admin'' \<and> u_role u = ''admin'')) \<and>
    (admin_password env \<noteq> None \<and> admin_reserved d \<longrightarrow> list_all passed (seed_section ''development'' st))"
  using seeded_sound [OF assms(1,2,5)] seeded_admin [OF assms(1,2)] sections_iff(4) [OF assms(3,4), of "''development''"]
  by auto

section \<open>Witnesses\<close>

definition demo_secret :: string where "demo_secret = ''abcdefghijklmnopqrstuvwxyz0123456789-_ABCDEFGHIJ''"

lemma demo_secret_strong: "strong_token demo_secret"
  by code_simp

theorem generated_secrets_deployable_witness:
  "\<exists>s j ls. generate_secrets (\<lambda>n. if n = 0 then ''weak'' else demo_secret) False True
      \<lparr>env_file = None, example_file = Some (''A=1'' @ nl @ ''SECRET_KEY=change-me'' @ nl)\<rparr> =
    Some (Some (s, j), \<lparr>env_file = Some (join_on (CHR 0x0A) ls @ nl),
       example_file = Some (''A=1'' @ nl @ ''SECRET_KEY=change-me'' @ nl)\<rparr>)"
  using generated_secrets_deployable [of "\<lambda>n. if n = 0 then ''weak'' else demo_secret" 1 2
    "\<lparr>env_file = None, example_file = Some (''A=1'' @ nl @ ''SECRET_KEY=change-me'' @ nl)\<rparr>" False] demo_secret_strong
  by auto

definition demo_environ :: seed_environ where
  "demo_environ = \<lparr>se_admin_password = Some ''pw'', se_bootstrap = \<lparr>bs_username = [], bs_password = [], bs_email = []\<rparr>\<rparr>"

definition demo_stack :: "db \<Rightarrow> stack" where
  "demo_stack d =
     \<lparr>ck_python = (3, 12), ck_imports = True, ck_connect = True, ck_version = Inr (Some ''PostgreSQL 16''),
      ck_tables = Inr EXPECTED_TABLES, ck_indexes = Inr REQUIRED_INDEXES, ck_head = Inr (Some ''0009''),
      ck_has_alembic = Inr True, ck_db_rev = Inr (Some ''0009''), ck_extension = Inr True,
      ck_hypertable = Inr (Some ''sensor_readings''), ck_ping = Inr True, ck_counts = Inr (seed_counts d), ck_factory = True\<rparr>"

lemma demo_seed_runs:
  "seed demo_console CONFIG_DEFAULTS demo_environ False 5 ''a'' ''b'' empty_db =
     (Inr (), snd (seed demo_console CONFIG_DEFAULTS demo_environ False 5 ''a'' ''b'' empty_db))"
proof -
  have creds: "bootstrap_admin_credentials \<lparr>bs_username = [], bs_password = [], bs_email = []\<rparr> = None" by code_simp
  have "fst (seed demo_console CONFIG_DEFAULTS demo_environ False 5 ''a'' ''b'' empty_db) = Inr ()"
    by (simp add: demo_environ_def seed_def seed_admin_def seed_bootstrap_def creds admin_password_def insert_user_def
        new_user_def Let_def CONFIG_DEFAULTS_def empty_db_def select_one_def)
  then show ?thesis by (simp add: prod_eq_iff)
qed

theorem seed_meets_health_check_witness:
  "list_all passed (seed_section ''development''
     (demo_stack (snd (seed demo_console CONFIG_DEFAULTS demo_environ False 5 ''a'' ''b'' empty_db))))"
proof -
  have "accounts_ok empty_db" "admin_reserved empty_db" by (simp_all add: accounts_ok_def admin_reserved_def empty_db_def)
  moreover have "ck_connect (demo_stack x)" "missing_tables (demo_stack x) = []" "ck_counts (demo_stack x) = Inr (seed_counts x)" for x
    by (simp_all add: demo_stack_def missing_tables_def)
  moreover have "admin_password demo_environ \<noteq> None" by (simp add: demo_environ_def admin_password_def)
  ultimately show ?thesis using seed_meets_health_check [OF _ demo_seed_runs] by blast
qed

end
