(* ===== verification/Migrations.thy ===== *)
theory Migrations imports Models begin

text \<open>
  \<open>src/migrations/versions/\<close>: the nine revisions as lists of schema operations, the operations as
  PostgreSQL carries them out (an error aborts the revision and leaves the schema as it was), and the
  tables the ORM classes of \<open>src/models/\<close> declare, named by the convention of \<open>src/models/base.py\<close>.
\<close>

section \<open>Schemas\<close>

datatype col_type = Varchar nat | TextType | IntegerType | SmallIntType | RealType | DoubleType | BooleanType | TimestampTz | JsonB

record column =
  co_name :: string
  co_type :: col_type
  co_null :: bool
  co_default :: "string option"

datatype table_constraint =
    PrimaryKey string "string list"
  | ForeignKey string "string list" string "string list" string
  | CheckC string string

text \<open>An index column is a name and whether it is descending.\<close>

record index =
  ix_name :: string
  ix_columns :: "(string \<times> bool) list"
  ix_unique :: bool
  ix_where :: "string option"

record table =
  tb_columns :: "column list"
  tb_constraints :: "table_constraint list"
  tb_indexes :: "index list"
  tb_hypertable :: bool

record schema =
  sc_tables :: "(string \<times> table) list"
  sc_timescaledb :: bool

definition empty_schema :: schema where "empty_schema = \<lparr>sc_tables = [], sc_timescaledb = False\<rparr>"

definition pk_names :: "table \<Rightarrow> string list" where
  "pk_names t = concat (map (\<lambda>c. case c of PrimaryKey n cs \<Rightarrow> [n] | _ \<Rightarrow> []) (tb_constraints t))"

definition references_to :: "table \<Rightarrow> string list" where
  "references_to t = concat (map (\<lambda>c. case c of ForeignKey n cs ref rcs act \<Rightarrow> [ref] | _ \<Rightarrow> []) (tb_constraints t))"

text \<open>Tables and indexes share one name space; a primary key is an index.\<close>

definition index_names :: "schema \<Rightarrow> string list" where
  "index_names s = concat (map (\<lambda>(n, t). map ix_name (tb_indexes t)) (sc_tables s))"

definition relation_names :: "schema \<Rightarrow> string list" where
  "relation_names s = map fst (sc_tables s) @ index_names s @ concat (map (\<lambda>(n, t). pk_names t) (sc_tables s))"

definition constraint_name :: "table_constraint \<Rightarrow> string" where
  "constraint_name c = (case c of PrimaryKey n _ \<Rightarrow> n | ForeignKey n _ _ _ _ \<Rightarrow> n | CheckC n _ \<Rightarrow> n)"

definition on_table :: "string \<Rightarrow> (table \<Rightarrow> table option) \<Rightarrow> schema \<Rightarrow> schema option" where
  "on_table name f s =
     (case map_of (sc_tables s) name of
        None \<Rightarrow> None
      | Some t \<Rightarrow>
          (case f t of
             None \<Rightarrow> None
           | Some t' \<Rightarrow> Some (s\<lparr>sc_tables := map (\<lambda>(n, x). if n = name then (n, t') else (n, x)) (sc_tables s)\<rparr>)))"

section \<open>Operations\<close>

text \<open>
  \<open>op.f\<close> takes a name as it is; the name of a check constraint goes through the naming convention.
\<close>

datatype op =
    CreateTable string "column list" "table_constraint list"
  | DropTable string
  | CreateIndex string string "(string \<times> bool) list" bool "string option"
  | DropIndex string
  | SetDefault string string "string option"
  | SetType string string col_type
  | CreateCheck string string string
  | DropCheck string string
  | CreateExtension
  | CreateHypertable string
  | RecreatePlain string

definition ck_name :: "string \<Rightarrow> string \<Rightarrow> string" where
  "ck_name tab n = tab @ ''_'' @ n @ ''_check''"

text \<open>
  \<open>holds n\<close> says whether the rows there satisfy the constraint or column type named \<open>n\<close>;
  \<open>like_name\<close> is the name PostgreSQL gives to a copied index or key.  \<open>CREATE TABLE (LIKE \<dots>
  INCLUDING ALL)\<close> copies columns, checks, keys and indexes, and no foreign key.
\<close>

definition plain_copy :: "(string \<Rightarrow> string) \<Rightarrow> table \<Rightarrow> table" where
  "plain_copy like_name t =
     \<lparr>tb_columns = tb_columns t,
      tb_constraints = concat (map (\<lambda>c. case c of PrimaryKey n cs \<Rightarrow> [PrimaryKey (like_name n) cs]
                                       | ForeignKey _ _ _ _ _ \<Rightarrow> [] | CheckC n e \<Rightarrow> [CheckC n e]) (tb_constraints t)),
      tb_indexes = map (\<lambda>i. i\<lparr>ix_name := like_name (ix_name i)\<rparr>) (tb_indexes t),
      tb_hypertable = False\<rparr>"

definition change_column :: "string \<Rightarrow> (column \<Rightarrow> column) \<Rightarrow> table \<Rightarrow> table option" where
  "change_column name f t =
     (if name \<in> set (map co_name (tb_columns t))
      then Some (t\<lparr>tb_columns := update_where (\<lambda>c. co_name c = name) f (tb_columns t)\<rparr>) else None)"

fun run_op :: "(string \<Rightarrow> bool) \<Rightarrow> (string \<Rightarrow> string) \<Rightarrow> op \<Rightarrow> schema \<Rightarrow> schema option" where
  "run_op holds like_name (CreateTable n cs ks) s =
     (let t = \<lparr>tb_columns = cs, tb_constraints = ks, tb_indexes = [], tb_hypertable = False\<rparr> in
      if n \<in> set (relation_names s) \<or> list_ex (\<lambda>p. p \<in> set (relation_names s)) (pk_names t)
         \<or> \<not> list_all (\<lambda>ref. ref \<in> set (map fst (sc_tables s))) (references_to t) then None
      else Some (s\<lparr>sc_tables := sc_tables s @ [(n, t)]\<rparr>))"
| "run_op holds like_name (DropTable n) s =
     (if n \<notin> set (map fst (sc_tables s)) \<or> list_ex (\<lambda>(m, t). m \<noteq> n \<and> n \<in> set (references_to t)) (sc_tables s) then None
      else Some (s\<lparr>sc_tables := filter (\<lambda>(m, t). m \<noteq> n) (sc_tables s)\<rparr>))"
| "run_op holds like_name (CreateIndex n tab cs uniq cond) s =
     (if n \<in> set (relation_names s) \<or> uniq \<and> \<not> holds n then None
      else on_table tab (\<lambda>t. if list_all (\<lambda>(c, desc). c \<in> set (map co_name (tb_columns t))) cs
        then Some (t\<lparr>tb_indexes := tb_indexes t @ [\<lparr>ix_name = n, ix_columns = cs, ix_unique = uniq, ix_where = cond\<rparr>]\<rparr>)
        else None) s)"
| "run_op holds like_name (DropIndex n) s =
     (if n \<notin> set (index_names s) then None
      else Some (s\<lparr>sc_tables := map (\<lambda>(m, t). (m, t\<lparr>tb_indexes := filter (\<lambda>i. ix_name i \<noteq> n) (tb_indexes t)\<rparr>)) (sc_tables s)\<rparr>))"
| "run_op holds like_name (SetDefault tab c v) s = on_table tab (change_column c (\<lambda>x. x\<lparr>co_default := v\<rparr>)) s"
| "run_op holds like_name (SetType tab c ty) s =
     (if \<not> holds (tab @ ''.'' @ c) then None else on_table tab (change_column c (\<lambda>x. x\<lparr>co_type := ty\<rparr>)) s)"
| "run_op holds like_name (CreateCheck n tab e) s =
     (if \<not> holds n then None
      else on_table tab (\<lambda>t. if ck_name tab n \<in> set (map constraint_name (tb_constraints t)) then None
        else Some (t\<lparr>tb_constraints := tb_constraints t @ [CheckC (ck_name tab n) e]\<rparr>)) s)"
| "run_op holds like_name (DropCheck n tab) s =
     on_table tab (\<lambda>t. if ck_name tab n \<notin> set (map constraint_name (tb_constraints t)) then None
       else Some (t\<lparr>tb_constraints := filter (\<lambda>c. constraint_name c \<noteq> ck_name tab n) (tb_constraints t)\<rparr>)) s"
| "run_op holds like_name CreateExtension s = Some (s\<lparr>sc_timescaledb := True\<rparr>)"
| "run_op holds like_name (CreateHypertable tab) s =
     (if \<not> sc_timescaledb s then None else on_table tab (\<lambda>t. Some (t\<lparr>tb_hypertable := True\<rparr>)) s)"
| "run_op holds like_name (RecreatePlain tab) s =
     (case map_of (sc_tables s) tab of
        None \<Rightarrow> None
      | Some t \<Rightarrow>
          (if list_ex (\<lambda>(m, x). m \<noteq> tab \<and> tab \<in> set (references_to x)) (sc_tables s) then None
           else Some (s\<lparr>sc_tables := filter (\<lambda>(m, x). m \<noteq> tab) (sc_tables s) @ [(tab, plain_copy like_name t)]\<rparr>)))"

text \<open>A revision is one transaction.\<close>

fun run_ops :: "(string \<Rightarrow> bool) \<Rightarrow> (string \<Rightarrow> string) \<Rightarrow> op list \<Rightarrow> schema \<Rightarrow> schema option" where
  "run_ops holds like_name [] s = Some s"
| "run_ops holds like_name (o1 # os) s = (case run_op holds like_name o1 s of None \<Rightarrow> None | Some s' \<Rightarrow> run_ops holds like_name os s')"

section \<open>Revision 0001\<close>

definition col :: "string \<Rightarrow> col_type \<Rightarrow> column" where
  "col n ty = \<lparr>co_name = n, co_type = ty, co_null = False, co_default = None\<rparr>"

definition col_null :: "string \<Rightarrow> col_type \<Rightarrow> column" where
  "col_null n ty = \<lparr>co_name = n, co_type = ty, co_null = True, co_default = None\<rparr>"

definition col_dflt :: "string \<Rightarrow> col_type \<Rightarrow> string \<Rightarrow> column" where
  "col_dflt n ty v = \<lparr>co_name = n, co_type = ty, co_null = False, co_default = Some v\<rparr>"

definition create_nodes :: op where
  "create_nodes = CreateTable ''nodes''
     [col ''node_id'' (Varchar 50), col_null ''name'' (Varchar 100), col_null ''location_name'' (Varchar 200),
      col_null ''lat'' DoubleType, col_null ''lon'' DoubleType, col_null ''firmware_version'' (Varchar 50),
      col ''reading_interval'' IntegerType, col ''is_active'' BooleanType, col_dflt ''registered_at'' TimestampTz ''now()'',
      col_null ''last_seen'' TimestampTz]
     [PrimaryKey ''nodes_pkey'' [''node_id'']]"

definition create_users :: op where
  "create_users = CreateTable ''users''
     [col ''id'' IntegerType, col ''username'' (Varchar 50), col ''email'' (Varchar 255), col ''password_hash'' (Varchar 255),
      col ''role'' (Varchar 20), col ''notification_prefs'' JsonB, col ''is_active'' BooleanType,
      col_null ''last_login_at'' TimestampTz, col_dflt ''created_at'' TimestampTz ''now()'', col_dflt ''updated_at'' TimestampTz ''now()'']
     [PrimaryKey ''users_pkey'' [''id'']]"

definition create_alerts :: op where
  "create_alerts = CreateTable ''alerts''
     [col ''alert_id'' IntegerType, col ''node_id'' (Varchar 50), col ''parameter'' (Varchar 50), col ''value'' RealType,
      col ''threshold'' RealType, col ''severity'' (Varchar 20), col_null ''message'' TextType,
      col_dflt ''triggered_at'' TimestampTz ''now()'', col_null ''acknowledged_at'' TimestampTz, col_null ''acknowledged_by'' IntegerType]
     [ForeignKey ''alerts_acknowledged_by_fkey'' [''acknowledged_by''] ''users'' [''id''] ''SET NULL'',
      ForeignKey ''alerts_node_id_fkey'' [''node_id''] ''nodes'' [''node_id''] ''CASCADE'',
      PrimaryKey ''alerts_pkey'' [''alert_id'']]"

definition create_hourly_agg :: op where
  "create_hourly_agg = CreateTable ''hourly_agg''
     [col ''bucket'' TimestampTz, col ''node_id'' (Varchar 50), col_null ''avg_temperature'' RealType, col_null ''avg_humidity'' RealType,
      col_null ''avg_pm25'' RealType, col_null ''avg_pm10'' RealType, col_null ''max_aqi'' SmallIntType, col_null ''min_aqi'' SmallIntType,
      col_null ''avg_aqi'' RealType, col ''anomaly_count'' IntegerType, col ''reading_count'' IntegerType]
     [ForeignKey ''hourly_agg_node_id_fkey'' [''node_id''] ''nodes'' [''node_id''] ''CASCADE'',
      PrimaryKey ''hourly_agg_pkey'' [''bucket'', ''node_id'']]"

definition create_refresh_tokens :: op where
  "create_refresh_tokens = CreateTable ''refresh_tokens''
     [col ''id'' IntegerType, col ''user_id'' IntegerType, col ''token_hash'' (Varchar 255), col ''expires_at'' TimestampTz,
      col_dflt ''created_at'' TimestampTz ''now()'', col ''revoked'' BooleanType]
     [ForeignKey ''refresh_tokens_user_id_fkey'' [''user_id''] ''users'' [''id''] ''CASCADE'', PrimaryKey ''refresh_tokens_pkey'' [''id'']]"

definition create_sensor_readings :: op where
  "create_sensor_readings = CreateTable ''sensor_readings''
     [col ''time'' TimestampTz, col ''node_id'' (Varchar 50), col_null ''temperature'' RealType, col_null ''humidity'' RealType,
      col_null ''pressure'' RealType, col_null ''voc_ohm'' RealType, col_null ''mq135_ppm'' RealType, col_null ''pm1'' RealType,
      col_null ''pm25'' RealType, col_null ''pm10'' RealType, col_null ''battery_v'' RealType, col_null ''fuzzy_score'' RealType,
      col_null ''aqi'' SmallIntType, col_null ''aqi_category'' (Varchar 40), col_dflt ''is_anomaly'' BooleanType ''false'']
     [ForeignKey ''sensor_readings_node_id_fkey'' [''node_id''] ''nodes'' [''node_id''] ''CASCADE'',
      PrimaryKey ''sensor_readings_pkey'' [''time'', ''node_id'']]"

definition create_system_settings :: op where
  "create_system_settings = CreateTable ''system_settings''
     [col ''key'' (Varchar 100), col ''value'' TextType, col_null ''description'' (Varchar 255), col_dflt ''updated_at'' TimestampTz ''now()'',
      col_null ''updated_by'' IntegerType]
     [ForeignKey ''system_settings_updated_by_fkey'' [''updated_by''] ''users'' [''id''] ''SET NULL'',
      PrimaryKey ''system_settings_pkey'' [''key'']]"

definition upgrade_0001 :: "op list" where
  "upgrade_0001 =
     [create_nodes, create_users,
      CreateIndex ''users_email_idx'' ''users'' [(''email'', False)] True None,
      CreateIndex ''users_username_idx'' ''users'' [(''username'', False)] True None,
      create_alerts,
      CreateIndex ''alerts_node_id_idx'' ''alerts'' [(''node_id'', False)] False None,
      create_hourly_agg, create_refresh_tokens,
      CreateIndex ''refresh_tokens_token_hash_idx'' ''refresh_tokens'' [(''token_hash'', False)] False None,
      CreateIndex ''refresh_tokens_user_id_idx'' ''refresh_tokens'' [(''user_id'', False)] False None,
      create_sensor_readings,
      CreateIndex ''idx_readings_node_time'' ''sensor_readings'' [(''node_id'', False), (''time'', True)] False None,
      CreateIndex ''idx_readings_time'' ''sensor_readings'' [(''time'', True)] False None,
      create_system_settings]"

definition downgrade_0001 :: "op list" where
  "downgrade_0001 =
     [DropTable ''system_settings'', DropIndex ''idx_readings_time'', DropIndex ''idx_readings_node_time'',
      DropTable ''sensor_readings'', DropIndex ''refresh_tokens_user_id_idx'', DropIndex ''refresh_tokens_token_hash_idx'',
      DropTable ''refresh_tokens'', DropTable ''hourly_agg'', DropIndex ''alerts_node_id_idx'', DropTable ''alerts'',
      DropIndex ''users_username_idx'', DropIndex ''users_email_idx'', DropTable ''users'', DropTable ''nodes'']"

section \<open>The later revisions\<close>

definition upgrade_0002 :: "op list" where "upgrade_0002 = [CreateExtension, CreateHypertable ''sensor_readings'']"
definition downgrade_0002 :: "op list" where "downgrade_0002 = [RecreatePlain ''sensor_readings'']"

definition upgrade_0003 :: "op list" where
  "upgrade_0003 = [CreateIndex ''uq_alerts_unacked_node'' ''alerts'' [(''node_id'', False), (''parameter'', False)] True
     (Some ''acknowledged_at IS NULL'')]"
definition downgrade_0003 :: "op list" where "downgrade_0003 = [DropIndex ''uq_alerts_unacked_node'']"

definition SERVER_DEFAULTS :: "(string \<times> string \<times> string) list" where
  "SERVER_DEFAULTS =
     [(''users'', ''role'', quoted ''user''), (''users'', ''notification_prefs'', quoted ''{}'' @ ''::jsonb''), (''users'', ''is_active'', ''true''),
      (''refresh_tokens'', ''revoked'', ''false''), (''nodes'', ''reading_interval'', ''30''), (''nodes'', ''is_active'', ''true''),
      (''hourly_agg'', ''anomaly_count'', ''0''), (''hourly_agg'', ''reading_count'', ''0'')]"

definition upgrade_0004 :: "op list" where
  "upgrade_0004 = map (\<lambda>(tab, c, v). SetDefault tab c (Some v)) SERVER_DEFAULTS"
definition downgrade_0004 :: "op list" where
  "downgrade_0004 = map (\<lambda>(tab, c, v). SetDefault tab c None) SERVER_DEFAULTS"

definition upgrade_0005 :: "op list" where
  "upgrade_0005 = [CreateTable ''audit_logs''
     [col ''id'' IntegerType, col ''entity_type'' (Varchar 50), col ''entity_id'' (Varchar 100), col ''action'' (Varchar 20),
      col_null ''old_value'' TextType, col_null ''new_value'' TextType, col_null ''changed_by'' IntegerType,
      col_dflt ''changed_at'' TimestampTz ''now()'']
     [ForeignKey ''audit_logs_changed_by_fkey'' [''changed_by''] ''users'' [''id''] ''SET NULL'', PrimaryKey ''audit_logs_pkey'' [''id'']]]"
definition downgrade_0005 :: "op list" where "downgrade_0005 = [DropTable ''audit_logs'']"

definition MESSAGE_CHECK :: string where "MESSAGE_CHECK = ''message IS NULL OR LENGTH(message) <= 10000''"

definition upgrade_0006 :: "op list" where
  "upgrade_0006 =
     [CreateIndex ''idx_alerts_unacked_triggered'' ''alerts'' [(''triggered_at'', True)] False (Some ''acknowledged_at IS NULL''),
      CreateCheck ''ck_alerts_message_length'' ''alerts'' MESSAGE_CHECK,
      SetType ''refresh_tokens'' ''token_hash'' (Varchar 64)]"
definition downgrade_0006 :: "op list" where
  "downgrade_0006 =
     [SetType ''refresh_tokens'' ''token_hash'' (Varchar 255), DropCheck ''ck_alerts_message_length'' ''alerts'',
      DropIndex ''idx_alerts_unacked_triggered'']"

definition upgrade_0007 :: "op list" where
  "upgrade_0007 = [CreateIndex ''refresh_tokens_expires_at_idx'' ''refresh_tokens'' [(''expires_at'', False)] False None]"
definition downgrade_0007 :: "op list" where "downgrade_0007 = [DropIndex ''refresh_tokens_expires_at_idx'']"

definition upgrade_0008 :: "op list" where
  "upgrade_0008 =
     [CreateTable ''password_reset_tokens''
        [col ''id'' IntegerType, col ''user_id'' IntegerType, col ''token_hash'' (Varchar 64), col ''expires_at'' TimestampTz,
         col_null ''used_at'' TimestampTz, col_dflt ''created_at'' TimestampTz ''now()'']
        [ForeignKey ''password_reset_tokens_user_id_fkey'' [''user_id''] ''users'' [''id''] ''CASCADE'',
         PrimaryKey ''password_reset_tokens_pkey'' [''id'']],
      CreateIndex ''password_reset_tokens_token_hash_idx'' ''password_reset_tokens'' [(''token_hash'', False)] False None,
      CreateIndex ''password_reset_tokens_expires_at_idx'' ''password_reset_tokens'' [(''expires_at'', False)] False None]"
definition downgrade_0008 :: "op list" where
  "downgrade_0008 =
     [DropIndex ''password_reset_tokens_expires_at_idx'', DropIndex ''password_reset_tokens_token_hash_idx'',
      DropTable ''password_reset_tokens'']"

definition upgrade_0009 :: "op list" where
  "upgrade_0009 = [CreateIndex ''password_reset_tokens_user_id_idx'' ''password_reset_tokens'' [(''user_id'', False)] False None]"
definition downgrade_0009 :: "op list" where "downgrade_0009 = [DropIndex ''password_reset_tokens_user_id_idx'']"

definition UPGRADES :: "op list list" where
  "UPGRADES = [upgrade_0001, upgrade_0002, upgrade_0003, upgrade_0004, upgrade_0005, upgrade_0006, upgrade_0007,
     upgrade_0008, upgrade_0009]"

definition DOWNGRADES :: "op list list" where
  "DOWNGRADES = [downgrade_0001, downgrade_0002, downgrade_0003, downgrade_0004, downgrade_0005, downgrade_0006,
     downgrade_0007, downgrade_0008, downgrade_0009]"

text \<open>The schema at revision \<open>k\<close>, reached from an empty database.\<close>

definition schema_at :: "nat \<Rightarrow> schema option" where
  "schema_at k = run_ops (\<lambda>_. True) id (concat (take k UPGRADES)) empty_schema"

section \<open>The tables the models declare\<close>

datatype key_role = NoKey | Primary | Indexed | UniqueIndexed

text \<open>A mapped column: name, type, nullable, with a server default, its key, the row it references.\<close>

record mapped =
  ma_name :: string
  ma_type :: col_type
  ma_null :: bool
  ma_default :: bool
  ma_key :: key_role
  ma_ref :: "(string \<times> string \<times> string) option"

definition mapped_column :: "string \<Rightarrow> col_type \<Rightarrow> mapped" where
  "mapped_column n ty = \<lparr>ma_name = n, ma_type = ty, ma_null = False, ma_default = False, ma_key = NoKey, ma_ref = None\<rparr>"

abbreviation nullable :: "mapped \<Rightarrow> mapped" where "nullable c \<equiv> c\<lparr>ma_null := True\<rparr>"
abbreviation dflt :: "mapped \<Rightarrow> mapped" where "dflt c \<equiv> c\<lparr>ma_default := True\<rparr>"
abbreviation keyed :: "key_role \<Rightarrow> mapped \<Rightarrow> mapped" where "keyed k c \<equiv> c\<lparr>ma_key := k\<rparr>"
abbreviation refers :: "string \<Rightarrow> string \<Rightarrow> string \<Rightarrow> mapped \<Rightarrow> mapped" where
  "refers tab c act m \<equiv> m\<lparr>ma_ref := Some (tab, c, act)\<rparr>"

text \<open>\<open>NAMING_CONVENTION\<close>.\<close>

definition ix_convention :: "string \<Rightarrow> string \<Rightarrow> string" where "ix_convention tab c = tab @ ''_'' @ c @ ''_idx''"
definition fk_convention :: "string \<Rightarrow> string \<Rightarrow> string" where "fk_convention tab c = tab @ ''_'' @ c @ ''_fkey''"
definition pk_convention :: "string \<Rightarrow> string" where "pk_convention tab = tab @ ''_pkey''"

text \<open>The constraints and indexes that the columns of a class declare, before its \<open>__table_args__\<close>.\<close>

definition declared_constraints :: "string \<Rightarrow> mapped list \<Rightarrow> table_constraint list" where
  "declared_constraints tab cs =
     (let pks = map ma_name (filter (\<lambda>c. ma_key c = Primary) cs) in
      (if pks = [] then [] else [PrimaryKey (pk_convention tab) pks]) @
      concat (map (\<lambda>c. case ma_ref c of None \<Rightarrow> []
        | Some (ref, rc, act) \<Rightarrow> [ForeignKey (fk_convention tab (ma_name c)) [ma_name c] ref [rc] act]) cs))"

definition declared_indexes :: "string \<Rightarrow> mapped list \<Rightarrow> index list" where
  "declared_indexes tab cs =
     map (\<lambda>c. \<lparr>ix_name = ix_convention tab (ma_name c), ix_columns = [(ma_name c, False)],
                ix_unique = (ma_key c = UniqueIndexed), ix_where = None\<rparr>)
       (filter (\<lambda>c. ma_key c = Indexed \<or> ma_key c = UniqueIndexed) cs)"

definition Node_columns :: "mapped list" where
  "Node_columns =
     [keyed Primary (mapped_column ''node_id'' (Varchar 50)), nullable (mapped_column ''name'' (Varchar 100)),
      nullable (mapped_column ''location_name'' (Varchar 200)), nullable (mapped_column ''lat'' DoubleType),
      nullable (mapped_column ''lon'' DoubleType), nullable (mapped_column ''firmware_version'' (Varchar 50)),
      dflt (mapped_column ''reading_interval'' IntegerType), dflt (mapped_column ''is_active'' BooleanType),
      dflt (mapped_column ''registered_at'' TimestampTz), nullable (mapped_column ''last_seen'' TimestampTz)]"

definition User_columns :: "mapped list" where
  "User_columns =
     [keyed Primary (mapped_column ''id'' IntegerType), keyed UniqueIndexed (mapped_column ''username'' (Varchar 50)),
      keyed UniqueIndexed (mapped_column ''email'' (Varchar 255)), mapped_column ''password_hash'' (Varchar 255),
      dflt (mapped_column ''role'' (Varchar 20)), dflt (mapped_column ''notification_prefs'' JsonB),
      dflt (mapped_column ''is_active'' BooleanType), nullable (mapped_column ''last_login_at'' TimestampTz),
      dflt (mapped_column ''created_at'' TimestampTz), dflt (mapped_column ''updated_at'' TimestampTz)]"

definition Alert_columns :: "mapped list" where
  "Alert_columns =
     [keyed Primary (mapped_column ''alert_id'' IntegerType),
      keyed Indexed (refers ''nodes'' ''node_id'' ''CASCADE'' (mapped_column ''node_id'' (Varchar 50))),
      mapped_column ''parameter'' (Varchar 50), mapped_column ''value'' RealType, mapped_column ''threshold'' RealType,
      mapped_column ''severity'' (Varchar 20), nullable (mapped_column ''message'' TextType),
      dflt (mapped_column ''triggered_at'' TimestampTz), nullable (mapped_column ''acknowledged_at'' TimestampTz),
      nullable (refers ''users'' ''id'' ''SET NULL'' (mapped_column ''acknowledged_by'' IntegerType))]"

definition Alert_indexes :: "index list" where
  "Alert_indexes =
     [\<lparr>ix_name = ''uq_alerts_unacked_node'', ix_columns = [(''node_id'', False), (''parameter'', False)], ix_unique = True,
       ix_where = Some ''acknowledged_at IS NULL''\<rparr>,
      \<lparr>ix_name = ''idx_alerts_unacked_triggered'', ix_columns = [(''triggered_at'', True)], ix_unique = False,
       ix_where = Some ''acknowledged_at IS NULL''\<rparr>]"

definition Alert_checks :: "table_constraint list" where
  "Alert_checks = [CheckC (ck_name ''alerts'' ''ck_alerts_message_length'') ''message IS NULL OR LENGTH(message) <= 10000'']"

definition SensorReading_columns :: "mapped list" where
  "SensorReading_columns =
     [mapped_column ''time'' TimestampTz, refers ''nodes'' ''node_id'' ''CASCADE'' (mapped_column ''node_id'' (Varchar 50))] @
     map (\<lambda>n. nullable (mapped_column n RealType))
       [''temperature'', ''humidity'', ''pressure'', ''voc_ohm'', ''mq135_ppm'', ''pm1'', ''pm25'', ''pm10'', ''battery_v'', ''fuzzy_score''] @
     [nullable (mapped_column ''aqi'' SmallIntType), nullable (mapped_column ''aqi_category'' (Varchar 40)),
      dflt (mapped_column ''is_anomaly'' BooleanType)]"

definition SensorReading_indexes :: "index list" where
  "SensorReading_indexes =
     [\<lparr>ix_name = ''idx_readings_node_time'', ix_columns = [(''node_id'', False), (''time'', True)], ix_unique = False, ix_where = None\<rparr>,
      \<lparr>ix_name = ''idx_readings_time'', ix_columns = [(''time'', True)], ix_unique = False, ix_where = None\<rparr>]"

definition HourlyAgg_columns :: "mapped list" where
  "HourlyAgg_columns =
     [mapped_column ''bucket'' TimestampTz, refers ''nodes'' ''node_id'' ''CASCADE'' (mapped_column ''node_id'' (Varchar 50)),
      nullable (mapped_column ''avg_temperature'' RealType), nullable (mapped_column ''avg_humidity'' RealType),
      nullable (mapped_column ''avg_pm25'' RealType), nullable (mapped_column ''avg_pm10'' RealType),
      nullable (mapped_column ''max_aqi'' SmallIntType), nullable (mapped_column ''min_aqi'' SmallIntType),
      nullable (mapped_column ''avg_aqi'' RealType), dflt (mapped_column ''anomaly_count'' IntegerType),
      dflt (mapped_column ''reading_count'' IntegerType)]"

definition RefreshToken_columns :: "mapped list" where
  "RefreshToken_columns =
     [keyed Primary (mapped_column ''id'' IntegerType),
      keyed Indexed (refers ''users'' ''id'' ''CASCADE'' (mapped_column ''user_id'' IntegerType)),
      keyed Indexed (mapped_column ''token_hash'' (Varchar 64)), keyed Indexed (mapped_column ''expires_at'' TimestampTz),
      dflt (mapped_column ''created_at'' TimestampTz), dflt (mapped_column ''revoked'' BooleanType)]"

definition PasswordResetToken_columns :: "mapped list" where
  "PasswordResetToken_columns =
     [keyed Primary (mapped_column ''id'' IntegerType),
      keyed Indexed (refers ''users'' ''id'' ''CASCADE'' (mapped_column ''user_id'' IntegerType)),
      keyed Indexed (mapped_column ''token_hash'' (Varchar 64)), keyed Indexed (mapped_column ''expires_at'' TimestampTz),
      nullable (mapped_column ''used_at'' TimestampTz), dflt (mapped_column ''created_at'' TimestampTz)]"

definition SystemSetting_columns :: "mapped list" where
  "SystemSetting_columns =
     [keyed Primary (mapped_column ''key'' (Varchar 100)), mapped_column ''value'' TextType,
      nullable (mapped_column ''description'' (Varchar 255)), dflt (mapped_column ''updated_at'' TimestampTz),
      nullable (refers ''users'' ''id'' ''SET NULL'' (mapped_column ''updated_by'' IntegerType))]"

definition AuditLog_columns :: "mapped list" where
  "AuditLog_columns =
     [keyed Primary (mapped_column ''id'' IntegerType), mapped_column ''entity_type'' (Varchar 50),
      mapped_column ''entity_id'' (Varchar 100), mapped_column ''action'' (Varchar 20),
      nullable (mapped_column ''old_value'' TextType), nullable (mapped_column ''new_value'' TextType),
      nullable (refers ''users'' ''id'' ''SET NULL'' (mapped_column ''changed_by'' IntegerType)),
      dflt (mapped_column ''changed_at'' TimestampTz)]"

text \<open>\<open>Base.metadata\<close>: per table its columns and what \<open>__table_args__\<close> adds.\<close>

definition METADATA :: "(string \<times> mapped list \<times> table_constraint list \<times> index list) list" where
  "METADATA =
     [(''nodes'', Node_columns, [], []), (''users'', User_columns, [], []),
      (''alerts'', Alert_columns, Alert_checks, Alert_indexes),
      (''sensor_readings'', SensorReading_columns, [PrimaryKey ''sensor_readings_pkey'' [''time'', ''node_id'']], SensorReading_indexes),
      (''hourly_agg'', HourlyAgg_columns, [PrimaryKey ''hourly_agg_pkey'' [''bucket'', ''node_id'']], []),
      (''refresh_tokens'', RefreshToken_columns, [], []), (''password_reset_tokens'', PasswordResetToken_columns, [], []),
      (''system_settings'', SystemSetting_columns, [], []), (''audit_logs'', AuditLog_columns, [], [])]"

section \<open>Migrations against models\<close>

definition column_matches :: "column \<Rightarrow> mapped \<Rightarrow> bool" where
  "column_matches c m \<longleftrightarrow> co_name c = ma_name m \<and> co_type c = ma_type m \<and> co_null c = ma_null m \<and>
     (co_default c \<noteq> None) = ma_default m"

definition same_elements :: "'a list \<Rightarrow> 'a list \<Rightarrow> bool" where
  "same_elements xs ys \<longleftrightarrow> list_all (\<lambda>x. x \<in> set ys) xs \<and> list_all (\<lambda>y. y \<in> set xs) ys"

definition table_matches :: "table \<Rightarrow> string \<times> mapped list \<times> table_constraint list \<times> index list \<Rightarrow> bool" where
  "table_matches t m \<longleftrightarrow> (case m of (name, cs, ks, is) \<Rightarrow>
     list_all2 column_matches (tb_columns t) cs \<and>
     same_elements (tb_constraints t) (declared_constraints name cs @ ks) \<and>
     same_elements (tb_indexes t) (declared_indexes name cs @ is))"

definition matches_models :: "schema \<Rightarrow> bool" where
  "matches_models s \<longleftrightarrow> same_elements (map fst (sc_tables s)) (map fst METADATA) \<and> distinct (map fst (sc_tables s)) \<and>
     list_all (\<lambda>m. case map_of (sc_tables s) (fst m) of None \<Rightarrow> False | Some t \<Rightarrow> table_matches t m) METADATA"


text \<open>Revision \<open>k + 1\<close> and back.\<close>

definition inverts :: "nat \<Rightarrow> bool" where
  "inverts k \<longleftrightarrow> (case schema_at (Suc k) of None \<Rightarrow> False | Some s \<Rightarrow> run_ops (\<lambda>_. True) id (DOWNGRADES ! k) s = schema_at k)"

lemma inverts_0: "inverts 0" by code_simp
lemma inverts_2: "inverts 2" by code_simp
lemma inverts_3: "inverts 3" by code_simp
lemma inverts_4: "inverts 4" by code_simp
lemma inverts_5: "inverts 5" by code_simp
lemma inverts_6: "inverts 6" by code_simp
lemma inverts_7: "inverts 7" by code_simp
lemma inverts_8: "inverts 8" by code_simp

text \<open>
  Downgrading any revision but 0002 from the schema it produced gives back exactly the schema of the
  revision before.
\<close>

theorem downgrades_invert: "list_all inverts [0, 2, 3, 4, 5, 6, 7, 8]"
  by (simp add: inverts_0 inverts_2 inverts_3 inverts_4 inverts_5 inverts_6 inverts_7 inverts_8)

section \<open>Rows in the way\<close>

definition MAX_HASH_LENGTH :: nat where "MAX_HASH_LENGTH = 64"

text \<open>Whether the rows of a database satisfy what a revision imposes on them.\<close>

definition rows_hold :: "db \<Rightarrow> string \<Rightarrow> bool" where
  "rows_hold d n =
     (if n = ''uq_alerts_unacked_node'' then distinct (map (\<lambda>a. (a_node_id a, a_parameter a)) (unacked (alerts d)))
      else if n = ''ck_alerts_message_length'' then
        list_all (\<lambda>a. case a_message a of None \<Rightarrow> True | Some m \<Rightarrow> length m \<le> MAX_ALERT_MESSAGE_LENGTH) (alerts d)
      else if n = ''refresh_tokens.token_hash'' then list_all (\<lambda>t. length (rt_token_hash t) \<le> MAX_HASH_LENGTH) (refresh_tokens d)
      else True)"

definition verdicts :: "bool \<Rightarrow> bool \<Rightarrow> bool \<Rightarrow> string \<Rightarrow> bool" where
  "verdicts x y z n =
     (if n = ''uq_alerts_unacked_node'' then x else if n = ''ck_alerts_message_length'' then y
      else if n = ''refresh_tokens.token_hash'' then z else True)"

lemma verdicts_run:
  "list_all (\<lambda>(x, y, z). (case schema_at 2 of None \<Rightarrow> False
     | Some s \<Rightarrow> run_ops (verdicts x y z) id (concat (drop 2 UPGRADES)) s = (if x \<and> y \<and> z then schema_at 9 else None)))
     (List.product [True, False] (List.product [True, False] [True, False]))"
  by code_simp

lemma verdicts_any:
  "case schema_at 2 of None \<Rightarrow> False
   | Some s \<Rightarrow> run_ops (verdicts x y z) id (concat (drop 2 UPGRADES)) s = (if x \<and> y \<and> z then schema_at 9 else None)"
  using verdicts_run by (cases x; cases y; cases z) (auto split: option.splits)

text \<open>
  On a populated database at revision 0002 the remaining upgrades succeed, and reach the head,
  exactly when the alerts already satisfy the constraints the models state (no two unacknowledged
  alerts of one node and parameter, no over-long message) and every token hash fits its new column;
  otherwise the chain stops with an error.
\<close>

theorem upgrade_needs_clean_rows:
  "case schema_at 2 of None \<Rightarrow> False
   | Some s \<Rightarrow> run_ops (rows_hold d) id (concat (drop 2 UPGRADES)) s =
       (if alerts_ok (alerts d) \<and> list_all (\<lambda>t. length (rt_token_hash t) \<le> MAX_HASH_LENGTH) (refresh_tokens d)
        then schema_at 9 else None)"
proof -
  let ?x = "distinct (map (\<lambda>a. (a_node_id a, a_parameter a)) (unacked (alerts d)))"
  let ?y = "list_all (\<lambda>a. case a_message a of None \<Rightarrow> True | Some m \<Rightarrow> length m \<le> MAX_ALERT_MESSAGE_LENGTH) (alerts d)"
  let ?z = "list_all (\<lambda>t. length (rt_token_hash t) \<le> MAX_HASH_LENGTH) (refresh_tokens d)"
  have "rows_hold d = verdicts ?x ?y ?z" by (rule ext) (simp add: rows_hold_def verdicts_def)
  moreover have "(?x \<and> ?y \<and> ?z) = (alerts_ok (alerts d) \<and> ?z)" by (simp add: alerts_ok_def)
  ultimately show ?thesis using verdicts_any [of ?x ?y ?z] by (simp only:)
qed

section \<open>The downgrade of the hypertable\<close>

definition other_tables :: "string \<Rightarrow> schema \<Rightarrow> schema" where
  "other_tables tab s = s\<lparr>sc_tables := filter (\<lambda>(m, x). m \<noteq> tab) (sc_tables s)\<rparr>"

definition readings_alone :: "schema \<Rightarrow> bool" where
  "readings_alone s \<longleftrightarrow> ''idx_readings_time'' \<in> set (index_names s) \<and>
     ''idx_readings_time'' \<notin> set (index_names (other_tables ''sensor_readings'' s)) \<and>
     map_of (sc_tables s) ''sensor_readings'' \<noteq> None \<and>
     \<not> list_ex (\<lambda>(m, x). m \<noteq> ''sensor_readings'' \<and> ''sensor_readings'' \<in> set (references_to x)) (sc_tables s)"

lemma schema_2_readings: "case schema_at 2 of None \<Rightarrow> False | Some s \<Rightarrow> readings_alone s"
  by code_simp

lemma run_ops_append:
  "run_ops holds like_name (xs @ ys) s =
     (case run_ops holds like_name xs s of None \<Rightarrow> None | Some s' \<Rightarrow> run_ops holds like_name ys s')"
  by (induction xs arbitrary: s) (auto split: option.splits)

lemma references_plain_copy: "references_to (plain_copy like_name t) = []"
  by (auto simp: references_to_def plain_copy_def split: table_constraint.splits)

lemma index_names_append: "set (index_names (s\<lparr>sc_tables := xs @ ys\<rparr>)) =
    set (index_names (s\<lparr>sc_tables := xs\<rparr>)) \<union> set (index_names (s\<lparr>sc_tables := ys\<rparr>))"
  by (simp add: index_names_def)

lemma drop_table_indexes:
  "run_op holds like_name (DropTable n) s = Some s' \<Longrightarrow> set (index_names s') \<subseteq> set (index_names s)"
  by (fastforce simp: index_names_def split: if_splits)

text \<open>
  C37: Revision 0002 cannot be downgraded on the way to an empty database: the copy of \<open>sensor_readings\<close> has lost its
  foreign key, and because the copied indexes have new names (the old ones are taken while the copy
  is made), the downgrade of revision 0001 stops at an index that is not there.
\<close>

theorem downgrade_to_base_fails:
  assumes "schema_at 2 = Some s" "\<And>n. like_name n \<notin> set (relation_names s)"
  shows "run_ops (\<lambda>_. True) like_name (downgrade_0002 @ downgrade_0001) s = None \<and>
    (\<exists>s' t. run_ops (\<lambda>_. True) like_name downgrade_0002 s = Some s' \<and>
      (''sensor_readings'', t) \<in> set (sc_tables s') \<and> references_to t = [])"
proof -
  from assms(1) schema_2_readings have alone: "readings_alone s" by simp
  then obtain t where t: "map_of (sc_tables s) ''sensor_readings'' = Some t" by (auto simp: readings_alone_def)
  define s' where "s' = s\<lparr>sc_tables := filter (\<lambda>(m, x). m \<noteq> ''sensor_readings'') (sc_tables s) @
    [(''sensor_readings'', plain_copy like_name t)]\<rparr>"
  have run: "run_ops (\<lambda>_. True) like_name downgrade_0002 s = Some s'"
    using alone t by (auto simp: downgrade_0002_def readings_alone_def s'_def)
  have "''idx_readings_time'' \<in> set (relation_names s)"
    using alone by (simp add: readings_alone_def relation_names_def)
  then have fresh: "''idx_readings_time'' \<noteq> like_name n" for n using assms(2) [of n] by auto
  have "''idx_readings_time'' \<notin> set (index_names (s\<lparr>sc_tables := [(''sensor_readings'', plain_copy like_name t)]\<rparr>))"
    by (auto simp: index_names_def plain_copy_def fresh)
  then have gone: "''idx_readings_time'' \<notin> set (index_names s')"
    using alone by (simp add: s'_def index_names_append readings_alone_def other_tables_def)
  have "run_ops (\<lambda>_. True) like_name downgrade_0001 s' = None"
    using gone drop_table_indexes [of "\<lambda>_. True" like_name "''system_settings''" s']
    by (auto simp: downgrade_0001_def simp del: run_op.simps(2) split: option.splits)
  then have "run_ops (\<lambda>_. True) like_name (downgrade_0002 @ downgrade_0001) s = None"
    by (simp add: run_ops_append run)
  moreover have "(''sensor_readings'', plain_copy like_name t) \<in> set (sc_tables s')" by (simp add: s'_def)
  ultimately show ?thesis using run references_plain_copy by blast
qed

text \<open>A naming that is fresh: a prefix that no name there has.\<close>

theorem downgrade_to_base_fails_witness:
  "\<exists>s. schema_at 2 = Some s \<and>
    run_ops (\<lambda>_. True) (\<lambda>n. CHR ''#'' # n) (downgrade_0002 @ downgrade_0001) s = None"
proof -
  have "case schema_at 2 of None \<Rightarrow> False | Some s \<Rightarrow> list_all (\<lambda>n. take 1 n \<noteq> ''#'') (relation_names s)" by code_simp
  then obtain s where s: "schema_at 2 = Some s" "\<forall>n \<in> set (relation_names s). take 1 n \<noteq> ''#''"
    by (auto simp: list_all_iff split: option.splits)
  then have "(\<lambda>n. CHR ''#'' # n) n \<notin> set (relation_names s)" for n by force
  from downgrade_to_base_fails [of s "\<lambda>n. CHR ''#'' # n", OF s(1) this] s(1) show ?thesis by blast
qed

end
