(* ===== verification/Release.thy ===== *)
theory Release imports Operator_Checks Migrations begin

text \<open>
  A deployment from nothing: the migrations of \<open>src/migrations/\<close>, then \<open>src/scripts/seed.py\<close>, then the
  judgement of \<open>src/scripts/check_health.py\<close>.
\<close>

text \<open>The answers a database with schema \<open>s\<close> at revision \<open>h\<close> and rows \<open>d\<close> gives to the probes.\<close>

definition probe_database :: "schema \<Rightarrow> string option \<Rightarrow> db \<Rightarrow> stack \<Rightarrow> stack" where
  "probe_database s h d base =
     base\<lparr>ck_connect := True, ck_tables := Inr (''alembic_version'' # map fst (sc_tables s)),
          ck_indexes := (case map_of (sc_tables s) ''sensor_readings'' of
             None \<Rightarrow> Inl DatabaseError | Some t \<Rightarrow> Inr (map ix_name (tb_indexes t))),
          ck_has_alembic := Inr True, ck_db_rev := Inr h, ck_extension := Inr (sc_timescaledb s),
          ck_hypertable := Inr (case map_of (sc_tables s) ''sensor_readings'' of
             None \<Rightarrow> None | Some t \<Rightarrow> if tb_hypertable t then Some ''sensor_readings'' else None),
          ck_counts := Inr (seed_counts d)\<rparr>"

definition schema_checks :: "schema \<Rightarrow> bool" where
  "schema_checks s \<longleftrightarrow> list_all (\<lambda>t. t \<in> set (map fst (sc_tables s))) EXPECTED_TABLES \<and> sc_timescaledb s \<and>
     (case map_of (sc_tables s) ''sensor_readings'' of None \<Rightarrow> False
      | Some t \<Rightarrow> tb_hypertable t \<and> list_all (\<lambda>i. i \<in> set (map ix_name (tb_indexes t))) REQUIRED_INDEXES)"

lemma head_checks: "case schema_at 9 of None \<Rightarrow> False | Some s \<Rightarrow> schema_checks s"
  by code_simp

text \<open>
  C35: A database migrated from nothing to the head and then seeded with \<open>SEED_ADMIN_PASSWORD\<close> satisfies every
  database check of the health report, in development the seed data included: what the verdict still depends
  on is Python, the imports, the server's version string, Redis and the application factory.
\<close>

theorem fresh_deployment_is_healthy:
  assumes "accounts_ok d" "admin_reserved d" "admin_password env \<noteq> None"
    and "seed con cfg env force now salt1 salt2 d = (Inr (), d')" and "ck_head base = Inr h"
  shows "\<exists>s. schema_at 9 = Some s \<and>
    (fst (check_health (Inr cfg) (probe_database s h d' base)) \<longleftrightarrow>
      list_all passed (environment_section base) \<and> (\<exists>v. ck_version base = Inr (Some v) \<and> mentions ''PostgreSQL'' v) \<and>
      ck_ping base = Inr True \<and> ck_factory base)"
proof -
  obtain s where s: "schema_at 9 = Some s" "schema_checks s" using head_checks by (auto split: option.splits)
  let ?st = "probe_database s h d' base"
  obtain t where t: "map_of (sc_tables s) ''sensor_readings'' = Some t" "tb_hypertable t" "sc_timescaledb s"
    "set REQUIRED_INDEXES \<subseteq> set (map ix_name (tb_indexes t))" "set EXPECTED_TABLES \<subseteq> set (map fst (sc_tables s))"
    using s(2) by (auto simp: schema_checks_def list_all_iff split: option.splits)
  have "seed_sound ?st"
    using seeded_sound [OF assms(1,4), of ?st] seeded_admin [OF assms(1,4,3,2)] by (simp add: probe_database_def)
  then have "stack_sound (cf_app_env cfg) ?st \<longleftrightarrow>
      list_all passed (environment_section base) \<and> (\<exists>v. ck_version base = Inr (Some v) \<and> mentions ''PostgreSQL'' v) \<and>
      ck_ping base = Inr True \<and> ck_factory base"
    using t assms(5) by (auto simp: stack_sound_def environment_section_def probe_database_def)
  then show ?thesis using s(1) by (simp add: check_health_exact)
qed

theorem fresh_deployment_is_healthy_witness:
  "\<exists>s. schema_at 9 = Some s \<and> fst (check_health (Inr CONFIG_DEFAULTS :: string + config_values)
     (probe_database s (Some ''0009'') (snd (seed demo_console CONFIG_DEFAULTS demo_environ False 5 ''a'' ''b'' empty_db)) (demo_stack empty_db)))"
proof -
  let ?d = "snd (seed demo_console CONFIG_DEFAULTS demo_environ False 5 ''a'' ''b'' empty_db)"
  have "accounts_ok empty_db" "admin_reserved empty_db" by (simp_all add: accounts_ok_def admin_reserved_def empty_db_def)
  moreover have "admin_password demo_environ \<noteq> None" by (simp add: demo_environ_def admin_password_def)
  moreover have "ck_head (demo_stack empty_db) = Inr (Some ''0009'')" by (simp add: demo_stack_def)
  ultimately obtain s where s: "schema_at 9 = Some s" and verdict:
    "fst (check_health (Inr CONFIG_DEFAULTS :: string + config_values) (probe_database s (Some ''0009'') ?d (demo_stack empty_db))) \<longleftrightarrow>
      list_all passed (environment_section (demo_stack empty_db)) \<and>
      (\<exists>v. ck_version (demo_stack empty_db) = Inr (Some v) \<and> mentions ''PostgreSQL'' v) \<and>
      ck_ping (demo_stack empty_db) = Inr True \<and> ck_factory (demo_stack empty_db)"
    using fresh_deployment_is_healthy [OF _ _ _ demo_seed_runs, where h = "Some ''0009''"] by blast
  have "mentions ''PostgreSQL'' ''PostgreSQL 16''" by code_simp
  then have "list_all passed (environment_section (demo_stack empty_db)) \<and>
      (\<exists>v. ck_version (demo_stack empty_db) = Inr (Some v) \<and> mentions ''PostgreSQL'' v) \<and>
      ck_ping (demo_stack empty_db) = Inr True \<and> ck_factory (demo_stack empty_db)"
    by (simp add: demo_stack_def environment_section_def)
  from iffD2 [OF verdict this] s show ?thesis by (intro exI conjI)
qed

end
