(* ===== verification/Py_Time.thy ===== *)
theory Py_Time imports Py_Value begin

text \<open>
  The calendar of \<open>datetime\<close> in UTC from 1970 on: year, month and day of a day number, and the
  stamps that \<open>strftime\<close> makes of a time.
\<close>

section \<open>Years and months\<close>

definition leap :: "nat \<Rightarrow> bool" where
  "leap y = (4 dvd y \<and> (\<not> 100 dvd y \<or> 400 dvd y))"

definition year_length :: "nat \<Rightarrow> nat" where "year_length y = (if leap y then 366 else 365)"

text \<open>The year that day \<open>d\<close> after the first of January of \<open>y\<close> lies in, and the day in it.\<close>

function year_of :: "nat \<Rightarrow> nat \<Rightarrow> nat \<times> nat" where
  "year_of y d = (if d < 365 \<or> leap y \<and> d = 365 then (y, d) else year_of (y + 1) (d - year_length y))"
  by pat_completeness auto

termination by (relation "measure snd") (auto simp: year_length_def)

declare year_of.simps [simp del]

definition month_lengths :: "nat \<Rightarrow> nat list" where
  "month_lengths y = [31, if leap y then 29 else 28, 31, 30, 31, 30, 31, 31, 30, 31, 30, 31]"

fun month_of :: "nat \<Rightarrow> nat list \<Rightarrow> nat \<Rightarrow> nat \<times> nat" where
  "month_of m [] d = (m, d)"
| "month_of m (l # ls) d = (if d < l then (m, d) else month_of (m + 1) ls (d - l))"

text \<open>Year, month and day of the month, from one.\<close>

definition civil :: "nat \<Rightarrow> nat \<times> nat \<times> nat" where
  "civil n = (let (y, d) = year_of 1970 n; (m, k) = month_of 1 (month_lengths y) d in (y, m, k + 1))"

section \<open>Zero-padded numbers\<close>

fun padded :: "nat \<Rightarrow> nat \<Rightarrow> string" where
  "padded 0 n = []"
| "padded (Suc w) n = padded w (n div 10) @ [char_of (48 + n mod 10)]"

lemma length_padded [simp]: "length (padded w n) = w"
  by (induction w arbitrary: n) auto

lemma padded_inj: "padded w m = padded w n \<Longrightarrow> m mod 10 ^ w = n mod 10 ^ w"
proof (induction w arbitrary: m n)
  case (Suc w)
  from Suc.prems have *: "padded w (m div 10) = padded w (n div 10)"
    "char_of (48 + m mod 10) = (char_of (48 + n mod 10) :: char)" by simp_all
  then have "code (char_of (48 + m mod 10)) = code (char_of (48 + n mod 10))" by simp
  then have d: "m mod 10 = n mod 10" by (simp add: code_digit)
  have "m div 10 mod 10 ^ w = n div 10 mod 10 ^ w" by (rule Suc.IH [OF *(1)])
  then show ?case using d by (simp add: mod_mult2_eq)
qed simp

lemma padded_digits: "list_all is_digit (padded w n)"
  by (induction w arbitrary: n) (auto simp: is_digit_digit)

section \<open>Dates are unique\<close>

lemma year_of_spec:
  "year_of y d = (y', d') \<Longrightarrow> y \<le> y' \<and> d' < year_length y' \<and> d = sum_list (map year_length [y..<y']) + d'"
proof (induction y d rule: year_of.induct)
  case (1 y d)
  show ?case
  proof (cases "d < 365 \<or> leap y \<and> d = 365")
    case True
    then show ?thesis using 1(2) by (auto simp: year_of.simps year_length_def)
  next
    case False
    then have le: "year_length y \<le> d" by (auto simp: year_length_def)
    have "year_of (y + 1) (d - year_length y) = (y', d')"
      using 1(2) False by (simp add: year_of.simps [of y d])
    from 1(1) [OF False this] have ih: "y + 1 \<le> y'" "d' < year_length y'"
      "d - year_length y = sum_list (map year_length [y + 1..<y']) + d'" by auto
    then have "[y..<y'] = y # [y + 1..<y']" by (simp add: upt_conv_Cons)
    then show ?thesis using ih le by simp
  qed
qed

lemma month_of_spec:
  "month_of m ls d = (m', k) \<Longrightarrow> d < sum_list ls \<Longrightarrow>
   m \<le> m' \<and> m' < m + length ls \<and> k < ls ! (m' - m) \<and> d = sum_list (take (m' - m) ls) + k"
proof (induction m ls d rule: month_of.induct)
  case (2 m l ls d)
  show ?case
  proof (cases "d < l")
    case False
    then have ih: "m + 1 \<le> m'" "m' < m + 1 + length ls" "k < ls ! (m' - (m + 1))"
      "d - l = sum_list (take (m' - (m + 1)) ls) + k"
      using 2 by auto
    have "m' - m = Suc (m' - (m + 1))" using ih(1) by simp
    then show ?thesis using ih False by simp
  qed (use 2 in auto)
qed simp

lemma sum_month_lengths: "sum_list (month_lengths y) = year_length y"
  by (simp add: month_lengths_def year_length_def)

lemma civil_spec:
  assumes "civil n = (y, m, k)"
  shows "1970 \<le> y \<and> 1 \<le> m \<and> m \<le> 12 \<and> 1 \<le> k \<and> k \<le> 31 \<and>
    n = sum_list (map year_length [1970..<y]) + sum_list (take (m - 1) (month_lengths y)) + (k - 1)"
proof -
  obtain d where y: "year_of 1970 n = (y, d)" and m: "month_of 1 (month_lengths y) d = (m, k - 1)" and k: "1 \<le> k"
    using assms by (auto simp: civil_def split: prod.splits)
  from year_of_spec [OF y] have ys: "1970 \<le> y" "d < year_length y" "n = sum_list (map year_length [1970..<y]) + d" by auto
  then have ms: "1 \<le> m" "m < 1 + length (month_lengths y)" "k - 1 < month_lengths y ! (m - 1)"
    "d = sum_list (take (m - 1) (month_lengths y)) + (k - 1)"
    using month_of_spec [OF m] by (auto simp: sum_month_lengths)
  have "l \<le> 31" if "l \<in> set (month_lengths y)" for l using that by (auto simp: month_lengths_def split: if_splits)
  then have "month_lengths y ! (m - 1) \<le> 31" using ms(1,2) by auto
  then have "k \<le> 31" using ms(3) by linarith
  moreover have "n = sum_list (map year_length [1970..<y]) + sum_list (take (m - 1) (month_lengths y)) + (k - 1)"
    using ys(3) ms(4) by simp
  moreover have "m \<le> 12" using ms(2) by (simp add: month_lengths_def)
  ultimately show ?thesis using ys(1) ms(1) k by simp
qed

lemma civil_inj: "civil a = civil b \<Longrightarrow> a = b"
  using civil_spec [of a] civil_spec [of b] by (metis prod_cases3)

section \<open>Stamps\<close>

text \<open>Minutes since 1970, the second of the minute and the POSIX time.\<close>

definition minute_index :: "timestamp \<Rightarrow> nat" where "minute_index now = nat (now div minutes 1)"

definition posix :: "timestamp \<Rightarrow> int" where "posix now = now div seconds 1"

definition second_of :: "timestamp \<Rightarrow> int" where "second_of now = posix now mod 60"

text \<open>\<open>strftime("%Y%m%d%H%M")\<close>\<close>

definition minute_stamp :: "timestamp \<Rightarrow> string" where
  "minute_stamp now =
     (let i = minute_index now; (y, m, d) = civil (i div 1440) in
      padded 4 y @ padded 2 m @ padded 2 d @ padded 2 (i mod 1440 div 60) @ padded 2 (i mod 60))"

lemma append_eq_length: "length a = length c \<Longrightarrow> a @ b = c @ d \<longleftrightarrow> a = c \<and> b = d"
  by simp

text \<open>Up to the year 9999 the stamp determines the minute.\<close>

lemma minute_stamp_inj:
  assumes eq: "minute_stamp a = minute_stamp b"
    and years: "fst (civil (minute_index a div 1440)) < 10000" "fst (civil (minute_index b div 1440)) < 10000"
  shows "minute_index a = minute_index b"
proof -
  obtain y m d where a: "civil (minute_index a div 1440) = (y, m, d)" by (metis prod_cases3)
  obtain y' m' d' where b: "civil (minute_index b div 1440) = (y', m', d')" by (metis prod_cases3)
  let ?i = "minute_index a" and ?j = "minute_index b"
  from eq have parts: "padded 4 y = padded 4 y'" "padded 2 m = padded 2 m'" "padded 2 d = padded 2 d'"
    "padded 2 (?i mod 1440 div 60) = padded 2 (?j mod 1440 div 60)" "padded 2 (?i mod 60) = padded 2 (?j mod 60)"
    by (simp_all add: minute_stamp_def a b Let_def append_eq_length del: padded.simps)
  have "y = y'" using padded_inj [OF parts(1)] years a b by simp
  moreover have "m = m'" "d = d'"
    using padded_inj [OF parts(2)] padded_inj [OF parts(3)] civil_spec [OF a] civil_spec [OF b] by auto
  ultimately have day: "?i div 1440 = ?j div 1440" using a b by (intro civil_inj) simp
  have small: "k mod 1440 div 60 < 10 ^ 2" for k :: nat
  proof (rule less_mult_imp_div_less)
    have "k mod 1440 < 1440" by simp
    moreover have "1440 < (10 ^ 2 * 60 :: nat)" by simp
    ultimately show "k mod 1440 < 10 ^ 2 * 60" by (rule less_trans)
  qed
  have hour: "?i mod 1440 div 60 = ?j mod 1440 div 60"
    using padded_inj [OF parts(4)] by (simp only: mod_less [OF small])
  have small': "k mod 60 < 10 ^ 2" for k :: nat
    by (rule less_trans [of _ 60]) simp_all
  have minute: "?i mod 60 = ?j mod 60"
    using padded_inj [OF parts(5)] by (simp only: mod_less [OF small'])
  have split: "k = k div 1440 * 1440 + k mod 1440 div 60 * 60 + k mod 60" for k :: nat
  proof -
    have "k mod 60 = k mod 1440 mod 60" by (rule mod_mod_cancel [symmetric]) simp
    then show ?thesis using div_mult_mod_eq [of k 1440] div_mult_mod_eq [of "k mod 1440" 60] by linarith
  qed
  have "?i = ?i div 1440 * 1440 + ?i mod 1440 div 60 * 60 + ?i mod 60" by (rule split)
  also have "\<dots> = ?j div 1440 * 1440 + ?j mod 1440 div 60 * 60 + ?j mod 60" by (simp only: day hour minute)
  also have "\<dots> = ?j" by (rule split [symmetric])
  finally show ?thesis .
qed

lemma length_minute_stamp: "length (minute_stamp now) = 12"
  by (simp add: minute_stamp_def Let_def split_def del: padded.simps)

lemma minute_stamp_digits: "list_all is_digit (minute_stamp now)"
  by (simp add: minute_stamp_def Let_def split_def padded_digits del: padded.simps)

end
