(* ===== verification/Mqtt_Session.thy ===== *)
theory Mqtt_Session imports Mqtt_Messages begin

text \<open>
  \<open>src/mqtt/client.py\<close>, the life of the client: construction with its TLS checks, \<open>start()\<close>, and the
  subscription state machine of the callbacks and of the worker's retry tick.  What the broker
  library answers to \<open>subscribe\<close> is the function \<open>sub\<close> from topics to result code and message id.
\<close>

section \<open>Construction and start\<close>

record mqtt_config =
  mc_use_tls :: bool
  mc_cert :: string
  mc_key :: string
  mc_ca :: string
  mc_client_id :: string

record session =
  ss_client_id :: string
  ss_pending :: "(int \<times> string) list"
  ss_ready :: bool
  ss_granted :: "string set"
  ss_failed :: bool
  ss_next_retry :: int
  ss_connected :: bool
  ss_tls_configured :: bool
  ss_worker_alive :: bool
  ss_workers_started :: nat
  ss_connects :: "bool list"

definition SUBSCRIBE_RETRY_INTERVAL :: int where "SUBSCRIBE_RETRY_INTERVAL = seconds 5"
definition TOPICS :: "string list" where "TOPICS = [READING_TOPIC, STATUS_TOPIC, ALERTS_TOPIC]"

text \<open>\<open>file_exists\<close> and \<open>tls_set_ok\<close>: the file system and the TLS library.\<close>

definition configure_tls :: "(string \<Rightarrow> bool) \<Rightarrow> bool \<Rightarrow> mqtt_config \<Rightarrow> session \<Rightarrow> py_error + session" where
  "configure_tls file_exists tls_set_ok cfg st =
     (let missing = filter (\<lambda>v. v = [] \<or> \<not> file_exists v) [mc_cert cfg, mc_key cfg, mc_ca cfg] in
      if missing \<noteq> [] then Inl RuntimeError
      else if \<not> tls_set_ok then Inl RuntimeError
      else Inr (st\<lparr>ss_tls_configured := True\<rparr>))"

definition resolve_client_id :: "string \<Rightarrow> mqtt_config \<Rightarrow> string" where
  "resolve_client_id hostname cfg =
     (if mc_client_id cfg \<noteq> [] then mc_client_id cfg else ''empyrean-backend-'' @ lower hostname)"

definition new_client :: "string \<Rightarrow> (string \<Rightarrow> bool) \<Rightarrow> bool \<Rightarrow> mqtt_config \<Rightarrow> py_error + session" where
  "new_client hostname file_exists tls_set_ok cfg =
     (let st = \<lparr>ss_client_id = resolve_client_id hostname cfg, ss_pending = [], ss_ready = False, ss_granted = {},
                ss_failed = False, ss_next_retry = 0, ss_connected = False, ss_tls_configured = False,
                ss_worker_alive = False, ss_workers_started = 0, ss_connects = []\<rparr>
      in if mc_use_tls cfg then configure_tls file_exists tls_set_ok cfg st else Inr st)"

text \<open>\<open>start()\<close>; each connection records whether it is made over TLS.\<close>

definition start :: "mqtt_config \<Rightarrow> session \<Rightarrow> py_error + session" where
  "start cfg st =
     (if mc_use_tls cfg \<and> \<not> ss_tls_configured st then Inl RuntimeError
      else if ss_worker_alive st then Inr st
      else Inr (st\<lparr>ss_worker_alive := True, ss_workers_started := ss_workers_started st + 1,
                   ss_connects := ss_connects st @ [ss_tls_configured st]\<rparr>))"

text \<open>The worker thread ends once \<open>stop()\<close> has set its event.\<close>

definition worker_exits :: "session \<Rightarrow> session" where
  "worker_exits st = st\<lparr>ss_worker_alive := False\<rparr>"

section \<open>Callbacks\<close>

definition pend :: "int \<Rightarrow> string \<Rightarrow> (int \<times> string) list \<Rightarrow> (int \<times> string) list" where
  "pend mid topic ps = (mid, topic) # filter (\<lambda>(m, t). m \<noteq> mid) ps"

text \<open>One pass over topics: the pending table, and whether some \<open>subscribe\<close> failed.\<close>

fun subscribe_all :: "(string \<Rightarrow> int \<times> int) \<Rightarrow> string list \<Rightarrow> (int \<times> string) list \<Rightarrow> (int \<times> string) list \<times> bool" where
  "subscribe_all sub [] ps = (ps, False)"
| "subscribe_all sub (topic # ts) ps =
     (let (rc, mid) = sub topic in
      if rc \<noteq> 0 then (fst (subscribe_all sub ts ps), True)
      else subscribe_all sub ts (pend mid topic ps))"

definition on_connect :: "int \<Rightarrow> (string \<Rightarrow> int \<times> int) \<Rightarrow> session \<Rightarrow> session" where
  "on_connect rc sub st =
     (if rc \<noteq> 0 then st
      else let (ps, failed) = subscribe_all sub TOPICS (ss_pending st)
           in st\<lparr>ss_connected := True, ss_pending := ps, ss_failed := failed\<rparr>)"

definition on_subscribe :: "int \<Rightarrow> int list \<Rightarrow> session \<Rightarrow> session" where
  "on_subscribe mid granted_qos st =
     (let st1 = st\<lparr>ss_pending := filter (\<lambda>(m, t). m \<noteq> mid) (ss_pending st)\<rparr> in
      case map_of (ss_pending st) mid of
        None \<Rightarrow> st1
      | Some topic \<Rightarrow>
          (if granted_qos = [] \<or> 128 \<le> hd granted_qos then st1\<lparr>ss_failed := True\<rparr>
           else let granted = insert topic (ss_granted st);
                    failed = (if set TOPICS \<subseteq> granted then False else ss_failed st);
                    ready = (if {READING_TOPIC, STATUS_TOPIC} \<subseteq> granted then True else ss_ready st)
                in st1\<lparr>ss_granted := granted, ss_failed := failed, ss_ready := ready\<rparr>))"

definition on_disconnect :: "session \<Rightarrow> session" where
  "on_disconnect st =
     st\<lparr>ss_connected := False, ss_ready := False, ss_granted := {}, ss_pending := [], ss_failed := False\<rparr>"

definition maybe_retry_subscribes :: "int \<Rightarrow> (string \<Rightarrow> int \<times> int) \<Rightarrow> session \<Rightarrow> session" where
  "maybe_retry_subscribes now sub st =
     (if \<not> ss_failed st then st
      else if now < ss_next_retry st then st
      else let st1 = st\<lparr>ss_next_retry := now + SUBSCRIBE_RETRY_INTERVAL\<rparr> in
        if \<not> ss_connected st then st1
        else st1\<lparr>ss_pending := fst (subscribe_all sub (filter (\<lambda>t. t \<notin> ss_granted st) TOPICS) (ss_pending st))\<rparr>)"

section \<open>Reachable states\<close>

text \<open>
  The library hands out different message ids to the subscribes of one pass; acknowledgements come in
  any order, for any id and with any result.
\<close>

definition fresh_mids :: "(string \<Rightarrow> int \<times> int) \<Rightarrow> bool" where
  "fresh_mids sub = distinct (map (\<lambda>t. snd (sub t)) TOPICS)"

inductive mqtt_step :: "mqtt_config \<Rightarrow> session \<Rightarrow> session \<Rightarrow> bool" for cfg where
  ms_start: "start cfg st = Inr st' \<Longrightarrow> mqtt_step cfg st st'"
| ms_exit: "mqtt_step cfg st (worker_exits st)"
| ms_connect: "fresh_mids sub \<Longrightarrow> mqtt_step cfg st (on_connect rc sub st)"
| ms_suback: "mqtt_step cfg st (on_subscribe mid qos st)"
| ms_disconnect: "mqtt_step cfg st (on_disconnect st)"
| ms_tick: "fresh_mids sub \<Longrightarrow> mqtt_step cfg st (maybe_retry_subscribes now sub st)"

inductive_cases mqtt_stepE: "mqtt_step cfg st st'"

text \<open>
  Readiness is exactly "both required topics granted"; only the three topics are ever granted or pending;
  and while connected, unless a retry is flagged, every topic is granted or awaits its SUBACK.
\<close>

definition subs_ok :: "bool \<Rightarrow> string set \<Rightarrow> bool \<Rightarrow> bool \<Rightarrow> (int \<times> string) list \<Rightarrow> bool" where
  "subs_ok ready granted failed online ps =
     ((ready \<longleftrightarrow> {READING_TOPIC, STATUS_TOPIC} \<subseteq> granted) \<and> granted \<subseteq> set TOPICS \<and>
      snd ` set ps \<subseteq> set TOPICS \<and> distinct (map fst ps) \<and>
      (if online then failed \<or> set TOPICS \<subseteq> granted \<union> snd ` set ps else granted = {} \<and> ps = []))"

definition session_ok :: "mqtt_config \<Rightarrow> session \<Rightarrow> bool" where
  "session_ok cfg st =
     (subs_ok (ss_ready st) (ss_granted st) (ss_failed st) (ss_connected st) (ss_pending st) \<and>
      (mc_use_tls cfg \<longrightarrow> ss_tls_configured st \<and> list_all (\<lambda>tls. tls) (ss_connects st)))"

lemma pend_simps [simp]:
  "map_of (pend mid topic ps) m = (if m = mid then Some topic else map_of ps m)"
  "fst ` set (pend mid topic ps) = insert mid (fst ` set ps)"
proof -
  have "map_of (filter (\<lambda>(m, t). m \<noteq> mid) ps) m = (if m = mid then None else map_of ps m)"
    by (induction ps) auto
  then show "map_of (pend mid topic ps) m = (if m = mid then Some topic else map_of ps m)" by (simp add: pend_def)
  show "fst ` set (pend mid topic ps) = insert mid (fst ` set ps)" by (force simp: pend_def)
qed

lemma pend_distinct: "distinct (map fst ps) \<Longrightarrow> distinct (map fst (pend mid topic ps))"
  by (auto simp: pend_def distinct_map_filter)

lemma pend_topics: "snd ` set (pend mid topic ps) \<subseteq> insert topic (snd ` set ps)"
  by (auto simp: pend_def)

lemma subscribe_all_distinct: "distinct (map fst ps) \<Longrightarrow> distinct (map fst (fst (subscribe_all sub ts ps)))"
  by (induction sub ts ps rule: subscribe_all.induct) (simp_all add: pend_distinct split: prod.splits)

lemma subscribe_all_step:
  "subscribe_all sub (topic # ts) ps =
     (if fst (sub topic) \<noteq> 0 then (fst (subscribe_all sub ts ps), True)
      else subscribe_all sub ts (pend (snd (sub topic)) topic ps))"
  by (simp add: case_prod_beta Let_def)

declare subscribe_all.simps(2) [simp del] subscribe_all_step [simp]

lemma subscribe_all_topics: "snd ` set (fst (subscribe_all sub ts ps)) \<subseteq> set ts \<union> snd ` set ps"
proof (induction ts arbitrary: ps)
  case (Cons topic ts)
  show ?case using Cons.IH [of ps] Cons.IH [of "pend (snd (sub topic)) topic ps"] pend_topics [of "snd (sub topic)" topic ps]
    by (cases "fst (sub topic) = 0") (simp_all, blast+)
qed simp

text \<open>What a pass leaves under each message id.\<close>

lemma subscribe_all_keeps:
  "m \<notin> (\<lambda>t. snd (sub t)) ` set ts \<Longrightarrow> map_of (fst (subscribe_all sub ts ps)) m = map_of ps m"
  by (induction ts arbitrary: ps) auto

lemma subscribe_all_pending:
  "distinct (map (\<lambda>t. snd (sub t)) ts) \<Longrightarrow> t \<in> set ts \<Longrightarrow> fst (sub t) = 0 \<Longrightarrow>
   map_of (fst (subscribe_all sub ts ps)) (snd (sub t)) = Some t"
proof (induction ts arbitrary: ps)
  case (Cons topic ts)
  show ?case
  proof (cases "t = topic")
    case True
    then show ?thesis using Cons.prems by (simp add: subscribe_all_keeps)
  next
    case False
    then show ?thesis using Cons by simp
  qed
qed simp

lemma subscribe_all_failed: "snd (subscribe_all sub ts ps) \<longleftrightarrow> (\<exists>t \<in> set ts. fst (sub t) \<noteq> 0)"
  by (induction ts arbitrary: ps) auto

lemma map_of_topic: "map_of ps m = Some t \<Longrightarrow> t \<in> snd ` set ps"
  by (force dest: map_of_SomeD)

lemma on_connect_ok:
  assumes "session_ok cfg st" "fresh_mids sub"
  shows "session_ok cfg (on_connect rc sub st)"
proof (cases "rc = 0")
  case True
  obtain ps failed where r: "subscribe_all sub TOPICS (ss_pending st) = (ps, failed)" by (metis surj_pair)
  have ok: "subs_ok (ss_ready st) (ss_granted st) (ss_failed st) (ss_connected st) (ss_pending st)"
    using assms(1) by (simp add: session_ok_def)
  have t: "snd ` set ps \<subseteq> set TOPICS" using subscribe_all_topics [of sub TOPICS "ss_pending st"] ok
    unfolding r subs_ok_def by auto
  have d: "distinct (map fst ps)" using subscribe_all_distinct [of "ss_pending st" sub TOPICS] ok unfolding r subs_ok_def by simp
  have c: "set TOPICS \<subseteq> snd ` set ps" if "\<not> failed"
  proof
    fix t assume t: "t \<in> set TOPICS"
    then have "fst (sub t) = 0" using subscribe_all_failed [of sub TOPICS "ss_pending st"] that unfolding r by simp
    then show "t \<in> snd ` set ps"
      using subscribe_all_pending [OF assms(2) [unfolded fresh_mids_def] t, of "ss_pending st"] map_of_topic unfolding r by simp
  qed
  have "subs_ok (ss_ready st) (ss_granted st) failed True ps"
    using ok t d c unfolding subs_ok_def by auto
  then show ?thesis using assms(1) True r by (simp add: on_connect_def session_ok_def)
qed (use assms in \<open>simp add: on_connect_def\<close>)

lemma unpend:
  assumes "distinct (map fst ps)" "map_of ps mid = Some topic"
  shows "snd ` set ps \<subseteq> insert topic (snd ` set (filter (\<lambda>(m, t). m \<noteq> mid) ps))"
proof
  fix x assume "x \<in> snd ` set ps"
  then obtain m where m: "(m, x) \<in> set ps" by auto
  show "x \<in> insert topic (snd ` set (filter (\<lambda>(m, t). m \<noteq> mid) ps))"
  proof (cases "m = mid")
    case True
    then have "x = topic" using m assms map_of_is_SomeI by fastforce
    then show ?thesis by simp
  qed (use m in force)
qed

lemma subs_ok_suback:
  assumes ok: "subs_ok ready granted failed online ps" and some: "map_of ps mid = Some topic"
  defines "ps' \<equiv> filter (\<lambda>(m, t). m \<noteq> mid) ps"
  shows "subs_ok ready granted True online ps'"
    "subs_ok (if {READING_TOPIC, STATUS_TOPIC} \<subseteq> insert topic granted then True else ready) (insert topic granted)
       (if set TOPICS \<subseteq> insert topic granted then False else failed) online ps'"
proof -
  have d: "distinct (map fst ps')" using ok by (simp add: subs_ok_def ps'_def distinct_map_filter)
  have t: "snd ` set ps' \<subseteq> snd ` set ps" by (auto simp: ps'_def)
  have m: "topic \<in> snd ` set ps" using map_of_topic [OF some] .
  have u: "snd ` set ps \<subseteq> insert topic (snd ` set ps')"
    using unpend [OF _ some] ok by (simp add: subs_ok_def ps'_def)
  obtain P P' where P: "snd ` set ps = P" "snd ` set ps' = P'" by blast
  have c: online using ok some by (auto simp: subs_ok_def split: if_splits)
  show "subs_ok ready granted True online ps'" using ok d t c unfolding subs_ok_def P by auto
  show "subs_ok (if {READING_TOPIC, STATUS_TOPIC} \<subseteq> insert topic granted then True else ready) (insert topic granted)
       (if set TOPICS \<subseteq> insert topic granted then False else failed) online ps'"
    using ok d t m u c unfolding subs_ok_def P by (cases ready) (simp_all, blast+)
qed

lemma on_subscribe_ok: "session_ok cfg st \<Longrightarrow> session_ok cfg (on_subscribe mid qos st)"
proof (cases "map_of (ss_pending st) mid")
  case None
  assume "session_ok cfg st"
  moreover have "filter (\<lambda>(m, t). m \<noteq> mid) (ss_pending st) = ss_pending st"
    using None by (force simp: filter_id_conv map_of_eq_None_iff)
  ultimately show ?thesis using None by (simp add: on_subscribe_def session_ok_def)
next
  case (Some topic)
  assume ok: "session_ok cfg st"
  then have so: "subs_ok (ss_ready st) (ss_granted st) (ss_failed st) (ss_connected st) (ss_pending st)"
    by (simp add: session_ok_def)
  show ?thesis
  proof (cases "qos = [] \<or> 128 \<le> hd qos")
    case True
    then have "on_subscribe mid qos st = st\<lparr>ss_pending := filter (\<lambda>(m, t). m \<noteq> mid) (ss_pending st), ss_failed := True\<rparr>"
      using Some by (simp add: on_subscribe_def Let_def)
    then show ?thesis using ok subs_ok_suback(1) [OF so Some] by (simp add: session_ok_def)
  next
    case False
    obtain f r where fr: "(if set TOPICS \<subseteq> insert topic (ss_granted st) then False else ss_failed st) = f"
        "(if {READING_TOPIC, STATUS_TOPIC} \<subseteq> insert topic (ss_granted st) then True else ss_ready st) = r" by blast
    have "on_subscribe mid qos st = st\<lparr>ss_pending := filter (\<lambda>(m, t). m \<noteq> mid) (ss_pending st),
        ss_granted := insert topic (ss_granted st), ss_failed := f, ss_ready := r\<rparr>"
      using False Some fr by (simp add: on_subscribe_def Let_def)
    then show ?thesis using ok subs_ok_suback(2) [OF so Some, unfolded fr] by (simp add: session_ok_def)
  qed
qed

lemma mqtt_step_ok: "mqtt_step cfg st st' \<Longrightarrow> session_ok cfg st \<Longrightarrow> session_ok cfg st'"
proof (erule mqtt_stepE)
  assume ok: "session_ok cfg st"
  show "session_ok cfg st'" if "start cfg st = Inr st'"
    using that ok by (auto simp: start_def session_ok_def split: if_splits)
  show "session_ok cfg st'" if "st' = worker_exits st" using that ok by (simp add: worker_exits_def session_ok_def)
  show "session_ok cfg st'" if "st' = on_connect rc sub st" "fresh_mids sub" for rc sub
    using that ok on_connect_ok by simp
  show "session_ok cfg st'" if "st' = on_subscribe mid qos st" for mid qos using that ok on_subscribe_ok by simp
  show "session_ok cfg st'" if "st' = on_disconnect st" using that ok
    by (simp add: on_disconnect_def session_ok_def subs_ok_def)
  show "session_ok cfg st'" if s: "st' = maybe_retry_subscribes now sub st" "fresh_mids sub" for now sub
  proof (cases "ss_failed st \<and> ss_connected st")
    case True
    obtain ps where ps: "fst (subscribe_all sub (filter (\<lambda>t. t \<notin> ss_granted st) TOPICS) (ss_pending st)) = ps" by blast
    have "snd ` set ps \<subseteq> set TOPICS" "distinct (map fst ps)"
      using subscribe_all_topics [of sub "filter (\<lambda>t. t \<notin> ss_granted st) TOPICS" "ss_pending st"]
        subscribe_all_distinct [of "ss_pending st" sub "filter (\<lambda>t. t \<notin> ss_granted st) TOPICS"] ok
      unfolding ps by (auto simp: session_ok_def subs_ok_def)
    then show ?thesis using s ok True ps by (simp add: maybe_retry_subscribes_def session_ok_def subs_ok_def Let_def)
  next
    case False
    then show ?thesis using s ok by (auto simp: maybe_retry_subscribes_def session_ok_def Let_def)
  qed
qed

lemma new_client_ok: "new_client hostname fe tls_ok cfg = Inr st \<Longrightarrow> session_ok cfg st"
  by (auto simp: new_client_def configure_tls_def session_ok_def subs_ok_def Let_def split: if_splits)

lemma reachable_session_ok:
  assumes "new_client hostname fe tls_ok cfg = Inr st0" "(mqtt_step cfg)\<^sup>*\<^sup>* st0 st"
  shows "session_ok cfg st"
  using assms(2)
proof (induction rule: rtranclp_induct)
  case base
  show ?case using new_client_ok assms(1) .
qed (rule mqtt_step_ok)

section \<open>Recovery\<close>

lemma map_of_unpend: "map_of (filter (\<lambda>(m, t). m \<noteq> mid) ps) m = (if m = mid then None else map_of ps m)"
  by (induction ps) auto

text \<open>\<open>mid t\<close> is the id under which topic \<open>t\<close> awaits its acknowledgement.\<close>

definition awaits :: "(string \<Rightarrow> int) \<Rightarrow> string set \<Rightarrow> session \<Rightarrow> bool" where
  "awaits mid T st = (\<forall>t \<in> T. t \<in> ss_granted st \<or> map_of (ss_pending st) (mid t) = Some t)"

lemma suback_granted: "ss_granted st \<subseteq> ss_granted (on_subscribe m [1] st)"
  by (auto simp: on_subscribe_def Let_def split: option.splits)

lemma suback_awaits:
  assumes "awaits mid T st" "inj_on mid T" "t0 \<in> T"
  shows "awaits mid T (on_subscribe (mid t0) [1] st)" "t0 \<in> ss_granted (on_subscribe (mid t0) [1] st)
    \<or> (t0 \<notin> ss_granted st \<and> map_of (ss_pending st) (mid t0) \<noteq> Some t0)"
proof -
  show "t0 \<in> ss_granted (on_subscribe (mid t0) [1] st) \<or> (t0 \<notin> ss_granted st \<and> map_of (ss_pending st) (mid t0) \<noteq> Some t0)"
    by (auto simp: on_subscribe_def Let_def split: option.splits)
  show "awaits mid T (on_subscribe (mid t0) [1] st)"
    unfolding awaits_def
  proof
    fix t assume t: "t \<in> T"
    show "t \<in> ss_granted (on_subscribe (mid t0) [1] st) \<or> map_of (ss_pending (on_subscribe (mid t0) [1] st)) (mid t) = Some t"
    proof (cases "t \<in> ss_granted st")
      case False
      then have p: "map_of (ss_pending st) (mid t) = Some t" using assms(1) t by (auto simp: awaits_def)
      show ?thesis
      proof (cases "t = t0")
        case True
        then show ?thesis using p by (simp add: on_subscribe_def Let_def)
      next
        case False
        then have "mid t \<noteq> mid t0" using assms(2,3) t by (auto dest: inj_onD)
        then show ?thesis using p by (simp add: on_subscribe_def Let_def map_of_unpend split: option.splits)
      qed
    qed (use suback_granted in blast)
  qed
qed

lemma subacks_granted:
  assumes "awaits mid T st" "inj_on mid T" "set acks \<subseteq> mid ` T"
  shows "awaits mid T (fold (\<lambda>m. on_subscribe m [1]) acks st) \<and> ss_granted st \<subseteq> ss_granted (fold (\<lambda>m. on_subscribe m [1]) acks st) \<and>
    (\<forall>t \<in> T. mid t \<in> set acks \<longrightarrow> t \<in> ss_granted (fold (\<lambda>m. on_subscribe m [1]) acks st))"
  using assms
proof (induction acks arbitrary: st)
  case (Cons m acks)
  then obtain t0 where t0: "t0 \<in> T" "m = mid t0" by auto
  let ?s = "on_subscribe (mid t0) [1] st"
  have a: "awaits mid T ?s" using suback_awaits(1) [OF Cons.prems(1,2) t0(1)] .
  have g: "t0 \<in> ss_granted ?s" using suback_awaits(2) [OF Cons.prems(1,2) t0(1)] Cons.prems(1) t0(1) by (auto simp: awaits_def)
  have ih: "awaits mid T (fold (\<lambda>m. on_subscribe m [1]) acks ?s) \<and> ss_granted ?s \<subseteq> ss_granted (fold (\<lambda>m. on_subscribe m [1]) acks ?s) \<and>
    (\<forall>t \<in> T. mid t \<in> set acks \<longrightarrow> t \<in> ss_granted (fold (\<lambda>m. on_subscribe m [1]) acks ?s))"
    using Cons.IH [OF a Cons.prems(2)] Cons.prems(3) by simp
  have "t = t0" if "t \<in> T" "mid t = mid t0" for t using that Cons.prems(2) t0(1) by (auto dest: inj_onD)
  then show ?case using ih g suback_granted [of st "mid t0"] unfolding t0(2) by simp blast
qed simp

lemma subacks_ok: "session_ok cfg st \<Longrightarrow> session_ok cfg (fold (\<lambda>m. on_subscribe m [1]) acks st)"
  by (induction acks arbitrary: st) (simp_all add: on_subscribe_ok)

lemma tick_awaits:
  assumes "ss_failed st" "ss_next_retry st \<le> now" "ss_connected st" "fresh_mids sub" "list_all (\<lambda>t. fst (sub t) = 0) TOPICS"
  shows "awaits (\<lambda>t. snd (sub t)) (set TOPICS) (maybe_retry_subscribes now sub st)"
proof -
  let ?ts = "filter (\<lambda>t. t \<notin> ss_granted st) TOPICS"
  have d: "distinct (map (\<lambda>t. snd (sub t)) ?ts)" using assms(4) by (simp add: fresh_mids_def distinct_map_filter)
  have "map_of (fst (subscribe_all sub ?ts (ss_pending st))) (snd (sub t)) = Some t" if "t \<in> set TOPICS" "t \<notin> ss_granted st" for t
    using subscribe_all_pending [OF d, of t] that assms(5) by (simp add: list_all_iff)
  then show ?thesis using assms(1-3) by (auto simp: awaits_def maybe_retry_subscribes_def Let_def)
qed

section \<open>Properties\<close>

text \<open>
  C20: The client is never silently deaf: in every reachable state it is ready exactly when both required
  topics are granted, and while connected each of the three topics is granted, awaits its SUBACK, or
  the retry flag is set; and with TLS requested no connection is ever made without it.
\<close>

theorem mqtt_never_stuck:
  assumes "new_client hostname fe tls_ok cfg = Inr st0" and "(mqtt_step cfg)\<^sup>*\<^sup>* st0 st"
  shows "(ss_ready st \<longleftrightarrow> {READING_TOPIC, STATUS_TOPIC} \<subseteq> ss_granted st) \<and>
    (ss_connected st \<longrightarrow> ss_failed st \<or> set TOPICS \<subseteq> ss_granted st \<union> snd ` set (ss_pending st)) \<and>
    (\<not> ss_connected st \<longrightarrow> \<not> ss_ready st) \<and>
    (mc_use_tls cfg \<longrightarrow> list_all (\<lambda>tls. tls) (ss_connects st))"
  using reachable_session_ok [OF assms] by (auto simp: session_ok_def subs_ok_def split: if_splits)

definition demo_mqtt_config :: mqtt_config where
  "demo_mqtt_config = \<lparr>mc_use_tls = True, mc_cert = ''c'', mc_key = ''k'', mc_ca = ''a'', mc_client_id = []\<rparr>"

definition demo_sub :: "string \<Rightarrow> int \<times> int" where
  "demo_sub t = (if t = READING_TOPIC then (0, 1) else if t = STATUS_TOPIC then (0, 2) else (0, 3))"

lemma demo_sub_fresh: "fresh_mids demo_sub"
  by (simp add: fresh_mids_def demo_sub_def TOPICS_def READING_TOPIC_def STATUS_TOPIC_def ALERTS_TOPIC_def)

lemma demo_client: "\<exists>st0. new_client ''HOST'' (\<lambda>_. True) True demo_mqtt_config = Inr st0"
  by (simp add: new_client_def configure_tls_def demo_mqtt_config_def Let_def)

theorem mqtt_never_stuck_witness:
  "\<exists>st0. new_client ''HOST'' (\<lambda>_. True) True demo_mqtt_config = Inr st0 \<and>
     (ss_ready (on_connect 0 demo_sub st0) \<longleftrightarrow> {READING_TOPIC, STATUS_TOPIC} \<subseteq> ss_granted (on_connect 0 demo_sub st0))"
proof -
  obtain st0 where n: "new_client ''HOST'' (\<lambda>_. True) True demo_mqtt_config = Inr st0" using demo_client by blast
  have "(mqtt_step demo_mqtt_config)\<^sup>*\<^sup>* st0 (on_connect 0 demo_sub st0)"
    by (rule r_into_rtranclp, rule ms_connect [OF demo_sub_fresh])
  from mqtt_never_stuck [OF n this] n show ?thesis by blast
qed

text \<open>
  A denied or failed subscription heals: once the throttle has passed, one worker tick on a live connection
  whose broker takes the subscribes, and one acknowledgement per message id of the pass, in any order and
  with any repetition, make the client ready.
\<close>

theorem retry_recovers:
  assumes "session_ok cfg st" "ss_failed st" "ss_connected st" "ss_next_retry st \<le> now"
    and "fresh_mids sub" "list_all (\<lambda>t. fst (sub t) = 0) TOPICS"
    and "set acks = (\<lambda>t. snd (sub t)) ` set TOPICS"
  shows "ss_ready (fold (\<lambda>mid. on_subscribe mid [1]) acks (maybe_retry_subscribes now sub st))"
proof -
  let ?s = "maybe_retry_subscribes now sub st" and ?f = "fold (\<lambda>mid. on_subscribe mid [1]) acks"
  have "inj_on (\<lambda>t. snd (sub t)) (set TOPICS)" using assms(5) by (simp add: fresh_mids_def distinct_map)
  then have "\<forall>t \<in> set TOPICS. t \<in> ss_granted (?f ?s)"
    using subacks_granted [OF tick_awaits [OF assms(2,4,3,5,6)], of acks] assms(7) by auto
  moreover have "session_ok cfg (?f ?s)"
    by (rule subacks_ok [OF mqtt_step_ok [OF ms_tick [OF assms(5)] assms(1)]])
  ultimately show ?thesis by (auto simp: session_ok_def subs_ok_def TOPICS_def)
qed

definition deaf_session :: session where
  "deaf_session = \<lparr>ss_client_id = ''c'', ss_pending = [], ss_ready = False, ss_granted = {ALERTS_TOPIC},
     ss_failed = True, ss_next_retry = 5, ss_connected = True, ss_tls_configured = False, ss_worker_alive = True,
     ss_workers_started = 1, ss_connects = [False]\<rparr>"

theorem retry_recovers_witness:
  "ss_ready (fold (\<lambda>mid. on_subscribe mid [1]) [3, 2, 1] (maybe_retry_subscribes 7 demo_sub deaf_session))"
proof (rule retry_recovers [OF _ _ _ _ demo_sub_fresh])
  show "session_ok (demo_mqtt_config\<lparr>mc_use_tls := False\<rparr>) deaf_session"
    by (simp add: session_ok_def subs_ok_def deaf_session_def demo_mqtt_config_def TOPICS_def
        READING_TOPIC_def STATUS_TOPIC_def ALERTS_TOPIC_def)
qed (auto simp: deaf_session_def demo_sub_def TOPICS_def READING_TOPIC_def STATUS_TOPIC_def ALERTS_TOPIC_def)

end
