(* ===== verification/Http.thy ===== *)
theory Http imports Py_Time Redis Mqtt_Session begin

text \<open>
  What stands around every route: the rate limiter (\<open>src/api/rate_limit.py\<close>), the body validation
  (\<open>src/api/validation.py\<close>), the query-parameter dates (\<open>src/api/_time.py\<close>) and the application's error
  handlers and life cycle hooks (\<open>src/app_factory/helpers.py\<close>).
\<close>

type_synonym headers = "(string \<times> string) list"

type_synonym 'b answer = "'b response \<times> headers"

record http_request =
  rq_method :: string
  rq_endpoint :: "string option"
  rq_real_ip :: "string option"
  rq_remote_addr :: "string option"
  rq_json :: "json option"

text \<open>\<open>x or y\<close> on an optional string.\<close>

definition str_or :: "string option \<Rightarrow> string \<Rightarrow> string" where
  "str_or x y = (case x of None \<Rightarrow> y | Some s \<Rightarrow> if s = [] then y else s)"

section \<open>The rate limiter\<close>

definition DEFAULT_LIMIT :: int where "DEFAULT_LIMIT = 200"
definition DEFAULT_WINDOW_SECONDS :: int where "DEFAULT_WINDOW_SECONDS = 60"

record limiter =
  lm_redis :: "rval redis"
  lm_bypass :: nat

definition is_rate_limit_available :: "limiter \<Rightarrow> bool" where
  "is_rate_limit_available lm = (lm_redis lm \<noteq> NoClient)"

definition client_ip :: "bool \<Rightarrow> http_request \<Rightarrow> string" where
  "client_ip trust_proxy rq =
     (let real_ip = strip (case rq_real_ip rq of None \<Rightarrow> [] | Some v \<Rightarrow> v) in
      if trust_proxy \<and> real_ip \<noteq> [] then real_ip else str_or (rq_remote_addr rq) ''unknown'')"

definition rate_limit_key :: "http_request \<Rightarrow> string \<Rightarrow> timestamp \<Rightarrow> string" where
  "rate_limit_key rq ip now =
     ''ratelimit:'' @ str_or (rq_endpoint rq) ''default'' @ CHR '':'' # ip @ CHR '':'' # minute_stamp now"

definition reset_epoch :: "timestamp \<Rightarrow> int" where
  "reset_epoch now = posix now + (60 - second_of now)"

definition rate_headers :: "int \<Rightarrow> int \<Rightarrow> int \<Rightarrow> bool \<Rightarrow> headers" where
  "rate_headers limit remaining reset_ts bypass =
     [(''X-RateLimit-Limit'', string_of_int limit),
      (''X-RateLimit-Remaining'', string_of_int (max remaining 0)),
      (''X-RateLimit-Reset'', string_of_int reset_ts)] @
     (if bypass then [(''X-RateLimit-Bypass'', ''true'')] else [])"

definition with_headers :: "'b answer \<Rightarrow> int \<Rightarrow> int \<Rightarrow> int \<Rightarrow> bool \<Rightarrow> 'b answer" where
  "with_headers result limit remaining reset_ts bypass =
     (let (body, existing) = result
      in (body, fold (\<lambda>(k, v). dict_set k v) (rate_headers limit remaining reset_ts bypass) existing))"

text \<open>The script: \<open>INCR\<close>, and \<open>PEXPIRE\<close> when the count is one.\<close>

definition st_pexpire :: "timestamp \<Rightarrow> string \<Rightarrow> int \<Rightarrow> 'v store \<Rightarrow> 'v store" where
  "st_pexpire now k ms s = (case st_get now k s of None \<Rightarrow> s | Some v \<Rightarrow> st_set k v (Some (now + ms * 1000)) s)"

definition incr_script :: "timestamp \<Rightarrow> string \<Rightarrow> int \<Rightarrow> rval store \<Rightarrow> (py_error + int) \<times> rval store" where
  "incr_script now key ms s =
     (case st_incr now key s of
        (Inl e, s') \<Rightarrow> (Inl e, s')
      | (Inr n, s') \<Rightarrow> (Inr n, if n = 1 then st_pexpire now key ms s' else s'))"

text \<open>\<open>_incr\<close>: every failure is \<open>None\<close>.\<close>

definition incr_key :: "timestamp \<Rightarrow> string \<Rightarrow> int \<Rightarrow> rval redis \<Rightarrow> int option \<times> rval redis" where
  "incr_key now key window_seconds r =
     (case command (incr_script now key (window_seconds * 1000)) r of
        (Inr (Inr n), r') \<Rightarrow> (Some n, r')
      | (answer, r') \<Rightarrow> (None, r'))"

text \<open>The route \<open>f\<close> acts on a state of its own and answers or raises.\<close>

type_synonym ('s, 'b) route = "'s \<Rightarrow> (py_error + 'b answer) \<times> 's"

definition labelled :: "('b answer \<Rightarrow> 'b answer) \<Rightarrow> (py_error + 'b answer) \<times> 's \<Rightarrow> (py_error + 'b answer) \<times> 's" where
  "labelled g out = (case out of (Inl e, s) \<Rightarrow> (Inl e, s) | (Inr a, s) \<Rightarrow> (Inr (g a), s))"

definition too_many :: "'b response" where
  "too_many = problem_json 429 ''Too Many Requests'' ''Rate limit exceeded. Please slow down.''"

definition bypassed :: "int \<Rightarrow> int \<Rightarrow> ('s, 'b) route \<Rightarrow> limiter \<Rightarrow> 's \<Rightarrow> (py_error + 'b answer) \<times> limiter \<times> 's" where
  "bypassed limit reset_ts f lm s =
     (let (out, s') = labelled (\<lambda>a. with_headers a limit limit reset_ts True) (f s)
      in (out, lm\<lparr>lm_bypass := lm_bypass lm + 1\<rparr>, s'))"

definition rate_limit :: "int \<Rightarrow> int \<Rightarrow> bool \<Rightarrow> http_request \<Rightarrow> timestamp \<Rightarrow> ('s, 'b) route \<Rightarrow> limiter \<Rightarrow> 's
    \<Rightarrow> (py_error + 'b answer) \<times> limiter \<times> 's" where
  "rate_limit limit window_seconds trust_proxy rq now f lm s =
     (let ip = client_ip trust_proxy rq; key = rate_limit_key rq ip now; reset_ts = reset_epoch now in
      if lm_redis lm = NoClient then bypassed limit reset_ts f lm s
      else case incr_key now key window_seconds (lm_redis lm) of
        (None, r) \<Rightarrow> bypassed limit reset_ts f (lm\<lparr>lm_redis := r\<rparr>) s
      | (Some n, r) \<Rightarrow>
          (if limit < n then (Inr (with_headers (too_many, []) limit (limit - n) reset_ts False), lm\<lparr>lm_redis := r\<rparr>, s)
           else let (out, s') = labelled (\<lambda>a. with_headers a limit (limit - n) reset_ts False) (f s)
                in (out, lm\<lparr>lm_redis := r\<rparr>, s')))"

section \<open>Body validation\<close>

definition MAX_ERROR_DETAIL :: nat where "MAX_ERROR_DETAIL = 500"

text \<open>One pydantic error: its location, its message and the offending input, each as far as it is given.\<close>

record field_error =
  fe_loc :: "string list"
  fe_msg :: "string option"
  fe_input :: "json option"

text \<open>An exception: the errors it lists, if its \<open>errors()\<close> works, and its text.\<close>

datatype schema_error = SchemaError "field_error list option" string

text \<open>\<open>sep.join(xs)\<close>\<close>

fun join_str :: "string \<Rightarrow> string list \<Rightarrow> string" where
  "join_str sep [] = []"
| "join_str sep [x] = x"
| "join_str sep (x # y # xs) = x @ sep @ join_str sep (y # xs)"

definition error_part :: "(json \<Rightarrow> string) \<Rightarrow> field_error \<Rightarrow> string" where
  "error_part py_repr err =
     (let loc = str_or (Some (join_str ''.'' (fe_loc err))) ''body'';
          msg = (case fe_msg err of None \<Rightarrow> ''invalid value'' | Some m \<Rightarrow> m)
      in case fe_input err of
           Some (JObj kvs) \<Rightarrow> loc @ '': '' @ msg
         | Some (JList xs) \<Rightarrow> loc @ '': '' @ msg
         | Some inp \<Rightarrow> loc @ '': '' @ msg @ '' (input='' @ py_repr inp @ '')''
         | None \<Rightarrow> loc @ '': '' @ msg @ '' (input='' @ py_repr JNull @ '')'')"

definition format_validation_error :: "(json \<Rightarrow> string) \<Rightarrow> schema_error \<Rightarrow> string" where
  "format_validation_error py_repr exc =
     (case exc of
        SchemaError (Some raw) text \<Rightarrow>
          take MAX_ERROR_DETAIL
            (join_str ''; '' (map (error_part py_repr) (take 5 raw)) @
             (if 5 < length raw then ''; (+'' @ string_of_nat (length raw - 5) @ '' more error(s))'' else []))
      | SchemaError None text \<Rightarrow> take MAX_ERROR_DETAIL text)"

definition validate_body :: "(json \<Rightarrow> string) \<Rightarrow> (json \<Rightarrow> schema_error + 'm) \<Rightarrow> bool \<Rightarrow> http_request
    \<Rightarrow> ('m \<Rightarrow> ('s, 'b) route) \<Rightarrow> ('s, 'b) route" where
  "validate_body py_repr model_validate require_object rq f s =
     (case rq_json rq of
        None \<Rightarrow> (Inr (problem_json 400 ''Bad Request'' ''Request body is required'', []), s)
      | Some body \<Rightarrow>
          (if require_object \<and> (case body of JObj kvs \<Rightarrow> False | _ \<Rightarrow> True) then
             (Inr (problem_json 422 ''Unprocessable Entity'' ''Request body must be a JSON object'', []), s)
           else case model_validate body of
             Inl exc \<Rightarrow> (Inr (problem_json 422 ''Unprocessable Entity'' (format_validation_error py_repr exc), []), s)
           | Inr model \<Rightarrow> f model s))"

definition validated_body :: "'m option \<Rightarrow> py_error + 'm" where
  "validated_body stored_model = (case stored_model of None \<Rightarrow> Inl RuntimeError | Some m \<Rightarrow> Inr m)"

section \<open>Query dates\<close>

text \<open>\<open>fromiso\<close> is \<open>datetime.fromisoformat\<close>.\<close>

definition parse_iso_datetime :: "(string \<Rightarrow> datetime option) \<Rightarrow> string option \<Rightarrow> timestamp \<Rightarrow> py_error + timestamp" where
  "parse_iso_datetime fromiso value dflt =
     (case value of
        None \<Rightarrow> Inr dflt
      | Some v \<Rightarrow> (case fromiso (replace_z v) of None \<Rightarrow> Inl ValueError | Some dt \<Rightarrow> Inr (to_utc dt)))"

section \<open>Error handlers\<close>

definition MAX_DETAIL_LEN :: nat where "MAX_DETAIL_LEN = 200"

text \<open>\<open>str.split()\<close>: the maximal runs without white space.\<close>

fun words :: "string \<Rightarrow> string list" where
  "words [] = []"
| "words (c # s) =
     (if is_space c then words s
      else case s of
        [] \<Rightarrow> [[c]]
      | d # _ \<Rightarrow> (if is_space d then [c] # words s else (case words s of [] \<Rightarrow> [[c]] | w # ws \<Rightarrow> (c # w) # ws)))"

text \<open>The ellipsis is one character of three UTF-8 bytes.\<close>

definition ellipsis :: string where "ellipsis = [CHR 0xE2, CHR 0x80, CHR 0xA6]"

definition safe_detail :: "string option \<Rightarrow> string \<Rightarrow> string" where
  "safe_detail detail fallback =
     (case detail of
        None \<Rightarrow> fallback
      | Some d \<Rightarrow>
          (if d = [] then fallback
           else let txt = join_str '' '' (words d)
                in if MAX_DETAIL_LEN < length txt then take (MAX_DETAIL_LEN - 1) txt @ ellipsis else txt))"

text \<open>What leaves a route: an HTTP exception with its code, name and description, or any other one.\<close>

datatype app_error = HttpError "nat option" "string option" "string option" | OtherError py_error

definition ERROR_HANDLERS :: "(nat \<times> string \<times> string) list" where
  "ERROR_HANDLERS =
     [(400, ''Bad Request'', ''Request body is required or malformed''),
      (401, ''Unauthorized'', ''Unauthorized''),
      (403, ''Forbidden'', ''Forbidden''),
      (404, ''Not Found'', ''Resource not found''),
      (405, ''Method Not Allowed'', ''Method not allowed''),
      (422, ''Unprocessable Entity'', ''Unprocessable Entity''),
      (429, ''Too Many Requests'', ''Rate limit exceeded'')]"

definition handle_error :: "app_error \<Rightarrow> 'b response" where
  "handle_error err =
     (case err of
        OtherError e \<Rightarrow> unhandled e
      | HttpError code_opt name description \<Rightarrow>
          (case (case code_opt of None \<Rightarrow> None | Some n \<Rightarrow> map_option (Pair n) (map_of ERROR_HANDLERS n)) of
             Some (n, title, fallback) \<Rightarrow> problem_json n title (safe_detail description fallback)
           | None \<Rightarrow>
               (let n = (case code_opt of None \<Rightarrow> 500 | Some n \<Rightarrow> if n = 0 then 500 else n); title = str_or name ''Error''
                in problem_json n title (safe_detail description title))))"

text \<open>A preflight request is answered before the route.\<close>

definition short_circuit_preflight :: "http_request \<Rightarrow> (unit \<Rightarrow> 'a) \<Rightarrow> nat + 'a" where
  "short_circuit_preflight rq route = (if rq_method rq = ''OPTIONS'' then Inl 204 else Inr (route ()))"

section \<open>The MQTT client's life cycle\<close>

definition start_mqtt :: "bool \<Rightarrow> string \<Rightarrow> (string \<Rightarrow> bool) \<Rightarrow> bool \<Rightarrow> mqtt_config \<Rightarrow> session option \<Rightarrow> session option" where
  "start_mqtt enabled hostname file_exists tls_set_ok cfg registry =
     (if \<not> enabled then registry
      else case ebind (new_client hostname file_exists tls_set_ok cfg) (start cfg) of
        Inl e \<Rightarrow> registry
      | Inr client \<Rightarrow> set_registered (Some client) registry)"

text \<open>\<open>stop_client\<close> is the client's \<open>stop\<close>, which may raise.\<close>

definition stop_mqtt :: "(session \<Rightarrow> py_error + session) \<Rightarrow> session option \<Rightarrow> session option" where
  "stop_mqtt stop_client registry =
     (case get_registered registry of
        None \<Rightarrow> registry
      | Some client \<Rightarrow> (case stop_client client of Inl e \<Rightarrow> set_registered None registry | Inr c \<Rightarrow> set_registered None registry))"

section \<open>Buckets\<close>

text \<open>The bucket of a request: endpoint, address and minute.  Times are those \<open>strftime\<close> prints in twelve digits.\<close>

definition bucket_key :: "string \<Rightarrow> string \<Rightarrow> timestamp \<Rightarrow> string" where
  "bucket_key ep ip now = ''ratelimit:'' @ ep @ CHR '':'' # ip @ CHR '':'' # minute_stamp now"

definition bucket :: "bool \<Rightarrow> http_request \<Rightarrow> timestamp \<Rightarrow> string \<times> string \<times> nat" where
  "bucket trust rq now = (str_or (rq_endpoint rq) ''default'', client_ip trust rq, minute_index now)"

definition printable_time :: "timestamp \<Rightarrow> bool" where
  "printable_time now = (0 \<le> now \<and> fst (civil (minute_index now div 1440)) < 10000)"

text \<open>View-function names have no colon.\<close>

definition plain_request :: "http_request \<Rightarrow> timestamp \<Rightarrow> bool" where
  "plain_request rq now = (CHR '':'' \<notin> set (str_or (rq_endpoint rq) ''default'') \<and> printable_time now)"

lemma minute_stamp_cong: "minute_index a = minute_index b \<Longrightarrow> minute_stamp a = minute_stamp b"
  by (simp add: minute_stamp_def)

lemma bucket_key_iff:
  assumes "CHR '':'' \<notin> set ep" "CHR '':'' \<notin> set ep'" "printable_time t" "printable_time t'"
  shows "bucket_key ep ip t = bucket_key ep' ip' t' \<longleftrightarrow> (ep, ip, minute_index t) = (ep', ip', minute_index t')"
proof
  assume "bucket_key ep ip t = bucket_key ep' ip' t'"
  then have "ep @ CHR '':'' # ip @ CHR '':'' # minute_stamp t = ep' @ CHR '':'' # ip' @ CHR '':'' # minute_stamp t'"
    by (simp add: bucket_key_def)
  from split_at_separator [OF this assms(1,2)] have eq: "ep = ep'" "ip @ CHR '':'' # minute_stamp t = ip' @ CHR '':'' # minute_stamp t'" by auto
  have "length (CHR '':'' # minute_stamp t) = length (CHR '':'' # minute_stamp t')" by (simp add: length_minute_stamp)
  with eq(2) have "ip = ip'" "minute_stamp t = minute_stamp t'" by (auto simp: append_eq_append_conv)
  moreover have "minute_index t = minute_index t'"
    using calculation(2) assms(3,4) by (intro minute_stamp_inj) (auto simp: printable_time_def)
  ultimately show "(ep, ip, minute_index t) = (ep', ip', minute_index t')" using eq(1) by simp
next
  assume eq: "(ep, ip, minute_index t) = (ep', ip', minute_index t')"
  then have "minute_stamp t = minute_stamp t'" using minute_stamp_cong by blast
  then show "bucket_key ep ip t = bucket_key ep' ip' t'" using eq by (simp add: bucket_key_def)
qed

lemma minute_bounds:
  assumes "0 \<le> now"
  shows "minutes (int (minute_index now)) \<le> now" "now < minutes (int (minute_index now) + 1)"
  using assms by (auto simp: minute_index_def time_units)

text \<open>A store that has counted the requests \<open>hs\<close>.\<close>

definition hits_in :: "(string \<times> string \<times> nat) list \<Rightarrow> string \<times> string \<times> nat \<Rightarrow> nat" where
  "hits_in hs b = count_where (\<lambda>h. h = b) hs"

definition counts :: "(string \<times> string \<times> nat) list \<Rightarrow> rval store \<Rightarrow> bool" where
  "counts hs s =
     (\<forall>ep ip t. CHR '':'' \<notin> set ep \<longrightarrow> printable_time t \<longrightarrow>
        (if hits_in hs (ep, ip, minute_index t) = 0 then map_of s (bucket_key ep ip t) = None
         else \<exists>e. map_of s (bucket_key ep ip t) = Some (RNum (int (hits_in hs (ep, ip, minute_index t))), Some e) \<and>
           minutes (int (minute_index t) + 1) \<le> e))"

lemma map_of_st_set: "map_of (st_set k v e s) k' = (if k' = k then Some (v, e) else map_of s k')"
  by (simp add: st_set_def map_of_st_del)

lemma hits_in_Cons: "hits_in (h # hs) b = (if h = b then 1 else 0) + hits_in hs b"
  by (simp add: hits_in_def count_where_def)

lemma countsD:
  assumes "counts hs s" "CHR '':'' \<notin> set ep" "printable_time t"
  shows "hits_in hs (ep, ip, minute_index t) = 0 \<Longrightarrow> map_of s (bucket_key ep ip t) = None"
    and "0 < hits_in hs (ep, ip, minute_index t) \<Longrightarrow>
      \<exists>e. map_of s (bucket_key ep ip t) = Some (RNum (int (hits_in hs (ep, ip, minute_index t))), Some e) \<and>
        minutes (int (minute_index t) + 1) \<le> e"
  using assms unfolding counts_def by (metis, metis gr_implies_not0)

lemma incr_script_counts:
  assumes c: "counts hs s" and ep: "CHR '':'' \<notin> set ep" and t: "printable_time now"
    and b: "b = (ep, ip, minute_index now)"
  shows "\<exists>e s0. incr_script now (bucket_key ep ip now) 60000 s =
      (Inr (int (hits_in hs b) + 1), st_set (bucket_key ep ip now) (RNum (int (hits_in hs b) + 1)) (Some e) s0) \<and>
      (\<forall>k. k \<noteq> bucket_key ep ip now \<longrightarrow> map_of s0 k = map_of s k) \<and> minutes (int (minute_index now) + 1) \<le> e"
proof (cases "hits_in hs b = 0")
  case True
  have none: "map_of s (bucket_key ep ip now) = None" using countsD(1) [OF c ep t] True by (simp add: b)
  have late: "minutes (int (minute_index now) + 1) \<le> now + 60000000"
    using minute_bounds [of now] t by (simp add: printable_time_def time_units)
  let ?s = "st_set (bucket_key ep ip now) (RNum 1) None s"
  have "incr_script now (bucket_key ep ip now) 60000 s =
      (Inr 1, st_set (bucket_key ep ip now) (RNum 1) (Some (now + 60000000)) ?s)"
    by (simp add: incr_script_def st_incr_def st_pexpire_def live_def none)
  then show ?thesis using True late by (auto simp: map_of_st_set intro!: exI [of _ "now + 60000000"] exI [of _ ?s])
next
  case False
  then obtain e where e: "map_of s (bucket_key ep ip now) = Some (RNum (int (hits_in hs b)), Some e)"
    "minutes (int (minute_index now) + 1) \<le> e"
    using countsD(2) [OF c ep t, of ip] by (auto simp: b)
  moreover have "live now (Some e)" using e(2) minute_bounds(2) [of now] t by (simp add: live_def printable_time_def)
  ultimately show ?thesis using False by (auto simp: incr_script_def st_incr_def)
qed

lemma counts_incr:
  assumes c: "counts hs s" and ep: "CHR '':'' \<notin> set ep" and t: "printable_time now"
  shows "fst (incr_script now (bucket_key ep ip now) 60000 s) = Inr (int (hits_in hs (ep, ip, minute_index now)) + 1)"
    and "counts ((ep, ip, minute_index now) # hs) (snd (incr_script now (bucket_key ep ip now) 60000 s))"
proof -
  let ?b = "(ep, ip, minute_index now)" and ?k = "bucket_key ep ip now"
  obtain e s0 where inc: "incr_script now ?k 60000 s = (Inr (int (hits_in hs ?b) + 1), st_set ?k (RNum (int (hits_in hs ?b) + 1)) (Some e) s0)"
    and s0: "\<And>k. k \<noteq> ?k \<Longrightarrow> map_of s0 k = map_of s k" and e: "minutes (int (minute_index now) + 1) \<le> e"
    using incr_script_counts [OF c ep t refl, of ip] by blast
  then show "fst (incr_script now ?k 60000 s) = Inr (int (hits_in hs ?b) + 1)" by simp
  have same: "map_of (st_set ?k (RNum (int (hits_in hs ?b) + 1)) (Some e) s0) (bucket_key ep' ip' t') =
      (if ?b = (ep', ip', minute_index t') then Some (RNum (int (hits_in hs ?b) + 1), Some e) else map_of s (bucket_key ep' ip' t'))"
    if "CHR '':'' \<notin> set ep'" "printable_time t'" for ep' ip' t'
    using bucket_key_iff [OF ep that(1) t that(2), of ip ip'] s0 [of "bucket_key ep' ip' t'"]
    by (auto simp: map_of_st_set)
  show "counts (?b # hs) (snd (incr_script now ?k 60000 s))"
    unfolding counts_def inc snd_conv
  proof (intro allI impI)
    fix ep' ip' t' assume x: "CHR '':'' \<notin> set ep'" "printable_time t'"
    show "if hits_in (?b # hs) (ep', ip', minute_index t') = 0
        then map_of (st_set ?k (RNum (int (hits_in hs ?b) + 1)) (Some e) s0) (bucket_key ep' ip' t') = None
        else \<exists>e'. map_of (st_set ?k (RNum (int (hits_in hs ?b) + 1)) (Some e) s0) (bucket_key ep' ip' t') =
            Some (RNum (int (hits_in (?b # hs) (ep', ip', minute_index t'))), Some e') \<and> minutes (int (minute_index t') + 1) \<le> e'"
      using same [OF x, of ip'] countsD [OF c x, of ip'] e by (auto simp: hits_in_Cons)
  qed
qed

section \<open>Properties\<close>

text \<open>Serving requests one after the other, each with its own limit.\<close>

type_synonym hit = "http_request \<times> timestamp \<times> int"

fun serve :: "bool \<Rightarrow> ('s, 'b) route \<Rightarrow> hit list \<Rightarrow> limiter \<Rightarrow> 's \<Rightarrow> limiter \<times> 's" where
  "serve trust f [] lm s = (lm, s)"
| "serve trust f ((rq, now, limit) # hs) lm s =
     (let (out, lm', s') = rate_limit limit 60 trust rq now f lm s in serve trust f hs lm' s')"

definition plain_hits :: "hit list \<Rightarrow> bool" where
  "plain_hits hs = list_all (\<lambda>(rq, now, limit). plain_request rq now) hs"

definition fresh_limiter :: limiter where "fresh_limiter = \<lparr>lm_redis = Client [] [], lm_bypass = 0\<rparr>"

definition limiter_tracks :: "(string \<times> string \<times> nat) list \<Rightarrow> limiter \<Rightarrow> bool" where
  "limiter_tracks hs lm = (\<exists>s. lm_redis lm = Client s [] \<and> lm_bypass lm = 0 \<and> counts hs s)"

lemma rate_limit_key_bucket: "rate_limit_key rq ip now = bucket_key (str_or (rq_endpoint rq) ''default'') ip now"
  by (simp add: rate_limit_key_def bucket_key_def)

text \<open>The outcome for the \<open>n\<close>-th request of a bucket, with the limiter working.\<close>

definition nth_outcome :: "int \<Rightarrow> timestamp \<Rightarrow> nat \<Rightarrow> ('s, 'b) route \<Rightarrow> 's \<Rightarrow> (py_error + 'b answer) \<times> 's" where
  "nth_outcome limit now n f s =
     (if limit < int n then (Inr (with_headers (too_many, []) limit (limit - int n) (reset_epoch now) False), s)
      else labelled (\<lambda>a. with_headers a limit (limit - int n) (reset_epoch now) False) (f s))"

lemma rate_limit_tracks:
  assumes lm: "limiter_tracks hs lm" and rq: "plain_request rq now"
  shows "\<exists>lm'. rate_limit limit 60 trust rq now f lm s =
      (let (out, s') = nth_outcome limit now (hits_in hs (bucket trust rq now) + 1) f s in (out, lm', s')) \<and>
    limiter_tracks (bucket trust rq now # hs) lm'"
proof -
  obtain st where st: "lm_redis lm = Client st []" "lm_bypass lm = 0" "counts hs st"
    using lm by (auto simp: limiter_tracks_def)
  let ?ep = "str_or (rq_endpoint rq) ''default''" and ?ip = "client_ip trust rq"
  let ?inc = "incr_script now (bucket_key ?ep ?ip now) 60000 st"
  have ep: "CHR '':'' \<notin> set ?ep" "printable_time now" using rq by (simp_all add: plain_request_def)
  note inc = counts_incr [OF st(3) ep, of ?ip, folded bucket_def]
  let ?lm = "lm\<lparr>lm_redis := Client (snd ?inc) []\<rparr>"
  have key: "incr_key now (rate_limit_key rq ?ip now) 60 (lm_redis lm) = (Some (int (hits_in hs (bucket trust rq now)) + 1), Client (snd ?inc) [])"
    using inc(1) by (simp add: incr_key_def st(1) rate_limit_key_bucket command_cases)
  have "rate_limit limit 60 trust rq now f lm s =
      (let (out, s') = nth_outcome limit now (hits_in hs (bucket trust rq now) + 1) f s in (out, ?lm, s'))"
    unfolding rate_limit_def Let_def key
    by (simp add: st(1) nth_outcome_def split_def algebra_simps)
  moreover have "limiter_tracks (bucket trust rq now # hs) ?lm"
    using inc(2) st(2) by (simp add: limiter_tracks_def)
  ultimately show ?thesis by blast
qed

lemma serve_tracks:
  "limiter_tracks hs lm \<Longrightarrow> plain_hits hits \<Longrightarrow>
   limiter_tracks (rev (map (\<lambda>(rq, now, limit). bucket trust rq now) hits) @ hs) (fst (serve trust f hits lm s))"
proof (induction hits arbitrary: hs lm s)
  case (Cons h hits)
  obtain rq now limit where h: "h = (rq, now, limit)" by (metis prod_cases3)
  obtain lm' where "fst (snd (rate_limit limit 60 trust rq now f lm s)) = lm'" "limiter_tracks (bucket trust rq now # hs) lm'"
    using rate_limit_tracks [OF Cons.prems(1), of rq now limit trust f s] Cons.prems(2)
    by (auto simp: plain_hits_def h split_def Let_def)
  then show ?case using Cons.IH [of "bucket trust rq now # hs" lm'] Cons.prems(2)
    by (simp add: h plain_hits_def split_def Let_def)
qed simp

text \<open>
  C27: The rate limiter is exact.  With Redis up, after any earlier requests in any order, a request runs
  the route exactly when fewer than \<open>limit\<close> earlier requests came from the same address to the same
  endpoint in the same minute; every further one is answered 429 with the route's state untouched,
  and requests of other endpoints, addresses or minutes never count.  The headers carry the limit and
  what remains of it, never below zero.
\<close>

theorem limiter_exact:
  assumes "plain_hits hits" "plain_request rq now"
    and n: "n = hits_in (map (\<lambda>(rq', now', limit'). bucket trust rq' now') hits) (bucket trust rq now)"
    and out: "rate_limit limit 60 trust rq now f (fst (serve trust g hits fresh_limiter s0)) s = (out, lm', s')"
  shows "(out, s') =
    (if limit \<le> int n then (Inr (with_headers (too_many, []) limit (limit - int n - 1) (reset_epoch now) False), s)
     else labelled (\<lambda>a. with_headers a limit (limit - int n - 1) (reset_epoch now) False) (f s))"
proof -
  have "limiter_tracks [] fresh_limiter" by (simp add: limiter_tracks_def fresh_limiter_def counts_def hits_in_def count_where_def)
  from serve_tracks [OF this assms(1), of trust g s0]
  obtain lm2 where "rate_limit limit 60 trust rq now f (fst (serve trust g hits fresh_limiter s0)) s =
      (let (out, s') = nth_outcome limit now (n + 1) f s in (out, lm2, s'))"
    using rate_limit_tracks [OF _ assms(2)] n by (fastforce simp: hits_in_def count_where_def rev_filter [symmetric])
  then have "(out, s') = nth_outcome limit now (n + 1) f s" using out by (simp add: split_def Let_def)
  then show ?thesis by (simp add: nth_outcome_def algebra_simps)
qed

definition demo_request :: "string \<Rightarrow> string \<Rightarrow> http_request" where
  "demo_request ep ip = \<lparr>rq_method = ''POST'', rq_endpoint = Some ep, rq_real_ip = None, rq_remote_addr = Some ip, rq_json = None\<rparr>"

definition counting_route :: "(nat, unit) route" where
  "counting_route n = (Inr (Reply 200 (), []), n + 1)"

theorem limiter_exact_witness:
  "\<exists>lm'. rate_limit 2 60 False (demo_request ''auth.login'' ''::1'') 9 counting_route
      (fst (serve False counting_route [(demo_request ''auth.login'' ''::1'', 5, 2), (demo_request ''auth.login'' ''::2'', 6, 2),
         (demo_request ''auth.login'' ''::1'', 7, 2)] fresh_limiter 0)) 2 =
    (Inr (with_headers (too_many, []) 2 (- 1) (reset_epoch 9) False), lm', 2)"
proof -
  let ?hits = "[(demo_request ''auth.login'' ''::1'', 5, 2), (demo_request ''auth.login'' ''::2'', 6, 2), (demo_request ''auth.login'' ''::1'', 7, 2)]"
  let ?rq = "demo_request ''auth.login'' ''::1''"
  have small: "t \<in> {5, 6, 7, 9} \<Longrightarrow> minute_index t = 0" for t by (auto simp: minute_index_def time_units)
  have pt: "t \<in> {5, 6, 7, 9} \<Longrightarrow> printable_time t" for t
    using small [of t] by (auto simp: printable_time_def civil_def year_of.simps month_lengths_def Let_def)
  have plain: "plain_hits ?hits" "plain_request ?rq 9"
    using pt by (simp_all add: plain_hits_def plain_request_def demo_request_def str_or_def)
  have n: "2 = hits_in (map (\<lambda>(rq', now', limit'). bucket False rq' now') ?hits) (bucket False ?rq 9)"
    using small by (simp add: hits_in_def count_where_def bucket_def demo_request_def client_ip_def str_or_def strip_def)
  obtain out lm' s' where out: "rate_limit 2 60 False ?rq 9 counting_route (fst (serve False counting_route ?hits fresh_limiter 0)) 2 = (out, lm', s')"
    by (metis prod_cases3)
  show ?thesis using limiter_exact [OF plain n out] out by simp
qed

lemma with_headers_lookup:
  "map_of (snd (with_headers a limit remaining reset_ts bypass)) k =
     (if k = ''X-RateLimit-Bypass'' \<and> bypass then Some ''true''
      else if k = ''X-RateLimit-Reset'' then Some (string_of_int reset_ts)
      else if k = ''X-RateLimit-Remaining'' then Some (string_of_int (max remaining 0))
      else if k = ''X-RateLimit-Limit'' then Some (string_of_int limit)
      else map_of (snd a) k)"
  by (simp add: with_headers_def rate_headers_def split_def dict_set_map_of)

lemma rate_limit_cases:
  assumes "rate_limit limit w trust rq now f lm s = (out, lm', s')"
  obtains
    (bypassed) "lm_bypass lm' = lm_bypass lm + 1" "(out, s') = labelled (\<lambda>a. with_headers a limit limit (reset_epoch now) True) (f s)"
  | (refused) n where "lm_bypass lm' = lm_bypass lm" "s' = s" "out = Inr (with_headers (too_many, []) limit (limit - n) (reset_epoch now) False)"
  | (served) n where "lm_bypass lm' = lm_bypass lm" "n \<le> limit" "(out, s') = labelled (\<lambda>a. with_headers a limit (limit - n) (reset_epoch now) False) (f s)"
proof (cases "lm_redis lm = NoClient")
  case True
  then show thesis using assms bypassed by (auto simp: rate_limit_def Let_def bypassed_def split_def)
next
  case False
  obtain count r where inc: "incr_key now (rate_limit_key rq (client_ip trust rq) now) w (lm_redis lm) = (count, r)"
    by (metis prod.exhaust)
  show thesis
  proof (cases count)
    case None
    then show thesis using assms False inc bypassed by (auto simp: rate_limit_def Let_def bypassed_def split_def)
  next
    case (Some n)
    show thesis
    proof (cases "limit < n")
      case True
      then show thesis using assms False inc Some refused [of n] by (auto simp: rate_limit_def Let_def)
    next
      case le: False
      then show thesis using assms False inc Some served [of n] by (auto simp: rate_limit_def Let_def split_def)
    qed
  qed
qed

text \<open>
  A failing limiter says so.  Whatever the state of Redis, the answer carries the bypass header
  exactly when the bypass counter of the health page grew, which is exactly when no limit was
  enforced; then the route has run, and the remaining budget shown is the full limit.
\<close>

theorem limiter_bypass_labelled:
  assumes run: "rate_limit limit w trust rq now f lm s = (Inr (body, headers), lm', s')"
    and clean: "\<And>a. fst (f s) = Inr a \<Longrightarrow> map_of (snd a) ''X-RateLimit-Bypass'' = None"
  shows "(map_of headers ''X-RateLimit-Bypass'' = Some ''true'') = (lm_bypass lm' = lm_bypass lm + 1) \<and>
    (if lm_bypass lm' = lm_bypass lm + 1
     then s' = snd (f s) \<and> map_of headers ''X-RateLimit-Remaining'' = Some (string_of_int (max limit 0))
     else lm_bypass lm' = lm_bypass lm)"
using run
proof (cases rule: rate_limit_cases)
  case bypassed
  then obtain a where "(body, headers) = with_headers a limit limit (reset_epoch now) True" "s' = snd (f s)"
    by (auto simp: labelled_def split: prod.splits sum.splits)
  then have "headers = snd (with_headers a limit limit (reset_epoch now) True)" "s' = snd (f s)"
    by (auto dest: arg_cong [where f = snd])
  then show ?thesis using bypassed(1) by (simp add: with_headers_lookup)
next
  case (refused n)
  then obtain a where a: "snd a = []" "(body, headers) = with_headers a limit (limit - n) (reset_epoch now) False" by auto
  then have "headers = snd (with_headers a limit (limit - n) (reset_epoch now) False)" by (auto dest: arg_cong [where f = snd])
  then show ?thesis using refused(1) a(1) by (simp add: with_headers_lookup)
next
  case (served n)
  then obtain a where a: "fst (f s) = Inr a" "(body, headers) = with_headers a limit (limit - n) (reset_epoch now) False"
    by (auto simp: labelled_def split: prod.splits sum.splits)
  then have "headers = snd (with_headers a limit (limit - n) (reset_epoch now) False)" by (auto dest: arg_cong [where f = snd])
  then show ?thesis using served(1) clean [OF a(1)] by (simp add: with_headers_lookup)
qed

theorem limiter_bypass_labelled_witness:
  "\<exists>headers lm'. rate_limit 5 60 True (demo_request ''auth.login'' ''::1'') 9 counting_route (fresh_limiter\<lparr>lm_redis := Client [] [True]\<rparr>) 3 =
      (Inr (Reply 200 (), headers), lm', 4) \<and>
    map_of headers ''X-RateLimit-Bypass'' = Some ''true'' \<and> lm_bypass lm' = 1 \<and> map_of headers ''X-RateLimit-Remaining'' = Some ''5''"
proof -
  let ?rl = "rate_limit 5 60 True (demo_request ''auth.login'' ''::1'') 9 counting_route (fresh_limiter\<lparr>lm_redis := Client [] [True]\<rparr>) 3"
  obtain headers lm' where run: "?rl = (Inr (Reply 200 (), headers), lm', 4)" and b: "lm_bypass lm' = 1"
    by (simp add: rate_limit_def Let_def bypassed_def incr_key_def command_cases fresh_limiter_def counting_route_def labelled_def with_headers_def)
  have n: "string_of_int 5 = ''5''" by code_simp
  show ?thesis
    using limiter_bypass_labelled [OF run] run b n by (simp add: counting_route_def fresh_limiter_def)
qed

text \<open>
  The body gate.  A route behind \<open>validate_body\<close> only ever runs on a model its schema accepted (and
  on an object where one is required); otherwise the route's state is untouched and the answer is a
  problem of status 400 or 422 whose detail has at most 500 characters.
\<close>

theorem validation_gate:
  "case validate_body py_repr model_validate require_object rq f s of
     (out, s') \<Rightarrow>
       (\<exists>body model. rq_json rq = Some body \<and> model_validate body = Inr model \<and> (out, s') = f model s \<and>
          (if require_object then \<exists>kvs. body = JObj kvs else True)) \<or>
       (\<exists>n title detail. out = Inr (Problem n title detail, []) \<and> n \<in> {400, 422} \<and> length detail \<le> 500 \<and> s' = s)"
proof (cases "rq_json rq")
  case (Some body)
  have len: "length (format_validation_error py_repr exc) \<le> 500" for exc
  proof -
    have "length (take 500 x) \<le> 500" for x :: string by simp
    then show ?thesis
      by (cases exc) (simp add: format_validation_error_def MAX_ERROR_DETAIL_def del: take_append length_take split: option.split)
  qed
  show ?thesis
  proof (cases "require_object \<and> (case body of JObj kvs \<Rightarrow> False | _ \<Rightarrow> True)")
    case True
    then show ?thesis using Some by (auto simp: validate_body_def problem_json_def)
  next
    case False
    then have "if require_object then \<exists>kvs. body = JObj kvs else True" by (cases body) auto
    with False show ?thesis
      using Some len by (cases "model_validate body") (auto simp: validate_body_def problem_json_def split: prod.splits)
  qed
qed (simp add: validate_body_def problem_json_def)

lemma words_no_space: "w \<in> set (words s) \<Longrightarrow> filter is_space w = []"
proof (induction s arbitrary: w rule: words.induct)
  case (2 c s)
  then show ?case
    by (cases "is_space c"; cases s; cases "is_space (hd s)"; cases "words s") auto
qed simp

lemma join_str_space:
  "\<forall>w \<in> set ws. filter is_space w = [] \<Longrightarrow> set (filter is_space (join_str '' '' ws)) \<subseteq> {CHR '' ''}"
  by (induction "'' ''" ws rule: join_str.induct) auto

text \<open>
  What a client sees of an error description is one bounded line: no line break or tab of it gets
  through, and it never exceeds the cap (199 bytes and an ellipsis of three).
\<close>

theorem safe_detail_clean:
  "set (filter is_space (safe_detail detail fallback)) \<subseteq> insert (CHR '' '') (set (filter is_space fallback)) \<and>
   length (safe_detail detail fallback) \<le> max 202 (length fallback)"
proof -
  have "set (filter is_space (join_str '' '' (words d))) \<subseteq> {CHR '' ''}" for d
    using words_no_space by (intro join_str_space) blast
  then have line: "set (filter is_space (take k (join_str '' '' (words d)) @ ellipsis)) \<subseteq> {CHR '' ''}" for k d
    by (auto simp: ellipsis_def is_space_def code_def dest!: in_set_takeD)
  show ?thesis
  proof (cases "detail = None \<or> detail = Some []")
    case False
    then obtain d where d: "detail = Some d" "d \<noteq> []" by auto
    let ?t = "join_str '' '' (words d)"
    have sd: "safe_detail detail fallback = (if 200 < length ?t then take 199 ?t @ ellipsis else ?t)"
      using d by (simp add: safe_detail_def MAX_DETAIL_LEN_def Let_def)
    have "length (safe_detail detail fallback) \<le> 202" by (simp add: sd ellipsis_def)
    moreover have "set (filter is_space (safe_detail detail fallback)) \<subseteq> {CHR '' ''}"
      using line [of 199 d] line [of "length ?t" d] unfolding sd by auto
    ultimately show ?thesis by auto
  qed (auto simp: safe_detail_def)
qed

section \<open>The client that is registered\<close>

lemma start_mqtt_tls:
  "start_mqtt enabled hostname file_exists tls_set_ok cfg None = Some st \<Longrightarrow> mc_use_tls cfg \<Longrightarrow> ss_tls_configured st"
  by (auto simp: start_mqtt_def start_def set_registered_def ebind_def split: if_splits sum.splits)

lemma stop_mqtt_clears: "stop_mqtt stop_client registry = None"
  by (simp add: stop_mqtt_def get_registered_def set_registered_def split: option.splits sum.splits)

end
