(* ===== verification/Observability.thy ===== *)
theory Observability imports Http Config begin

text \<open>
  \<open>src/app_factory/factory.py\<close> with its logging and tracing set-up, \<open>src/api/request_log.py\<close> and
  \<open>src/api/metrics.py\<close>: how one application is put together in a process that may make several, and
  what every HTTP request leaves in the log and in the metrics.  The Prometheus and OpenTelemetry
  libraries are data: a list of observations, a flag, an endpoint.
\<close>

section \<open>The process and its applications\<close>

datatype serving_hook = StartMqtt | EnsureAdmin
datatype shutdown_hook = StopMqtt | CloseDatabase | CloseRedis | FlushTraces
datatype before_hook = RecordStart | AnswerPreflight | StartTimer
datatype after_hook = LogRequest | ObserveRequest

record web_app =
  ap_secret_key :: string
  ap_max_content_length :: int
  ap_origins :: "string list"
  ap_wraps :: nat
  ap_serving :: "serving_hook list"
  ap_shutdown :: "shutdown_hook list"
  ap_before :: "before_hook list"
  ap_after :: "after_hook list"
  ap_metrics :: bool
  ap_trace_hook :: bool

record process_state =
  pr_log_level :: "string option"
  pr_handlers :: nat
  pr_instrumented :: bool
  pr_celery_instrumented :: nat
  pr_provider :: "string option"
  pr_tracing_shutdown :: bool
  pr_flushes :: nat

definition fresh_process :: process_state where
  "fresh_process = \<lparr>pr_log_level = None, pr_handlers = 0, pr_instrumented = False, pr_celery_instrumented = 0,
     pr_provider = None, pr_tracing_shutdown = False, pr_flushes = 0\<rparr>"

text \<open>\<open>_configured\<close> is \<open>pr_log_level \<noteq> None\<close>.\<close>

definition setup_logging :: "string \<Rightarrow> process_state \<Rightarrow> process_state" where
  "setup_logging level p =
     (if pr_log_level p \<noteq> None then p else p\<lparr>pr_log_level := Some level, pr_handlers := pr_handlers p + 1\<rparr>)"

definition configure_tracing :: "string option \<Rightarrow> process_state \<Rightarrow> process_state" where
  "configure_tracing otlp_endpoint p =
     (if pr_instrumented p then p
      else p\<lparr>pr_provider := (case otlp_endpoint of None \<Rightarrow> pr_provider p | Some e \<Rightarrow> if e = [] then pr_provider p else Some e),
             pr_celery_instrumented := pr_celery_instrumented p + 1, pr_instrumented := True\<rparr>)"

definition instrument_app :: "string option \<Rightarrow> web_app \<Rightarrow> process_state \<Rightarrow> web_app \<times> process_state" where
  "instrument_app otlp_endpoint app p =
     (let p' = configure_tracing otlp_endpoint p; app' = app\<lparr>ap_wraps := ap_wraps app + 1\<rparr> in
      (if pr_provider p' \<noteq> None \<and> \<not> ap_trace_hook app'
       then app'\<lparr>ap_shutdown := ap_shutdown app' @ [FlushTraces], ap_trace_hook := True\<rparr> else app', p'))"

text \<open>\<open>provider_ok\<close>: the provider's \<open>shutdown\<close> returns; it never raises out of the hook.\<close>

definition shutdown_tracing :: "bool \<Rightarrow> process_state \<Rightarrow> process_state" where
  "shutdown_tracing provider_ok p =
     (if pr_tracing_shutdown p then p
      else p\<lparr>pr_flushes := pr_flushes p + (if provider_ok then 1 else 0), pr_tracing_shutdown := True\<rparr>)"

definition register_request_logging :: "web_app \<Rightarrow> web_app" where
  "register_request_logging app = app\<lparr>ap_before := ap_before app @ [RecordStart], ap_after := ap_after app @ [LogRequest]\<rparr>"

definition register_request_middleware :: "web_app \<Rightarrow> web_app" where
  "register_request_middleware app =
     (let app' = register_request_logging app in app'\<lparr>ap_before := ap_before app' @ [AnswerPreflight]\<rparr>)"

definition register_metrics :: "web_app \<Rightarrow> web_app" where
  "register_metrics app =
     (if ap_metrics app then app
      else app\<lparr>ap_metrics := True, ap_before := ap_before app @ [StartTimer], ap_after := ap_after app @ [ObserveRequest]\<rparr>)"

text \<open>\<open>tracing_importable\<close>: the tracing package is there; without it the application starts untraced.
  The configuration admits only the names of \<open>LOG_LEVELS\<close>.\<close>

definition create_app :: "config_values \<Rightarrow> string option \<Rightarrow> bool \<Rightarrow> process_state \<Rightarrow> web_app \<times> process_state" where
  "create_app cfg otlp_endpoint tracing_importable p =
     (let level = map upper_char (cf_log_level cfg);
          p1 = setup_logging (if level \<in> set LOG_LEVELS then level else ''INFO'') p;
          app = \<lparr>ap_secret_key = cf_secret_key cfg, ap_max_content_length = cf_max_content_length cfg,
                 ap_origins = cors_origins_list (cf_cors_origins cfg), ap_wraps = 0,
                 ap_serving = [StartMqtt, EnsureAdmin], ap_shutdown = [StopMqtt, CloseDatabase, CloseRedis],
                 ap_before = [], ap_after = [], ap_metrics = False, ap_trace_hook = False\<rparr>;
          (app1, p2) = (if tracing_importable then instrument_app otlp_endpoint app p1 else (app, p1))
      in (register_metrics (register_request_middleware app1), p2))"

section \<open>One request\<close>

record web_request = http_request +
  rq_path :: string
  rq_rule :: "string option"
  rq_metrics_secret :: "string option"

text \<open>What the two observers keep: one log record and one sample per request.  Times are microseconds.\<close>

record log_record =
  lr_method :: string
  lr_path :: string
  lr_status :: nat
  lr_duration :: int

record sample =
  sm_method :: string
  sm_route :: string
  sm_status :: string
  sm_latency :: int

record observations =
  ob_log :: "log_record list"
  ob_samples :: "sample list"

text \<open>
  The readings of the performance counter during a request, in the order they are taken: the start
  of the log's timer, that of the metrics' timer, the end of the latter, the default of its \<open>get\<close>
  (evaluated after the end), and the end of the log's timer.
\<close>

record readings_of_clock =
  rc_log_start :: int
  rc_metrics_start :: int
  rc_metrics_end :: int
  rc_metrics_default :: int
  rc_log_end :: int

definition clock_ok :: "readings_of_clock \<Rightarrow> bool" where
  "clock_ok t \<longleftrightarrow> rc_log_start t \<le> rc_metrics_start t \<and> rc_metrics_start t \<le> rc_metrics_end t \<and>
     rc_metrics_end t \<le> rc_metrics_default t \<and> rc_metrics_default t \<le> rc_log_end t"

definition observe :: "web_request \<Rightarrow> nat \<Rightarrow> int option \<Rightarrow> readings_of_clock \<Rightarrow> sample" where
  "observe rq st started t =
     \<lparr>sm_method = rq_method rq, sm_route = str_or (rq_rule rq) ''unknown'', sm_status = string_of_nat st,
      sm_latency = rc_metrics_end t - (case started of None \<Rightarrow> rc_metrics_default t | Some s \<Rightarrow> s)\<rparr>"

definition log_request :: "web_request \<Rightarrow> nat \<Rightarrow> int option \<Rightarrow> readings_of_clock \<Rightarrow> log_record" where
  "log_request rq st started t =
     \<lparr>lr_method = rq_method rq, lr_path = rq_path rq, lr_status = st,
      lr_duration = (case started of None \<Rightarrow> 0 | Some s \<Rightarrow> rc_log_end t - s)\<rparr>"

text \<open>
  The before hooks run in their order; one that answers ends them and the route is not called.  The
  after hooks run in any case.  \<open>route\<close> is the status of the route's or the error handler's response.
\<close>

fun run_before :: "web_request \<Rightarrow> readings_of_clock \<Rightarrow> before_hook list \<Rightarrow> int option \<times> int option
    \<Rightarrow> nat option \<times> int option \<times> int option" where
  "run_before rq t [] started = (None, started)"
| "run_before rq t (RecordStart # hs) (a, b) = run_before rq t hs (Some (rc_log_start t), b)"
| "run_before rq t (AnswerPreflight # hs) started =
     (case short_circuit_preflight (http_request.truncate rq) (\<lambda>_. ()) of
        Inl n \<Rightarrow> (Some n, started)
      | Inr _ \<Rightarrow> run_before rq t hs started)"
| "run_before rq t (StartTimer # hs) (a, b) = run_before rq t hs (a, Some (rc_metrics_start t))"

fun run_after :: "web_request \<Rightarrow> nat \<Rightarrow> int option \<times> int option \<Rightarrow> readings_of_clock \<Rightarrow> after_hook list
    \<Rightarrow> observations \<Rightarrow> observations" where
  "run_after rq st started t [] ob = ob"
| "run_after rq st (a, b) t (LogRequest # hs) ob = run_after rq st (a, b) t hs (ob\<lparr>ob_log := log_request rq st a t # ob_log ob\<rparr>)"
| "run_after rq st (a, b) t (ObserveRequest # hs) ob = run_after rq st (a, b) t hs (ob\<lparr>ob_samples := observe rq st b t # ob_samples ob\<rparr>)"

definition serve_request :: "web_app \<Rightarrow> readings_of_clock \<Rightarrow> web_request \<Rightarrow> nat \<Rightarrow> observations \<Rightarrow> nat \<times> observations" where
  "serve_request app t rq route ob =
     (let (answered, started) = run_before rq t (ap_before app) (None, None);
          st = (case answered of None \<Rightarrow> route | Some n \<Rightarrow> n)
      in (st, run_after rq st started t (ap_after app) ob))"

text \<open>\<open>GET /metrics\<close>.\<close>

definition metrics_route :: "config_values \<Rightarrow> web_request \<Rightarrow> string \<Rightarrow> nat \<times> string" where
  "metrics_route cfg rq exposition =
     (let secret = cf_metrics_secret cfg; provided = (case rq_metrics_secret rq of None \<Rightarrow> [] | Some s \<Rightarrow> s) in
      if secret \<noteq> [] \<and> (provided = [] \<or> provided \<noteq> secret) then (403, ''Forbidden'') else (200, exposition))"

section \<open>Lemmas\<close>

lemma create_app_shape:
  "ap_before (fst (create_app cfg ep ti p)) = [RecordStart, AnswerPreflight, StartTimer]"
  "ap_after (fst (create_app cfg ep ti p)) = [LogRequest, ObserveRequest]"
  "ap_metrics (fst (create_app cfg ep ti p))"
  "take 3 (ap_shutdown (fst (create_app cfg ep ti p))) = [StopMqtt, CloseDatabase, CloseRedis]"
  by (auto simp: create_app_def Let_def instrument_app_def register_metrics_def register_request_middleware_def
      register_request_logging_def)

lemma register_metrics_idem: "register_metrics (register_metrics app) = register_metrics app"
  by (simp add: register_metrics_def)

text \<open>However many applications a process makes, logging and Celery are set up once, by the first.\<close>

fun create_apps :: "(config_values \<times> string option \<times> bool) list \<Rightarrow> process_state \<Rightarrow> process_state" where
  "create_apps [] p = p"
| "create_apps ((cfg, ep, ti) # cs) p = create_apps cs (snd (create_app cfg ep ti p))"

definition process_ok :: "process_state \<Rightarrow> bool" where
  "process_ok p \<longleftrightarrow> pr_handlers p = (if pr_log_level p = None then 0 else 1) \<and>
     pr_celery_instrumented p = (if pr_instrumented p then 1 else 0) \<and> pr_flushes p \<le> (if pr_tracing_shutdown p then 1 else 0)"

lemma create_app_process_ok: "process_ok p \<Longrightarrow> process_ok (snd (create_app cfg ep ti p))"
  by (auto simp: process_ok_def create_app_def Let_def instrument_app_def configure_tracing_def setup_logging_def)

lemma create_apps_process_ok: "process_ok p \<Longrightarrow> process_ok (create_apps cs p)"
  by (induction cs p rule: create_apps.induct) (simp_all add: create_app_process_ok)

lemma shutdown_tracing_process_ok: "process_ok p \<Longrightarrow> process_ok (shutdown_tracing ok (shutdown_tracing ok' p))"
  by (auto simp: process_ok_def shutdown_tracing_def split: if_splits)

lemma create_app_level_kept: "pr_log_level p \<noteq> None \<Longrightarrow> pr_log_level (snd (create_app cfg ep ti p)) = pr_log_level p"
  by (auto simp: create_app_def Let_def instrument_app_def configure_tracing_def setup_logging_def)

lemma create_apps_level: "pr_log_level p \<noteq> None \<Longrightarrow> pr_log_level (create_apps cs p) = pr_log_level p"
  by (induction cs p rule: create_apps.induct) (simp_all add: create_app_level_kept)

lemma rq_method_truncate: "rq_method (http_request.truncate rq) = rq_method rq"
  by (simp add: http_request.truncate_def)

text \<open>
  Every request to an application of the factory leaves exactly one log record and one metrics sample, both with the
  status it was answered with; the route label is a URL rule or \<open>unknown\<close>, the log has the path without
  the query, and the latency of a request that reached its route lies within the logged duration.  A
  preflight is answered 204 without the route, and its sample is the one case of a latency that is not positive.
\<close>

theorem every_request_observed:
  assumes "clock_ok t"
  shows "let (st, ob') = serve_request (fst (create_app cfg ep ti p)) t rq route ob in
    \<exists>l s. ob_log ob' = l # ob_log ob \<and> ob_samples ob' = s # ob_samples ob \<and>
      lr_status l = st \<and> sm_status s = string_of_nat st \<and> lr_path l = rq_path rq \<and>
      sm_route s \<in> {''unknown'', (case rq_rule rq of None \<Rightarrow> ''unknown'' | Some r \<Rightarrow> r)} \<and>
      (if rq_method rq = ''OPTIONS'' then st = 204 \<and> sm_latency s \<le> 0
       else st = route \<and> 0 \<le> sm_latency s \<and> sm_latency s \<le> lr_duration l)"
  using assms
  by (auto simp: serve_request_def create_app_shape short_circuit_preflight_def rq_method_truncate observe_def log_request_def
      str_or_def clock_ok_def Let_def split: option.splits)

theorem every_request_observed_witness:
  "let rq = \<lparr>rq_method = ''GET'', rq_endpoint = None, rq_real_ip = None, rq_remote_addr = None, rq_json = None, rq_path = ''/x'',
         rq_rule = None, rq_metrics_secret = None\<rparr>;
       t = \<lparr>rc_log_start = 1, rc_metrics_start = 2, rc_metrics_end = 7, rc_metrics_default = 8, rc_log_end = 9\<rparr>
   in fst (serve_request (fst (create_app CONFIG_DEFAULTS None True fresh_process)) t rq 404 \<lparr>ob_log = [], ob_samples = []\<rparr>) = 404"
proof -
  let ?rq = "\<lparr>rq_method = ''GET'', rq_endpoint = None, rq_real_ip = None, rq_remote_addr = None, rq_json = None, rq_path = ''/x'',
         rq_rule = None, rq_metrics_secret = None\<rparr>"
  let ?t = "\<lparr>rc_log_start = 1, rc_metrics_start = 2, rc_metrics_end = 7, rc_metrics_default = 8, rc_log_end = 9\<rparr>"
  have "clock_ok ?t" by (simp add: clock_ok_def)
  from every_request_observed [OF this, of CONFIG_DEFAULTS None True fresh_process ?rq 404 "\<lparr>ob_log = [], ob_samples = []\<rparr>"]
  show ?thesis by (auto split: prod.splits)
qed

text \<open>
  With a metrics secret configured, \<open>/metrics\<close> answers only a request that presents it; without one it is open.
\<close>

lemma metrics_gate:
  "fst (metrics_route cfg rq exposition) = 200 \<longleftrightarrow>
     cf_metrics_secret cfg = [] \<or> rq_metrics_secret rq = Some (cf_metrics_secret cfg)"
  by (auto simp: metrics_route_def Let_def split: option.splits)

end
