(* ===== verification/Mqtt_Ingest.thy ===== *)
theory Mqtt_Ingest imports Mqtt_Messages begin

text \<open>
  \<open>src/mqtt/client.py\<close>, the message path: the per-node limiter with its eviction, routing in
  \<open>_on_message\<close>, the bounded queue with its backpressure, the worker and the drain at shutdown.
  Parameters: \<open>ie_loads\<close> (\<open>json.loads\<close>), \<open>ie_pd\<close> (pydantic), \<open>ie_fromiso\<close>, what \<open>delay\<close> and
  \<open>broadcast\<close> do.  Monotonic and wall times are microseconds.
\<close>

section \<open>State\<close>

definition NODE_MSG_MIN_INTERVAL :: int where "NODE_MSG_MIN_INTERVAL = 500000"
definition NODE_LAST_SEEN_MAX :: nat where "NODE_LAST_SEEN_MAX = 10000"
definition NODE_LAST_SEEN_PRUNE_TO :: nat where "NODE_LAST_SEEN_PRUNE_TO = 9000"
definition BACKLOG_FRESHNESS_S :: int where "BACKLOG_FRESHNESS_S = 60"
definition MAX_PAYLOAD_BYTES :: nat where "MAX_PAYLOAD_BYTES = 64 * 1024"
definition DISPATCH_MAX_ATTEMPTS :: nat where "DISPATCH_MAX_ATTEMPTS = 3"

type_synonym last_seen = "(string \<times> int) list"

text \<open>A queued message: node id, kind and text.\<close>

type_synonym queued = "string \<times> string \<times> string"

record ingest =
  in_seen :: last_seen
  in_queue :: "queued list"
  in_overflow :: nat
  in_dropped :: nat
  in_sent :: "(string \<times> json) list list"
  in_broadcast :: "(string \<times> json) list list"
  in_nodes :: "node list"

record ingest_env =
  ie_loads :: "string \<Rightarrow> json option"
  ie_pd :: pydantic
  ie_fromiso :: "string \<Rightarrow> datetime option"
  ie_queue_max :: int
  ie_enqueue_attempts :: nat

section \<open>The limiter\<close>

definition prune_seen :: "last_seen \<Rightarrow> last_seen" where
  "prune_seen d =
     (let oldest_first = map fst (sort_key snd d);
          doomed = take (length d - NODE_LAST_SEEN_PRUNE_TO) oldest_first
      in filter (\<lambda>(k, t). k \<notin> set doomed) d)"

definition node_rate_limited :: "int \<Rightarrow> string \<Rightarrow> last_seen \<Rightarrow> bool \<times> last_seen" where
  "node_rate_limited now node_id d =
     (if (case map_of d node_id of None \<Rightarrow> False | Some seen_at \<Rightarrow> now - seen_at < NODE_MSG_MIN_INTERVAL) then (True, d)
      else let d' = dict_set node_id now d
           in (False, if NODE_LAST_SEEN_MAX < length d' then prune_seen d' else d'))"

definition device_time_is_stale :: "ingest_env \<Rightarrow> timestamp \<Rightarrow> string \<Rightarrow> bool" where
  "device_time_is_stale env wall raw =
     (case ie_loads env raw of
        Some (JObj doc) \<Rightarrow>
          (case get doc ''time'' of
             JStr s \<Rightarrow> (case ie_fromiso env s of None \<Rightarrow> False | Some dt \<Rightarrow> seconds BACKLOG_FRESHNESS_S \<le> wall - to_utc dt)
           | _ \<Rightarrow> False)
      | _ \<Rightarrow> False)"

section \<open>The queue\<close>

text \<open>\<open>queue.Queue(maxsize)\<close>: a bound that is not positive is none.\<close>

definition queue_full :: "int \<Rightarrow> 'a list \<Rightarrow> bool" where
  "queue_full bound q = (0 < bound \<and> bound \<le> int (length q))"

text \<open>
  \<open>_enqueue\<close>: \<open>freed\<close> lists how many messages the worker takes while each attempt waits; the
  messages taken are the first component.
\<close>

fun put_attempts :: "int \<Rightarrow> nat list \<Rightarrow> 'a \<Rightarrow> 'a list \<Rightarrow> 'a list \<times> 'a list \<times> bool" where
  "put_attempts bound [] m q = ([], q, False)"
| "put_attempts bound (k # ks) m q =
     (let taken = take k q; q' = drop k q in
      if queue_full bound q' then (let (more, q'', ok) = put_attempts bound ks m q' in (taken @ more, q'', ok))
      else (taken, q' @ [m], True))"

definition enqueue :: "ingest_env \<Rightarrow> nat list \<Rightarrow> queued \<Rightarrow> ingest \<Rightarrow> queued list \<times> ingest" where
  "enqueue env freed m st =
     (let (taken, q, ok) = put_attempts (ie_queue_max env) (take (ie_enqueue_attempts env) freed) m (in_queue st)
      in (taken, if ok then st\<lparr>in_queue := q\<rparr> else st\<lparr>in_queue := q, in_overflow := in_overflow st + 1\<rparr>))"

section \<open>Routing\<close>

text \<open>A message: topic, size in bytes and its UTF-8 text, if it is one.\<close>

record message =
  mg_topic :: string
  mg_size :: nat
  mg_text :: "string option"

definition on_message :: "ingest_env \<Rightarrow> int \<Rightarrow> timestamp \<Rightarrow> nat list \<Rightarrow> message \<Rightarrow> ingest \<Rightarrow> queued list \<times> ingest" where
  "on_message env now wall freed m st =
     (if MAX_PAYLOAD_BYTES < mg_size m then ([], st)
      else case mg_text m of
        None \<Rightarrow> ([], st)
      | Some raw \<Rightarrow>
          (if mg_topic m = ALERTS_TOPIC then enqueue env freed (ALERTS_TOPIC, ''alert'', raw) st
           else case match_topic (mg_topic m) of
             None \<Rightarrow> ([], st)
           | Some (node_id, kind) \<Rightarrow>
               (if \<not> node_id_ok node_id then ([], st)
                else let (limited, seen) = node_rate_limited now node_id (in_seen st);
                         st1 = st\<lparr>in_seen := seen\<rparr>
                     in if limited \<and> \<not> device_time_is_stale env wall raw then ([], st1)
                        else enqueue env freed (node_id, kind, raw) st1)))"

section \<open>Handlers\<close>

definition json_object :: "ingest_env \<Rightarrow> string \<Rightarrow> (string \<times> json) list option" where
  "json_object env raw = (case ie_loads env raw of Some (JObj doc) \<Rightarrow> Some doc | _ \<Rightarrow> None)"

text \<open>\<open>for attempt in range(1, max + 1)\<close>; \<open>delay_ok\<close> says which call of \<open>delay\<close> returns.\<close>

fun dispatch_loop :: "(nat \<Rightarrow> bool) \<Rightarrow> (string \<times> json) list \<Rightarrow> nat list \<Rightarrow> ingest \<Rightarrow> ingest" where
  "dispatch_loop delay_ok doc [] st = st"
| "dispatch_loop delay_ok doc (attempt # rest) st =
     (if delay_ok attempt then st\<lparr>in_sent := in_sent st @ [doc]\<rparr>
      else if attempt = DISPATCH_MAX_ATTEMPTS then st\<lparr>in_dropped := in_dropped st + 1\<rparr>
      else dispatch_loop delay_ok doc rest st)"

definition dispatch_reading :: "ingest_env \<Rightarrow> (nat \<Rightarrow> bool) \<Rightarrow> reading_payload \<Rightarrow> ingest \<Rightarrow> ingest" where
  "dispatch_reading env delay_ok p st =
     dispatch_loop delay_ok (dump_reading (ie_pd env) p) [1..<DISPATCH_MAX_ATTEMPTS + 1] st"

definition handle_reading :: "ingest_env \<Rightarrow> (nat \<Rightarrow> bool) \<Rightarrow> string \<Rightarrow> string \<Rightarrow> ingest \<Rightarrow> ingest" where
  "handle_reading env delay_ok node_id raw st =
     (case json_object env raw of
        None \<Rightarrow> st
      | Some data \<Rightarrow>
          (case validate_reading (ie_pd env) (dict_set ''node_id'' (JStr node_id) data) of
             None \<Rightarrow> st
           | Some p \<Rightarrow> dispatch_reading env delay_ok p st))"

text \<open>A database failure is logged only.\<close>

definition handle_status :: "ingest_env \<Rightarrow> bool \<Rightarrow> timestamp \<Rightarrow> string \<Rightarrow> string \<Rightarrow> ingest \<Rightarrow> ingest" where
  "handle_status env reachable wall node_id raw st =
     (case json_object env raw of
        None \<Rightarrow> st
      | Some data \<Rightarrow>
          (case validate_status (ie_pd env) data of
             Some True \<Rightarrow>
               (if reachable then st\<lparr>in_nodes := update_where (\<lambda>n. n_node_id n = node_id) (\<lambda>n. n\<lparr>n_last_seen := Some wall\<rparr>) (in_nodes st)\<rparr>
                else st)
           | _ \<Rightarrow> st))"

definition handle_alert :: "ingest_env \<Rightarrow> bool \<Rightarrow> string \<Rightarrow> ingest \<Rightarrow> py_error + ingest" where
  "handle_alert env broadcast_ok raw st =
     (case json_object env raw of
        None \<Rightarrow> Inr st
      | Some doc \<Rightarrow> if broadcast_ok then Inr (st\<lparr>in_broadcast := in_broadcast st @ [doc]\<rparr>) else Inl RuntimeError)"

section \<open>The worker\<close>

text \<open>What the outside does while one message is handled.\<close>

record luck =
  lk_delay_ok :: "nat \<Rightarrow> bool"
  lk_db_ok :: bool
  lk_broadcast_ok :: bool
  lk_wall :: timestamp

definition worker_handle :: "ingest_env \<Rightarrow> luck \<Rightarrow> queued \<Rightarrow> ingest \<Rightarrow> ingest" where
  "worker_handle env lk m st =
     (case m of (node_id, kind, raw) \<Rightarrow>
        if kind = ''reading'' then handle_reading env (lk_delay_ok lk) node_id raw st
        else if kind = ''alert'' then (case handle_alert env (lk_broadcast_ok lk) raw st of Inl e \<Rightarrow> st | Inr st' \<Rightarrow> st')
        else handle_status env (lk_db_ok lk) (lk_wall lk) node_id raw st)"

text \<open>One turn of \<open>_run_worker\<close> with a message, or an empty poll.\<close>

definition worker_step :: "ingest_env \<Rightarrow> luck \<Rightarrow> ingest \<Rightarrow> ingest" where
  "worker_step env lk st =
     (case in_queue st of [] \<Rightarrow> st | m # q \<Rightarrow> worker_handle env lk m (st\<lparr>in_queue := q\<rparr>))"

section \<open>The drain of \<open>stop()\<close>\<close>

text \<open>
  \<open>world i\<close> is what the outside does during the i-th turn and whether the deadline has passed when its
  message has been handled; a handler that raises skips that check.  Status messages are taken and
  dropped.
\<close>

fun drain_loop :: "ingest_env \<Rightarrow> nat \<Rightarrow> (nat \<Rightarrow> luck \<times> bool) \<Rightarrow> nat \<Rightarrow> nat \<Rightarrow> queued list \<Rightarrow> ingest \<Rightarrow> nat \<times> ingest" where
  "drain_loop env most world i drained [] st = (drained, st\<lparr>in_queue := []\<rparr>)"
| "drain_loop env most world i drained ((node_id, kind, raw) # q) st =
     (if \<not> drained < most then (drained, st\<lparr>in_queue := (node_id, kind, raw) # q\<rparr>)
      else let (lk, late) = world i in
        if kind = ''alert'' then
          (case handle_alert env (lk_broadcast_ok lk) raw st of
             Inl e \<Rightarrow> drain_loop env most world (i + 1) drained q st
           | Inr st1 \<Rightarrow> if late then (drained + 1, st1\<lparr>in_queue := q\<rparr>)
                        else drain_loop env most world (i + 1) (drained + 1) q st1)
        else let st1 = (if kind = ''reading'' then handle_reading env (lk_delay_ok lk) node_id raw st else st);
                 n = (if kind = ''reading'' then drained + 1 else drained)
             in if late then (n, st1\<lparr>in_queue := q\<rparr>) else drain_loop env most world (i + 1) n q st1)"

definition drain :: "ingest_env \<Rightarrow> (nat \<Rightarrow> luck \<times> bool) \<Rightarrow> ingest \<Rightarrow> nat \<times> ingest" where
  "drain env world st = drain_loop env (nat (ie_queue_max env * 2)) world 0 0 (in_queue st) st"

section \<open>The bounded containers\<close>

text \<open>Eviction removes the oldest entries and leaves the target size.\<close>

definition evicted :: "last_seen \<Rightarrow> last_seen" where
  "evicted d = take (length d - NODE_LAST_SEEN_PRUNE_TO) (sort_key snd d)"

lemma prune_seen_alt: "prune_seen d = filter (\<lambda>e. fst e \<notin> fst ` set (evicted d)) d"
  unfolding prune_seen_def evicted_def Let_def take_map set_map case_prod_unfold ..

lemma prune_seen_split:
  assumes "distinct (map fst d)"
  shows "set d = set (prune_seen d) \<union> set (evicted d)" "fst ` set (prune_seen d) \<inter> fst ` set (evicted d) = {}"
    "length (prune_seen d) + length (evicted d) = length d"
proof -
  have sub: "set (evicted d) \<subseteq> set d" unfolding evicted_def by (metis set_take_subset set_sort)
  have mem: "e \<in> set (evicted d)" if "e \<in> set d" "fst e \<in> fst ` set (evicted d)" for e
    using that sub assms by (metis (no_types, lifting) distinct_map_eq image_iff subsetD)
  show "set d = set (prune_seen d) \<union> set (evicted d)" using mem sub by (auto simp: prune_seen_alt)
  show "fst ` set (prune_seen d) \<inter> fst ` set (evicted d) = {}" by (auto simp: prune_seen_alt)
  have dd: "distinct d" using assms by (simp add: distinct_map)
  then have "distinct (sort_key snd d)" by simp
  then have de: "distinct (evicted d)" by (simp add: evicted_def)
  have "filter (\<lambda>e. fst e \<in> fst ` set (evicted d)) d = filter (\<lambda>e. e \<in> set (evicted d)) d"
    by (rule filter_cong) (use mem in auto)
  moreover have "length (filter (\<lambda>e. e \<in> set (evicted d)) d) = length (evicted d)"
  proof -
    have "set (filter (\<lambda>e. e \<in> set (evicted d)) d) = set (evicted d)" using sub by auto
    then show ?thesis using distinct_card [OF de] distinct_card [OF distinct_filter [OF dd]] by metis
  qed
  ultimately show "length (prune_seen d) + length (evicted d) = length d"
    using sum_length_filter_compl [of "\<lambda>e. fst e \<notin> fst ` set (evicted d)" d] by (simp add: prune_seen_alt)
qed

lemma evicted_length: "length (evicted d) = length d - NODE_LAST_SEEN_PRUNE_TO"
  by (simp add: evicted_def)

lemma evicted_oldest:
  assumes "distinct (map fst d)" "e \<in> set (prune_seen d)" "old \<in> set (evicted d)"
  shows "snd old \<le> snd e"
proof -
  let ?n = "length d - NODE_LAST_SEEN_PRUNE_TO" and ?s = "sort_key snd d"
  have "sorted (map snd (take ?n ?s) @ map snd (drop ?n ?s))"
    by (metis append_take_drop_id map_append sorted_sort_key)
  moreover have "e \<in> set (drop ?n ?s)"
  proof -
    have "e \<in> set ?s" using assms(2) by (auto simp: prune_seen_alt)
    moreover have "e \<notin> set (take ?n ?s)" using assms(2) by (auto simp: prune_seen_alt evicted_def)
    ultimately show ?thesis by (metis Un_iff append_take_drop_id set_append)
  qed
  ultimately show ?thesis using assms(3) by (auto simp: evicted_def sorted_append)
qed

section \<open>The limiter's table\<close>

abbreviation limiter_put :: "int \<times> string \<Rightarrow> last_seen \<Rightarrow> last_seen" where
  "limiter_put m d \<equiv> snd (node_rate_limited (fst m) (snd m) d)"

lemma limiter_distinct: "distinct (map fst d) \<Longrightarrow> distinct (map fst (snd (node_rate_limited now n d)))"
proof -
  assume d: "distinct (map fst d)"
  have "distinct (map fst (filter P xs))" if "distinct (map fst xs)" for P and xs :: last_seen
    using that by (induction xs) auto
  then show ?thesis using d dict_set_distinct [OF d]
    by (auto simp: node_rate_limited_def Let_def prune_seen_alt split: option.splits)
qed

lemma limiter_size:
  assumes "distinct (map fst d)" "length d \<le> NODE_LAST_SEEN_MAX"
  shows "length (snd (node_rate_limited now n d)) \<le> NODE_LAST_SEEN_MAX"
proof -
  have "length (prune_seen (dict_set n now d)) \<le> NODE_LAST_SEEN_PRUNE_TO" if "NODE_LAST_SEEN_MAX < length (dict_set n now d)"
    using prune_seen_split(3) [OF dict_set_distinct [OF assms(1)], of n now] that
    by (simp add: evicted_length NODE_LAST_SEEN_PRUNE_TO_def NODE_LAST_SEEN_MAX_def)
  then show ?thesis using assms(2)
    by (auto simp: node_rate_limited_def Let_def NODE_LAST_SEEN_PRUNE_TO_def NODE_LAST_SEEN_MAX_def split: option.splits)
qed

text \<open>Size counted over tables with distinct keys; a table with repeated keys counts as too big.\<close>

definition seen_size :: "last_seen \<Rightarrow> nat" where
  "seen_size d = (if distinct (map fst d) then length d else Suc NODE_LAST_SEEN_MAX)"

interpretation limiter: bounded seen_size limiter_put NODE_LAST_SEEN_MAX
  by unfold_locales (auto simp: seen_size_def limiter_distinct limiter_size split: if_splits)

section \<open>The queue\<close>

definition queue_bounded :: "int \<Rightarrow> 'a list \<Rightarrow> bool" where
  "queue_bounded bound q = (0 < bound \<longrightarrow> int (length q) \<le> bound)"

lemma put_attempts_fifo:
  "put_attempts bound freed m q = (taken, q', ok) \<Longrightarrow> taken @ q' = (if ok then q @ [m] else q)"
proof (induction freed arbitrary: q taken q' ok)
  case (Cons k ks)
  show ?case
  proof (cases "queue_full bound (drop k q)")
    case True
    obtain more q'' ok' where r: "put_attempts bound ks m (drop k q) = (more, q'', ok')" by (metis prod_cases3)
    have "more @ q'' = (if ok' then drop k q @ [m] else drop k q)" by (rule Cons.IH [OF r])
    moreover have "taken = take k q @ more" "q' = q''" "ok = ok'" using Cons.prems True r by auto
    ultimately show ?thesis by (metis append.assoc append_take_drop_id)
  next
    case False
    then show ?thesis using Cons.prems by auto
  qed
qed simp

lemma put_attempts_bounded:
  "put_attempts bound freed m q = (taken, q', ok) \<Longrightarrow> queue_bounded bound q \<Longrightarrow> queue_bounded bound q'"
proof (induction freed arbitrary: q taken q' ok)
  case (Cons k ks)
  then have b: "queue_bounded bound (drop k q)" by (auto simp: queue_bounded_def)
  show ?case
  proof (cases "queue_full bound (drop k q)")
    case True
    obtain more q'' ok' where r: "put_attempts bound ks m (drop k q) = (more, q'', ok')" by (metis prod_cases3)
    then have "q' = q''" using Cons.prems(1) True by simp
    then show ?thesis using Cons.IH [OF r b] by simp
  next
    case False
    then have "q' = drop k q @ [m]" using Cons.prems(1) by simp
    then show ?thesis using False by (auto simp: queue_bounded_def queue_full_def)
  qed
qed simp

lemma put_attempts_full:
  "put_attempts bound freed m q = (taken, q', False) \<Longrightarrow> freed \<noteq> [] \<Longrightarrow> queue_full bound q'"
proof (induction freed arbitrary: q taken q')
  case (Cons k ks)
  then have f: "queue_full bound (drop k q)" by (auto simp: Let_def split: if_splits)
  obtain more q'' ok' where r: "put_attempts bound ks m (drop k q) = (more, q'', ok')" by (metis prod_cases3)
  then have e: "q' = q''" "\<not> ok'" using Cons.prems(1) f by simp_all
  have ih: "put_attempts bound ks m (drop k q) = (more, q'', False) \<Longrightarrow> ks \<noteq> [] \<Longrightarrow> queue_full bound q''"
    by (rule Cons.IH)
  show ?case
  proof (cases ks)
    case Nil
    then show ?thesis using r f e by simp
  next
    case (Cons j js)
    then show ?thesis using ih r e by simp
  qed
qed simp

lemma enqueue_frame [simp]:
  "in_seen (snd (enqueue env freed m st)) = in_seen st" "in_sent (snd (enqueue env freed m st)) = in_sent st"
  "in_dropped (snd (enqueue env freed m st)) = in_dropped st" "in_nodes (snd (enqueue env freed m st)) = in_nodes st"
  "in_broadcast (snd (enqueue env freed m st)) = in_broadcast st"
  by (simp_all add: enqueue_def split: prod.splits)

lemma enqueue_cases:
  assumes "enqueue env freed m st = (taken, st')"
  shows "queue_bounded (ie_queue_max env) (in_queue st) \<Longrightarrow> queue_bounded (ie_queue_max env) (in_queue st')"
    "(taken @ in_queue st' = in_queue st @ [m] \<and> in_overflow st' = in_overflow st) \<or>
     (taken @ in_queue st' = in_queue st \<and> in_overflow st' = in_overflow st + 1 \<and>
        (take (ie_enqueue_attempts env) freed = [] \<or> queue_full (ie_queue_max env) (in_queue st')))"
proof -
  obtain t q ok where p: "put_attempts (ie_queue_max env) (take (ie_enqueue_attempts env) freed) m (in_queue st) = (t, q, ok)"
    by (metis prod_cases3)
  then have e: "taken = t" "st' = (if ok then st\<lparr>in_queue := q\<rparr> else st\<lparr>in_queue := q, in_overflow := in_overflow st + 1\<rparr>)"
    using assms by (simp_all add: enqueue_def)
  show "queue_bounded (ie_queue_max env) (in_queue st')" if "queue_bounded (ie_queue_max env) (in_queue st)"
    using put_attempts_bounded [OF p that] by (simp add: e)
  show "(taken @ in_queue st' = in_queue st @ [m] \<and> in_overflow st' = in_overflow st) \<or>
     (taken @ in_queue st' = in_queue st \<and> in_overflow st' = in_overflow st + 1 \<and>
        (take (ie_enqueue_attempts env) freed = [] \<or> queue_full (ie_queue_max env) (in_queue st')))"
  proof (cases ok)
    case True
    then show ?thesis using put_attempts_fifo [OF p] by (simp add: e)
  next
    case False
    then have f: "take (ie_enqueue_attempts env) freed \<noteq> [] \<Longrightarrow> queue_full (ie_queue_max env) q"
      using put_attempts_full p by metis
    show ?thesis using False put_attempts_fifo [OF p] f by (auto simp: e)
  qed
qed

section \<open>Handlers\<close>

text \<open>What a queued message may be.\<close>

definition queued_ok :: "queued \<Rightarrow> bool" where
  "queued_ok m = (case m of (n, k, raw) \<Rightarrow>
     (n = ALERTS_TOPIC \<and> k = ''alert'') \<or> (node_id_ok n \<and> k \<in> {''reading'', ''status''}))"

lemma on_message_cases:
  obtains st0 where "on_message env now wall freed m st = ([], st0)" "in_queue st0 = in_queue st"
      "in_overflow st0 = in_overflow st"
  | q st0 where "on_message env now wall freed m st = enqueue env freed q st0" "in_queue st0 = in_queue st"
      "in_overflow st0 = in_overflow st" "queued_ok q"
      "mg_topic m = (case q of (n, k, raw) \<Rightarrow> if k = ''alert'' then n else ''air/node/'' @ n @ ''/'' @ k)"
proof (cases "\<exists>st0. on_message env now wall freed m st = ([], st0) \<and> in_queue st0 = in_queue st \<and> in_overflow st0 = in_overflow st")
  case True
  then show ?thesis using that(1) by blast
next
  case no: False
  then obtain raw where raw: "mg_text m = Some raw" "\<not> MAX_PAYLOAD_BYTES < mg_size m"
    by (auto simp: on_message_def split: if_splits option.splits)
  show ?thesis
  proof (cases "mg_topic m = ALERTS_TOPIC")
    case True
    then show ?thesis using that(2) [of "(ALERTS_TOPIC, ''alert'', raw)" st] raw
      by (simp add: on_message_def queued_ok_def)
  next
    case False
    then obtain n k where mt: "match_topic (mg_topic m) = Some (n, k)" and n: "node_id_ok n"
      using no raw by (auto simp: on_message_def split: if_splits option.splits)
    obtain limited seen where l: "node_rate_limited now n (in_seen st) = (limited, seen)" by (metis surj_pair)
    have "on_message env now wall freed m st = enqueue env freed (n, k, raw) (st\<lparr>in_seen := seen\<rparr>)"
      using no False raw mt n l by (auto simp: on_message_def Let_def split: if_splits)
    then show ?thesis using that(2) [of "(n, k, raw)" "st\<lparr>in_seen := seen\<rparr>"] match_topic_Some [OF mt] n
      by (auto simp: queued_ok_def)
  qed
qed

lemma dispatch_loop_frame [simp]:
  "in_queue (dispatch_loop f doc as st) = in_queue st" "in_overflow (dispatch_loop f doc as st) = in_overflow st"
  "in_seen (dispatch_loop f doc as st) = in_seen st" "in_nodes (dispatch_loop f doc as st) = in_nodes st"
  "in_broadcast (dispatch_loop f doc as st) = in_broadcast st"
  by (induction f doc as st rule: dispatch_loop.induct) auto

text \<open>Three attempts, exactly one outcome.\<close>

lemma dispatch_reading_alt:
  "dispatch_reading env delay_ok p st =
     (if delay_ok 1 \<or> delay_ok 2 \<or> delay_ok 3 then st\<lparr>in_sent := in_sent st @ [dump_reading (ie_pd env) p]\<rparr>
      else st\<lparr>in_dropped := in_dropped st + 1\<rparr>)"
  by (simp add: dispatch_reading_def DISPATCH_MAX_ATTEMPTS_def upt_rec numeral_3_eq_3 numeral_2_eq_2)

lemma handle_reading_frame [simp]:
  "in_queue (handle_reading env f n raw st) = in_queue st" "in_overflow (handle_reading env f n raw st) = in_overflow st"
  "in_seen (handle_reading env f n raw st) = in_seen st" "in_nodes (handle_reading env f n raw st) = in_nodes st"
  "in_broadcast (handle_reading env f n raw st) = in_broadcast st"
  by (simp_all add: handle_reading_def dispatch_reading_def split: option.splits)

text \<open>A reading the device sent under topic id \<open>n\<close>, validated.\<close>

definition accepted_reading :: "ingest_env \<Rightarrow> string \<Rightarrow> string \<Rightarrow> (string \<times> json) list option" where
  "accepted_reading env n raw =
     (case json_object env raw of None \<Rightarrow> None
      | Some data \<Rightarrow> map_option (dump_reading (ie_pd env)) (validate_reading (ie_pd env) (dict_set ''node_id'' (JStr n) data)))"

lemma handle_reading_alt:
  "handle_reading env f n raw st =
     (case accepted_reading env n raw of None \<Rightarrow> st
      | Some doc \<Rightarrow> if f 1 \<or> f 2 \<or> f 3 then st\<lparr>in_sent := in_sent st @ [doc]\<rparr> else st\<lparr>in_dropped := in_dropped st + 1\<rparr>)"
  by (auto simp: handle_reading_def accepted_reading_def dispatch_reading_alt split: option.splits)

lemma get_dict_set: "get (dict_set k v d) k' = (if k' = k then v else get d k')"
  by (simp add: get_def dict_set_map_of)

lemma dump_reading_get:
  "get (dump_reading pd p) ''node_id'' = jstr (rp_node_id p)"
  "get (dump_reading pd p) ''time'' = jstr (map_option (pd_iso pd) (rp_time p))"
  by (simp_all add: dump_reading_def get_def)

lemma accepted_reading_id:
  "accepted_reading env n raw = Some doc \<Longrightarrow> get doc ''node_id'' = JStr n \<and> node_id_ok n"
proof -
  assume "accepted_reading env n raw = Some doc"
  then obtain data p where v: "validate_reading (ie_pd env) (dict_set ''node_id'' (JStr n) data) = Some p"
      "doc = dump_reading (ie_pd env) p"
    by (auto simp: accepted_reading_def split: option.splits)
  then have "rp_node_id p = Some n"
    using validate_reading_id [OF v(1)] by (auto simp: get_dict_set jstr_def split: option.splits)
  then show ?thesis using validate_reading_id_ok [OF v(1)] by (simp add: v(2) dump_reading_get jstr_def)
qed

text \<open>Every float field of a dispatched document is null or a number within the declared bounds.\<close>

definition fields_ok :: "(string \<times> json) list \<Rightarrow> bool" where
  "fields_ok doc = list_all (\<lambda>(k, lo, hi). case get doc k of JNull \<Rightarrow> True | JFloat (Fin x) \<Rightarrow> in_bounds lo hi x | _ \<Rightarrow> False)
     FLOAT_FIELDS"

lemma float_field_names: "distinct (map fst FLOAT_FIELDS)" "''node_id'' \<notin> fst ` set FLOAT_FIELDS" "''time'' \<notin> fst ` set FLOAT_FIELDS"
  by (simp_all add: FLOAT_FIELDS_def)

lemma dump_reading_field:
  "k \<in> fst ` set FLOAT_FIELDS \<Longrightarrow> get (dump_reading pd p) k = (case map_of (rp_fields p) k of None \<Rightarrow> JNull | Some x \<Rightarrow> jnum x)"
proof -
  assume k: "k \<in> fst ` set FLOAT_FIELDS"
  then have "k \<noteq> ''node_id''" "k \<noteq> ''time''" using float_field_names by blast+
  then show ?thesis
    by (simp add: get_def dump_reading_def map_of_map [of jnum] split: option.splits)
qed

lemma accepted_reading_fields: "accepted_reading env n raw = Some doc \<Longrightarrow> fields_ok doc"
proof -
  assume "accepted_reading env n raw = Some doc"
  then obtain data p where v: "validate_reading (ie_pd env) data = Some p" "doc = dump_reading (ie_pd env) p"
    by (auto simp: accepted_reading_def split: option.splits)
  note r = float_fields_range [OF validate_reading_fields [OF v(1)]]
  have "case get doc k of JNull \<Rightarrow> True | JFloat (Fin x) \<Rightarrow> in_bounds lo hi x | _ \<Rightarrow> False" if f: "(k, lo, hi) \<in> set FLOAT_FIELDS" for k lo hi
  proof (cases "map_of (rp_fields p) k")
    case (Some y)
    show ?thesis
    proof (cases y)
      case (Some x)
      then have "(k, Some x) \<in> set (rp_fields p)" using \<open>map_of (rp_fields p) k = Some y\<close> by (auto dest: map_of_SomeD)
      then obtain lo' hi' where "(k, lo', hi') \<in> set FLOAT_FIELDS" "in_bounds lo' hi' x" using r by blast
      moreover have "(lo', hi') = (lo, hi)"
        using float_field_names(1) f calculation(1) by (auto dest!: map_of_is_SomeI [OF float_field_names(1)])
      ultimately show ?thesis using dump_reading_field [of k] f Some \<open>map_of (rp_fields p) k = Some y\<close>
        by (force simp: v(2) jnum_def)
    qed (use dump_reading_field [of k] f \<open>map_of (rp_fields p) k = Some y\<close> in \<open>force simp: v(2) jnum_def\<close>)
  qed (use dump_reading_field [of k] f in \<open>force simp: v(2)\<close>)
  then show ?thesis by (auto simp: fields_ok_def list_all_iff)
qed

section \<open>The drain\<close>

definition accepted_docs :: "ingest_env \<Rightarrow> queued list \<Rightarrow> (string \<times> json) list list" where
  "accepted_docs env q = List.map_filter (\<lambda>(n, k, raw). if k = ''reading'' then accepted_reading env n raw else None) q"

lemma accepted_docs_simps [simp]:
  "accepted_docs env [] = []"
  "accepted_docs env ((n, k, raw) # q) =
     (if k = ''reading'' then (case accepted_reading env n raw of None \<Rightarrow> accepted_docs env q | Some doc \<Rightarrow> doc # accepted_docs env q)
      else accepted_docs env q)"
  by (simp_all add: accepted_docs_def map_filter_simps split: option.splits)

definition settled :: "ingest \<Rightarrow> nat" where "settled st = length (in_sent st) + in_dropped st"

lemma settled_reading:
  "settled (handle_reading env f n raw st) = settled st + (case accepted_reading env n raw of None \<Rightarrow> 0 | Some _ \<Rightarrow> 1)"
  by (simp add: settled_def handle_reading_alt split: option.splits)

lemma settled_alert: "handle_alert env b raw st = Inr st' \<Longrightarrow> settled st' = settled st"
  by (auto simp: handle_alert_def settled_def split: option.splits if_splits)

lemma settled_queue [simp]: "settled (st\<lparr>in_queue := q\<rparr>) = settled st"
  by (simp add: settled_def)

lemma drain_loop_accounts:
  "drain_loop env most world i drained q st = (n, st') \<Longrightarrow>
   \<exists>handled. q = handled @ in_queue st' \<and> settled st' = settled st + length (accepted_docs env handled)"
proof (induction env most world i drained q st rule: drain_loop.induct)
  case (2 env most world i drained nid kind raw q st)
  obtain lk late where w: "world i = (lk, late)" by (metis surj_pair)
  show ?case
  proof (cases "drained < most")
    case m: True
    show ?thesis
    proof (cases "kind = ''alert''")
      case True
      show ?thesis
      proof (cases "handle_alert env (lk_broadcast_ok lk) raw st")
        case (Inl e)
        then obtain h where "q = h @ in_queue st'" "settled st' = settled st + length (accepted_docs env h)"
          using "2.IH"(1) [OF _ w [symmetric] refl True Inl] "2.prems" m w True by auto
        then show ?thesis using True by (intro exI [of _ "(nid, kind, raw) # h"]) simp
      next
        case (Inr st1)
        show ?thesis
        proof (cases late)
          case l: True
          then have "st' = st1\<lparr>in_queue := q\<rparr>" using "2.prems" m w True Inr by simp
          then show ?thesis using True settled_alert [OF Inr] by (intro exI [of _ "[(nid, kind, raw)]"]) simp
        next
          case nl: False
          then obtain h where "q = h @ in_queue st'" "settled st' = settled st1 + length (accepted_docs env h)"
            using "2.IH"(2) [OF _ w [symmetric] refl True Inr nl] "2.prems" m w True Inr by auto
          then show ?thesis using True settled_alert [OF Inr] by (intro exI [of _ "(nid, kind, raw) # h"]) simp
        qed
      qed
    next
      case False
      let ?st1 = "if kind = ''reading'' then handle_reading env (lk_delay_ok lk) nid raw st else st"
      have s: "settled ?st1 = settled st + length (accepted_docs env [(nid, kind, raw)])"
        by (simp add: settled_reading split: option.splits)
      show ?thesis
      proof (cases late)
        case True
        then have "st' = ?st1\<lparr>in_queue := q\<rparr>" using "2.prems" m w False by (simp add: Let_def split: if_splits)
        then show ?thesis using s by (intro exI [of _ "[(nid, kind, raw)]"]) simp
      next
        case nl: False
        then obtain h where "q = h @ in_queue st'" "settled st' = settled ?st1 + length (accepted_docs env h)"
          using "2.IH"(3) [OF _ w [symmetric] refl False refl refl nl] "2.prems" m w False by (auto simp: Let_def)
        then show ?thesis using s
          by (intro exI [of _ "(nid, kind, raw) # h"]) (simp split: option.splits if_splits)
      qed
    qed
  qed (use "2.prems" in auto)
qed auto

lemma drain_loop_empties:
  "drain_loop env most world i drained q st = (n, st') \<Longrightarrow> (\<And>i. \<not> snd (world i)) \<Longrightarrow> drained + length q \<le> most \<Longrightarrow> in_queue st' = []"
proof (induction env most world i drained q st rule: drain_loop.induct)
  case (2 env most world i drained nid kind raw q st)
  obtain lk where w: "world i = (lk, False)" using "2.prems"(2) [of i] by (metis prod.collapse)
  have m: "drained < most" using "2.prems"(3) by simp
  show ?case
  proof (cases "kind = ''alert''")
    case True
    then show ?thesis
      using "2.IH"(1) [OF _ w [symmetric] refl True] "2.IH"(2) [OF _ w [symmetric] refl True] "2.prems" m w
      by (cases "handle_alert env (lk_broadcast_ok lk) raw st") auto
  next
    case False
    then show ?thesis using "2.IH"(3) [OF _ w [symmetric] refl False refl refl] "2.prems" m w
      by (auto simp: Let_def split: if_splits)
  qed
qed auto

section \<open>Properties\<close>

lemma limiter_grows:
  assumes "distinct (map fst d)" "NODE_LAST_SEEN_PRUNE_TO \<le> length d"
  shows "NODE_LAST_SEEN_PRUNE_TO \<le> length (snd (node_rate_limited now n d))"
proof -
  have "length d \<le> length (dict_set n now d)" by (simp add: dict_set_def)
  then show ?thesis
    using assms prune_seen_split(3) [OF dict_set_distinct [OF assms(1)], of n now]
    by (auto simp: node_rate_limited_def Let_def evicted_length split: option.splits)
qed

lemma limiter_keeps:
  assumes "distinct (map fst d)" "k \<noteq> n" "map_of d n = Some t"
    "length (snd (node_rate_limited now k d)) < NODE_LAST_SEEN_PRUNE_TO"
  shows "map_of (snd (node_rate_limited now k d)) n = Some t"
proof -
  have "NODE_LAST_SEEN_PRUNE_TO \<le> length (prune_seen (dict_set k now d))" if "NODE_LAST_SEEN_MAX < length (dict_set k now d)"
    using prune_seen_split(3) [OF dict_set_distinct [OF assms(1)], of k now] that
    by (simp add: evicted_length NODE_LAST_SEEN_PRUNE_TO_def NODE_LAST_SEEN_MAX_def)
  then show ?thesis using assms
    by (cases "NODE_LAST_SEEN_MAX < length (dict_set k now d)"; cases "fst (node_rate_limited now k d)")
      (simp_all add: node_rate_limited_def Let_def dict_set_map_of split: if_splits)
qed

lemma limiter_grows_all:
  "distinct (map fst d) \<Longrightarrow> NODE_LAST_SEEN_PRUNE_TO \<le> length d \<Longrightarrow> NODE_LAST_SEEN_PRUNE_TO \<le> length (fold limiter_put ms d)"
  by (induction ms arbitrary: d) (simp_all add: limiter_grows limiter_distinct)

lemma limiter_keeps_all:
  assumes "distinct (map fst d)" "list_all (\<lambda>(now, k). k \<noteq> n) ms" "map_of d n = Some t"
    "length (fold limiter_put ms d) < NODE_LAST_SEEN_PRUNE_TO"
  shows "map_of (fold limiter_put ms d) n = Some t"
  using assms
proof (induction ms arbitrary: d)
  case (Cons m ms)
  let ?d = "limiter_put m d"
  have d: "distinct (map fst ?d)" using Cons.prems(1) by (rule limiter_distinct)
  then have "length ?d < NODE_LAST_SEEN_PRUNE_TO" using limiter_grows_all [OF d, of ms] Cons.prems(4) by (auto simp: not_less [symmetric])
  then have "map_of ?d n = Some t" using limiter_keeps [OF Cons.prems(1) _ Cons.prems(3)] Cons.prems(2) by (cases m) auto
  then show ?case using Cons.IH [OF d] Cons.prems(2,4) by (cases m) auto
qed simp

text \<open>
  The limiter's memory is bounded whatever ids arrive, and as long as fewer than 9000 nodes are known it
  never lets two messages of a node pass within half a second, whatever other nodes send in
  between.
\<close>

theorem limiter_spacing:
  assumes "distinct (map fst d)" "length d \<le> 10000" "node_rate_limited t n d = (False, d1)"
    and "list_all (\<lambda>(s, k). k \<noteq> n) ms"
  shows "length (fold limiter_put ms d1) \<le> 10000 \<and>
    (length (fold limiter_put ms d1) < 9000 \<longrightarrow> t' < t + 500000 \<longrightarrow> fst (node_rate_limited t' n (fold limiter_put ms d1)))"
proof (intro conjI impI)
  have d1: "distinct (map fst d1)" "length d1 \<le> NODE_LAST_SEEN_MAX"
    using limiter_distinct [OF assms(1), of t n] limiter_size [OF assms(1), of t n] assms(2,3)
    by (simp_all add: NODE_LAST_SEEN_MAX_def)
  then show "length (fold limiter_put ms d1) \<le> 10000"
    using limiter.puts_bounded [of d1 ms] by (auto simp: seen_size_def NODE_LAST_SEEN_MAX_def split: if_splits)
  assume small: "length (fold limiter_put ms d1) < 9000" and near: "t' < t + 500000"
  then have "length d1 < NODE_LAST_SEEN_PRUNE_TO"
    using limiter_grows_all [OF d1(1), of ms] by (auto simp: NODE_LAST_SEEN_PRUNE_TO_def not_less [symmetric])
  moreover have "NODE_LAST_SEEN_PRUNE_TO \<le> length (prune_seen (dict_set n t d))" if "NODE_LAST_SEEN_MAX < length (dict_set n t d)"
    using prune_seen_split(3) [OF dict_set_distinct [OF assms(1)], of n t] that
    by (simp add: evicted_length NODE_LAST_SEEN_PRUNE_TO_def NODE_LAST_SEEN_MAX_def)
  ultimately have "map_of d1 n = Some t" using assms(3)
    by (auto simp: node_rate_limited_def Let_def dict_set_map_of split: option.splits if_splits)
  then have "map_of (fold limiter_put ms d1) n = Some t"
    using limiter_keeps_all [OF d1(1) assms(4)] small by (simp add: NODE_LAST_SEEN_PRUNE_TO_def)
  then show "fst (node_rate_limited t' n (fold limiter_put ms d1))"
    using near by (simp add: node_rate_limited_def NODE_MSG_MIN_INTERVAL_def)
qed

theorem limiter_spacing_witness:
  "fst (node_rate_limited 600000 ''a'' (fold limiter_put [(200000, ''b''), (300000, ''c'')] [(''a'', 150000)]))"
proof -
  have "node_rate_limited 150000 ''a'' [] = (False, [(''a'', 150000)])"
    by (simp add: node_rate_limited_def dict_set_def NODE_LAST_SEEN_MAX_def)
  from limiter_spacing [OF _ _ this, of "[(200000, ''b''), (300000, ''c'')]" 600000] show ?thesis
    by (simp add: node_rate_limited_def dict_set_def NODE_LAST_SEEN_MAX_def)
qed


definition demo_ingest_env :: ingest_env where
  "demo_ingest_env = \<lparr>ie_loads = (\<lambda>s. if s = ''hot'' then Some (JObj [(''node_id'', JStr ''spoof''), (''temperature'', JInt 21)]) else None),
     ie_pd = \<lparr>pd_float = (\<lambda>_. None), pd_datetime = (\<lambda>_. None), pd_bool = (\<lambda>_. None), pd_iso = (\<lambda>_. [])\<rparr>,
     ie_fromiso = (\<lambda>_. None), ie_queue_max = 1, ie_enqueue_attempts = 2\<rparr>"

definition no_ingest :: ingest where
  "no_ingest = \<lparr>in_seen = [], in_queue = [], in_overflow = 0, in_dropped = 0, in_sent = [], in_broadcast = [], in_nodes = []\<rparr>"

definition hot_message :: "string \<Rightarrow> message" where
  "hot_message n = \<lparr>mg_topic = ''air/node/'' @ n @ ''/reading'', mg_size = 3, mg_text = Some ''hot''\<rparr>"

lemmas ingest_demo = demo_ingest_env_def no_ingest_def hot_message_def on_message_def enqueue_def match_topic_def node_id_ok_def
  is_id_char_def is_alpha_def is_digit_def code_def MAX_PAYLOAD_BYTES_def ALERTS_TOPIC_def node_rate_limited_def dict_set_def
  NODE_LAST_SEEN_MAX_def queue_full_def


text \<open>
  C18: The topic's node id is authoritative and every valid reading has one outcome: whatever the body
  claims, the document handed to Celery carries the topic's id, which is a valid id, and only null or
  in-range sensor values; it is sent once, or counted as dropped after three failed attempts; an
  invalid reading changes nothing.
\<close>

theorem topic_is_authoritative:
  "case accepted_reading env n raw of
     None \<Rightarrow> worker_handle env lk (n, ''reading'', raw) st = st
   | Some doc \<Rightarrow> node_id_ok n \<and> get doc ''node_id'' = JStr n \<and> fields_ok doc \<and>
       worker_handle env lk (n, ''reading'', raw) st =
         (if lk_delay_ok lk 1 \<or> lk_delay_ok lk 2 \<or> lk_delay_ok lk 3 then st\<lparr>in_sent := in_sent st @ [doc]\<rparr>
          else st\<lparr>in_dropped := in_dropped st + 1\<rparr>)"
  using accepted_reading_id accepted_reading_fields
  by (auto simp: worker_handle_def handle_reading_alt split: option.splits)

text \<open>
  C19: The drain at shutdown accounts for every reading: it takes a prefix of the queue and settles each
  valid reading in it, sent or counted as dropped; with no deadline hit it empties any queue within
  its bound.
\<close>

theorem drain_accounts:
  assumes "drain env world st = (n, st')"
  shows "(\<exists>handled. in_queue st = handled @ in_queue st' \<and>
      length (in_sent st') + in_dropped st' = length (in_sent st) + in_dropped st + length (accepted_docs env handled)) \<and>
    ((\<forall>i. \<not> snd (world i)) \<longrightarrow> 0 < ie_queue_max env \<longrightarrow> queue_bounded (ie_queue_max env) (in_queue st) \<longrightarrow> in_queue st' = [])"
proof (intro conjI impI)
  show "\<exists>handled. in_queue st = handled @ in_queue st' \<and>
      length (in_sent st') + in_dropped st' = length (in_sent st) + in_dropped st + length (accepted_docs env handled)"
    using drain_loop_accounts assms by (simp add: drain_def settled_def)
  assume "\<forall>i. \<not> snd (world i)" "0 < ie_queue_max env" "queue_bounded (ie_queue_max env) (in_queue st)"
  then show "in_queue st' = []"
    using drain_loop_empties [OF assms [unfolded drain_def]] by (simp add: queue_bounded_def)
qed

definition full_ingest :: ingest where
  "full_ingest = no_ingest\<lparr>in_queue := [(''n1'', ''reading'', ''hot'')]\<rparr>"

definition fine_luck :: luck where
  "fine_luck = \<lparr>lk_delay_ok = (\<lambda>a. a = 2), lk_db_ok = True, lk_broadcast_ok = True, lk_wall = 0\<rparr>"

theorem drain_accounts_witness:
  "\<exists>n st'. drain demo_ingest_env (\<lambda>_. (fine_luck, False)) full_ingest = (n, st') \<and> in_queue st' = []"
proof -
  obtain n st' where p: "drain demo_ingest_env (\<lambda>_. (fine_luck, False)) full_ingest = (n, st')" by (metis surj_pair)
  then show ?thesis using drain_accounts [OF p] by (simp add: demo_ingest_env_def full_ingest_def queue_bounded_def)
qed

end
