(* ===== verification/Lifespan.thy ===== *)
theory Lifespan imports Observability Mqtt_Ingest Sessions begin

text \<open>
  Start and end of the two programs that run a listener: the served application of
  \<open>src/app_factory/helpers.py\<close> (the hooks \<open>create_app\<close> registers, with what they call in the other
  components) and the stand-alone listener, \<open>main()\<close> of \<open>src/mqtt/client.py\<close>.
\<close>

section \<open>The state of a serving process\<close>

record life_env =
  le_hostname :: string
  le_file_exists :: "string \<Rightarrow> bool"
  le_tls_ok :: bool
  le_mqtt_enabled :: bool
  le_mqtt :: mqtt_config
  le_ingest :: ingest_env
  le_auth :: auth_env
  le_bootstrap :: bootstrap
  le_redis_url :: string

text \<open>\<open>sv_closed\<close>: the Redis clients closed, by module.\<close>

record service =
  sv_registry :: "session option"
  sv_ingest :: ingest
  sv_engines :: engines
  sv_cache :: client_state
  sv_limiter :: client_state
  sv_closed :: "string list"
  sv_db :: db
  sv_redis :: "rval redis"
  sv_process :: process_state

text \<open>What the outside does during a hook: the drain, the Redis client factories, a client's \<open>close\<close>, the tracer.\<close>

record outside =
  os_world :: "nat \<Rightarrow> luck \<times> bool"
  os_build_ok :: bool
  os_close_ok :: bool
  os_provider_ok :: bool
  os_mono :: int

section \<open>Hooks\<close>

text \<open>\<open>start_mqtt\<close> and \<open>startup\<close>; both log what goes wrong and let the application serve.\<close>

definition serving_hook_runs :: "life_env \<Rightarrow> timestamp \<Rightarrow> rand \<Rightarrow> serving_hook \<Rightarrow> service \<Rightarrow> service" where
  "serving_hook_runs env now rd h s =
     (case h of
        StartMqtt \<Rightarrow>
          s\<lparr>sv_registry := start_mqtt (le_mqtt_enabled env) (le_hostname env) (le_file_exists env) (le_tls_ok env) (le_mqtt env) (sv_registry s)\<rparr>
      | EnsureAdmin \<Rightarrow>
          (case ensure_hardcoded_admin (le_auth env) now rd (le_bootstrap env) (sv_db s) (sv_redis s) of
             (res, d, r) \<Rightarrow> s\<lparr>sv_db := d, sv_redis := r\<rparr>))"

definition shutdown_db :: "service \<Rightarrow> service" where
  "shutdown_db s = s\<lparr>sv_engines := dispose_engines (sv_engines s)\<rparr>"

text \<open>A getter that finds no client builds one, which is then closed; an exception of \<open>close\<close> is swallowed.\<close>

definition shutdown_redis :: "life_env \<Rightarrow> outside \<Rightarrow> service \<Rightarrow> service" where
  "shutdown_redis env os s =
     (let (cache, cache') = get_client (os_mono os) (os_build_ok os) (le_redis_url env) (sv_cache s);
          (limiter, limiter') = get_client (os_mono os) (os_build_ok os) (le_redis_url env) (sv_limiter s);
          closed = (\<lambda>name client. if client \<noteq> None \<and> os_close_ok os then [name] else [])
      in s\<lparr>sv_cache := cache', sv_limiter := limiter', sv_closed := sv_closed s @ closed ''cache'' cache @ closed ''rate_limit'' limiter\<rparr>)"

text \<open>\<open>stop_mqtt\<close> with the client's \<open>stop()\<close>, which drains the queue.\<close>

definition shutdown_mqtt :: "life_env \<Rightarrow> outside \<Rightarrow> service \<Rightarrow> service" where
  "shutdown_mqtt env os s =
     (case sv_registry s of
        None \<Rightarrow> s
      | Some client \<Rightarrow>
          s\<lparr>sv_registry := stop_mqtt (\<lambda>c. Inr (worker_exits c)) (sv_registry s),
            sv_ingest := snd (drain (le_ingest env) (os_world os) (sv_ingest s))\<rparr>)"

definition shutdown_hook_runs :: "life_env \<Rightarrow> outside \<Rightarrow> shutdown_hook \<Rightarrow> service \<Rightarrow> service" where
  "shutdown_hook_runs env os h s =
     (case h of
        StopMqtt \<Rightarrow> shutdown_mqtt env os s
      | CloseDatabase \<Rightarrow> shutdown_db s
      | CloseRedis \<Rightarrow> shutdown_redis env os s
      | FlushTraces \<Rightarrow> s\<lparr>sv_process := shutdown_tracing (os_provider_ok os) (sv_process s)\<rparr>)"

text \<open>Quart runs the hooks in the order of registration.\<close>

definition startup :: "life_env \<Rightarrow> timestamp \<Rightarrow> rand \<Rightarrow> web_app \<Rightarrow> service \<Rightarrow> service" where
  "startup env now rd app s = fold (serving_hook_runs env now rd) (ap_serving app) s"

definition shutdown :: "life_env \<Rightarrow> outside \<Rightarrow> web_app \<Rightarrow> service \<Rightarrow> service" where
  "shutdown env os app s = fold (shutdown_hook_runs env os) (ap_shutdown app) s"

section \<open>The stand-alone listener\<close>

text \<open>\<open>wait_until_ready\<close>: \<open>clock k\<close> is the time of the k-th look at the clock, \<open>ready k\<close> the flag then.\<close>

partial_function (option) wait_until_ready :: "(nat \<Rightarrow> int) \<Rightarrow> (nat \<Rightarrow> bool) \<Rightarrow> int \<Rightarrow> nat \<Rightarrow> bool option" where
  "wait_until_ready clock ready deadline k =
     (if clock k < deadline then if ready k then Some True else wait_until_ready clock ready deadline (k + 1) else Some False)"

definition SMOKE_TIMEOUT :: int where "SMOKE_TIMEOUT = seconds 10"

text \<open>
  How \<open>main()\<close> ends: with an exception before anything was started, or with an exit status after the
  client was stopped.  \<open>interrupted\<close>: a Ctrl-C reaches it while it waits; without one, a listener that
  became ready idles until the Ctrl-C that ends it.
\<close>

definition listener_main :: "life_env \<Rightarrow> outside \<Rightarrow> (nat \<Rightarrow> int) \<Rightarrow> (nat \<Rightarrow> bool) \<Rightarrow> bool \<Rightarrow> ingest
    \<Rightarrow> (py_error + nat \<times> ingest) option" where
  "listener_main env os clock ready interrupted ing =
     (case ebind (new_client (le_hostname env) (le_file_exists env) (le_tls_ok env) (le_mqtt env)) (start (le_mqtt env)) of
        Inl e \<Rightarrow> Some (Inl e)
      | Inr client \<Rightarrow>
          (let stopped = snd (drain (le_ingest env) (os_world os) ing) in
           if interrupted then Some (Inr (0, stopped))
           else case wait_until_ready clock ready (clock 0 + SMOKE_TIMEOUT) 1 of
             None \<Rightarrow> None
           | Some ok \<Rightarrow> Some (Inr (if ok then 0 else 1, stopped))))"

section \<open>The wait ends\<close>

text \<open>A monotonic clock, with at least a tenth of a second slept between two looks.\<close>

definition sleeping_clock :: "(nat \<Rightarrow> int) \<Rightarrow> bool" where
  "sleeping_clock clock = (clock 0 \<le> clock 1 \<and> (\<forall>k\<ge>1. clock k + 100000 \<le> clock (k + 1)))"

lemma clock_grows: "sleeping_clock clock \<Longrightarrow> clock 0 + 100000 * int k \<le> clock (k + 1)"
proof (induction k)
  case (Suc k)
  then have "clock (k + 1) + 100000 \<le> clock (k + 2)" by (simp add: sleeping_clock_def)
  then show ?case using Suc by simp
qed (simp add: sleeping_clock_def)

text \<open>The looks that are in time, and the first of them that finds the flag set.\<close>

lemma wait_result:
  assumes "\<And>j. k \<le> j \<Longrightarrow> j < n \<Longrightarrow> clock j < deadline \<and> \<not> ready j" "k \<le> n"
  shows "wait_until_ready clock ready deadline k = wait_until_ready clock ready deadline n"
  using assms
proof (induction "n - k" arbitrary: k)
  case (Suc m)
  then have "clock k < deadline \<and> \<not> ready k" by simp
  then have "wait_until_ready clock ready deadline k = wait_until_ready clock ready deadline (k + 1)"
    by (subst wait_until_ready.simps) simp
  also have "\<dots> = wait_until_ready clock ready deadline n"
  proof (rule Suc.hyps(1))
    show "m = n - (k + 1)" "k + 1 \<le> n" using Suc.hyps(2) by simp_all
    fix j assume "k + 1 \<le> j" "j < n"
    then show "clock j < deadline \<and> \<not> ready j" using Suc.prems(1) [of j] by simp
  qed
  finally show ?case .
qed simp

lemma wait_ends:
  assumes "sleeping_clock clock"
  shows "\<exists>n. 1 \<le> n \<and> n \<le> 101 \<and> (\<forall>j. 1 \<le> j \<and> j < n \<longrightarrow> clock j < clock 0 + SMOKE_TIMEOUT \<and> \<not> ready j) \<and>
    wait_until_ready clock ready (clock 0 + SMOKE_TIMEOUT) 1 = Some (clock n < clock 0 + SMOKE_TIMEOUT) \<and>
    (clock n < clock 0 + SMOKE_TIMEOUT \<longrightarrow> ready n)"
proof -
  let ?d = "clock 0 + SMOKE_TIMEOUT"
  let ?stop = "\<lambda>n. 1 \<le> n \<and> (\<not> clock n < ?d \<or> ready n)"
  have late: "?stop 101" using clock_grows [OF assms, of 100] by (simp add: SMOKE_TIMEOUT_def seconds_def)
  define n where "n = (LEAST n. ?stop n)"
  have n: "?stop n" unfolding n_def by (rule LeastI [of ?stop, OF late])
  have le: "n \<le> 101" unfolding n_def by (rule Least_le [of ?stop, OF late])
  have before: "clock j < ?d \<and> \<not> ready j" if "1 \<le> j" "j < n" for j
    using not_less_Least [of j ?stop] that unfolding n_def by auto
  have "wait_until_ready clock ready ?d 1 = wait_until_ready clock ready ?d n"
    using before n by (intro wait_result) auto
  also have "\<dots> = Some (clock n < ?d)" using n by (subst wait_until_ready.simps) auto
  finally show ?thesis using n le before by (intro exI [of _ n]) auto
qed

lemma clock_mono:
  assumes "sleeping_clock clock" "1 \<le> i" "i \<le> j"
  shows "clock i \<le> clock j"
  using assms(3)
proof (induction rule: dec_induct)
  case (step j)
  then have "clock j + 100000 \<le> clock (j + 1)" using assms(1,2) by (simp add: sleeping_clock_def)
  then show ?case using step by simp
qed simp

section \<open>Properties\<close>


definition demo_life :: life_env where
  "demo_life = \<lparr>le_hostname = ''HOST'', le_file_exists = (\<lambda>_. True), le_tls_ok = True, le_mqtt_enabled = True, le_mqtt = demo_mqtt_config,
     le_ingest = demo_ingest_env, le_auth = demo_auth, le_bootstrap = \<lparr>bs_username = [], bs_password = [], bs_email = []\<rparr>,
     le_redis_url = ''redis''\<rparr>"

definition demo_outside :: outside where
  "demo_outside = \<lparr>os_world = (\<lambda>_. (fine_luck, False)), os_build_ok = True, os_close_ok = True, os_provider_ok = True, os_mono = 0\<rparr>"


text \<open>
  The application of \<open>create_app\<close> from start to end.  Whatever fails at start-up, it serves: the accounts stay
  well formed, and a listener that is registered connects over TLS where TLS is asked for.  Whatever
  happened while it served, after the shutdown no listener is registered and its queue was drained before
  the database went away; every engine in use is disposed and the module starts afresh; both Redis
  clients are closed when they can be; and the database is as the last request left it.
\<close>

lemma startup_hooks: "ap_serving (fst (create_app cfg ep ti p)) = [StartMqtt, EnsureAdmin]"
  by (simp add: create_app_def Let_def instrument_app_def register_metrics_def register_request_middleware_def register_request_logging_def)

lemma shutdown_hooks: "\<exists>hs. ap_shutdown (fst (create_app cfg ep ti p)) = [StopMqtt, CloseDatabase, CloseRedis] @ hs \<and> set hs \<subseteq> {FlushTraces}"
  by (auto simp: create_app_def Let_def instrument_app_def register_metrics_def register_request_middleware_def register_request_logging_def)

lemma bootstrap_accounts: "accounts_ok d \<Longrightarrow> accounts_ok (fst (snd (ensure_hardcoded_admin env now rd cfg d r)))"
  using step_accounts st_bootstrap by blast

lemma flush_frame: "set hs \<subseteq> {FlushTraces} \<Longrightarrow> \<exists>q. fold (shutdown_hook_runs env os) hs s = s\<lparr>sv_process := q\<rparr>"
proof (induction hs arbitrary: s)
  case Nil
  show ?case by (intro exI [of _ "sv_process s"]) simp
next
  case (Cons h hs)
  then have h: "shutdown_hook_runs env os h s = s\<lparr>sv_process := shutdown_tracing (os_provider_ok os) (sv_process s)\<rparr>"
    by (simp add: shutdown_hook_runs_def)
  from Cons obtain q where "fold (shutdown_hook_runs env os) hs (shutdown_hook_runs env os h s) = (shutdown_hook_runs env os h s)\<lparr>sv_process := q\<rparr>"
    by auto
  then show ?case unfolding fold_simps comp_apply h by (intro exI [of _ q]) simp
qed

lemma app_lifespan:
  fixes cfg ep ti p
  defines "app \<equiv> fst (create_app cfg ep ti p)"
  shows "accounts_ok (sv_db s) \<longrightarrow> accounts_ok (sv_db (startup env now rd app s))"
    and "sv_registry s = None \<and> sv_registry (startup env now rd app s) = Some client \<and> mc_use_tls (le_mqtt env) \<longrightarrow> ss_tls_configured client"
    and "sv_registry (shutdown env os app t) = None" "sv_db (shutdown env os app t) = sv_db t"
    and "sv_registry t \<noteq> None \<longrightarrow> sv_ingest (shutdown env os app t) = snd (drain (le_ingest env) (os_world os) (sv_ingest t))"
    and "sv_engines (shutdown env os app t) = dispose_engines (sv_engines t)"
    and "os_build_ok os \<and> os_close_ok os \<longrightarrow> {''cache'', ''rate_limit''} \<subseteq> set (sv_closed (shutdown env os app t))"
proof -
  let ?reg = "start_mqtt (le_mqtt_enabled env) (le_hostname env) (le_file_exists env) (le_tls_ok env) (le_mqtt env) (sv_registry s)"
  have start: "sv_registry (startup env now rd app s) = ?reg"
      "sv_db (startup env now rd app s) = fst (snd (ensure_hardcoded_admin (le_auth env) now rd (le_bootstrap env) (sv_db s) (sv_redis s)))"
    unfolding startup_def app_def startup_hooks by (simp_all add: serving_hook_runs_def split: prod.splits)
  show "accounts_ok (sv_db s) \<longrightarrow> accounts_ok (sv_db (startup env now rd app s))" unfolding start by (simp add: bootstrap_accounts)
  show "sv_registry s = None \<and> sv_registry (startup env now rd app s) = Some client \<and> mc_use_tls (le_mqtt env) \<longrightarrow> ss_tls_configured client"
    unfolding start using start_mqtt_tls by metis
  obtain hs where hs: "ap_shutdown app = [StopMqtt, CloseDatabase, CloseRedis] @ hs" "set hs \<subseteq> {FlushTraces}"
    unfolding app_def using shutdown_hooks by blast
  obtain q where stop: "shutdown env os app t = (shutdown_redis env os (shutdown_db (shutdown_mqtt env os t)))\<lparr>sv_process := q\<rparr>"
    using flush_frame [OF hs(2)] by (fastforce simp: shutdown_def hs(1) shutdown_hook_runs_def)
  note frame = stop shutdown_mqtt_def shutdown_db_def shutdown_redis_def stop_mqtt_clears Let_def
  show "sv_registry (shutdown env os app t) = None" "sv_db (shutdown env os app t) = sv_db t"
    "sv_registry t \<noteq> None \<longrightarrow> sv_ingest (shutdown env os app t) = snd (drain (le_ingest env) (os_world os) (sv_ingest t))"
    "sv_engines (shutdown env os app t) = dispose_engines (sv_engines t)"
    by (auto simp: frame split: option.splits prod.splits)
  show "os_build_ok os \<and> os_close_ok os \<longrightarrow> {''cache'', ''rate_limit''} \<subseteq> set (sv_closed (shutdown env os app t))"
    using get_client_heals [of "os_mono os" "le_redis_url env"] by (simp add: frame case_prod_unfold split: option.split)
qed

end
