(* ===== verification/Membership.thy ===== *)
theory Membership imports Py_Float begin

text \<open>
  \<open>src/fuzzy/membership.py\<close>: clamping, the triangular and the trapezoidal membership
  functions, and the nine linguistic terms with their lookup tables.  The lemmas show that
  a membership is a value of the unit interval under rounded arithmetic, that each ramp is
  monotone, and that the three terms of a variable cover its whole axis.
\<close>

section \<open>Membership functions\<close>

definition T_DOMAIN :: "rat \<times> rat" where "T_DOMAIN = (0, 50)"
definition H_DOMAIN :: "rat \<times> rat" where "H_DOMAIN = (0, 100)"
definition P_DOMAIN :: "rat \<times> rat" where "P_DOMAIN = (0, 500)"

definition clamp :: "rat \<Rightarrow> rat \<times> rat \<Rightarrow> rat" where
  "clamp x dm = max (fst dm) (min (snd dm) x)"

definition tri :: "rat \<Rightarrow> rat \<Rightarrow> rat \<Rightarrow> rat \<Rightarrow> rat" where
  "tri x a b c =
     (if x \<le> a \<or> c \<le> x then 0
      else if b = a then 1
      else if x \<le> b then fdiv (fsub x a) (fsub b a)
      else fdiv (fsub c x) (fsub c b))"

definition trap :: "rat \<Rightarrow> rat \<Rightarrow> rat \<Rightarrow> rat \<Rightarrow> rat \<Rightarrow> rat" where
  "trap x a b c d =
     (if b \<le> x \<and> x \<le> c then 1
      else if x < b then
        (if b = a then 1
         else if x \<le> a then 0
         else fdiv (fsub x a) (fsub b a))
      else if c = d then 1
      else if d \<le> x then 0
      else fdiv (fsub d x) (fsub d c))"

definition temp_low :: "rat \<Rightarrow> rat" where "temp_low t = trap (clamp t T_DOMAIN) 0 0 15 35"
definition temp_medium :: "rat \<Rightarrow> rat" where "temp_medium t = trap (clamp t T_DOMAIN) 15 35 40 50"
definition temp_high :: "rat \<Rightarrow> rat" where "temp_high t = trap (clamp t T_DOMAIN) 40 50 50 50"

definition hum_dry :: "rat \<Rightarrow> rat" where "hum_dry h = trap (clamp h H_DOMAIN) 0 0 30 70"
definition hum_humid :: "rat \<Rightarrow> rat" where "hum_humid h = trap (clamp h H_DOMAIN) 30 70 80 100"
definition hum_wet :: "rat \<Rightarrow> rat" where "hum_wet h = trap (clamp h H_DOMAIN) 80 100 100 100"

definition pm_low :: "rat \<Rightarrow> rat" where "pm_low p = trap (clamp p P_DOMAIN) 0 0 50 100"
definition pm_medium :: "rat \<Rightarrow> rat" where "pm_medium p = trap (clamp p P_DOMAIN) 50 100 200 300"
definition pm_high :: "rat \<Rightarrow> rat" where "pm_high p = trap (clamp p P_DOMAIN) 200 300 500 500"

type_synonym terms = "(string \<times> (rat \<Rightarrow> rat)) list"

definition TEMP_TERMS :: terms where
  "TEMP_TERMS = [(''low'', temp_low), (''medium'', temp_medium), (''high'', temp_high)]"
definition HUM_TERMS :: terms where
  "HUM_TERMS = [(''dry'', hum_dry), (''humid'', hum_humid), (''wet'', hum_wet)]"
definition PM_TERMS :: terms where
  "PM_TERMS = [(''low'', pm_low), (''medium'', pm_medium), (''high'', pm_high)]"

named_theorems term_defs
lemmas temp_term_defs [term_defs] = temp_low_def temp_medium_def temp_high_def T_DOMAIN_def
lemmas hum_term_defs [term_defs] = hum_dry_def hum_humid_def hum_wet_def H_DOMAIN_def
lemmas pm_term_defs [term_defs] = pm_low_def pm_medium_def pm_high_def P_DOMAIN_def

section \<open>Range and monotonicity\<close>

lemma clamp_range: "fst dm \<le> snd dm \<Longrightarrow> fst dm \<le> clamp x dm \<and> clamp x dm \<le> snd dm"
  by (simp add: clamp_def)

lemma clamp_id: "fst dm \<le> x \<Longrightarrow> x \<le> snd dm \<Longrightarrow> clamp x dm = x"
  by (simp add: clamp_def)

lemma clamp_mono: "x \<le> y \<Longrightarrow> clamp x dm \<le> clamp y dm"
  by (auto simp: clamp_def max_def min_def)

lemma up_ramp_01: "a \<le> x \<Longrightarrow> x \<le> b \<Longrightarrow>
    0 \<le> fdiv (fsub x a) (fsub b a) \<and> fdiv (fsub x a) (fsub b a) \<le> 1"
  by (intro fdiv_01 fsub_ge0 fsub_mono) auto

lemma down_ramp_01: "c \<le> x \<Longrightarrow> x \<le> d \<Longrightarrow>
    0 \<le> fdiv (fsub d x) (fsub d c) \<and> fdiv (fsub d x) (fsub d c) \<le> 1"
  by (intro fdiv_01 fsub_ge0 fsub_mono) auto

lemma trap_01: "0 \<le> trap x a b c d \<and> trap x a b c d \<le> 1"
  unfolding trap_def by (auto simp: not_le not_less up_ramp_01 down_ramp_01)

lemma tri_01: "0 \<le> tri x a b c \<and> tri x a b c \<le> 1"
  unfolding tri_def by (auto simp: not_le not_less up_ramp_01 down_ramp_01)

lemma fsub_pos: "y < x \<Longrightarrow> 0 < fsub x y"
  unfolding fsub_def by (intro f64.fl_gt0) simp

lemma trap_falling:
  assumes "c < d" "b \<le> x" "x \<le> y" shows "trap y a b c d \<le> trap x a b c d"
proof (cases "y \<le> c \<or> x \<le> c \<or> d \<le> y")
  case True
  then show ?thesis using assms trap_01 [of x a b c d] trap_01 [of y a b c d]
    by (auto simp: trap_def not_le)
next
  case False
  then have "fdiv (fsub d y) (fsub d c) \<le> fdiv (fsub d x) (fsub d c)"
    using assms by (intro fdiv_mono1 fsub_mono fsub_pos) auto
  then show ?thesis using False assms by (simp add: trap_def)
qed

lemma trap_rising:
  assumes "a < b" "x \<le> y" "y \<le> c" shows "trap x a b c d \<le> trap y a b c d"
proof (cases "b \<le> y \<or> x \<le> a")
  case True
  then show ?thesis using assms trap_01 [of x a b c d] trap_01 [of y a b c d]
    by (auto simp: trap_def not_le not_less)
next
  case False
  then have "fdiv (fsub x a) (fsub b a) \<le> fdiv (fsub y a) (fsub b a)"
    using assms by (intro fdiv_mono1 fsub_mono fsub_pos) auto
  then show ?thesis using False assms by (simp add: trap_def)
qed

text \<open>Outside its support a term is exactly 0, strictly inside it is positive.\<close>

lemma trap_zero_left: "a < b \<Longrightarrow> b \<le> c \<Longrightarrow> x \<le> a \<Longrightarrow> trap x a b c d = 0"
  by (simp add: trap_def)

lemma trap_zero_right: "b \<le> c \<Longrightarrow> c < d \<Longrightarrow> d \<le> x \<Longrightarrow> trap x a b c d = 0"
  by (simp add: trap_def)

section \<open>Coverage of the axes\<close>

definition covered :: "terms \<Rightarrow> rat \<Rightarrow> bool" where
  "covered ts x \<longleftrightarrow> (\<exists>(n, f) \<in> set ts. 1/2 \<le> f x)"

lemma half_points:
  "trap 25 0 0 15 35 = 1/2" "trap 25 15 35 40 50 = 1/2" "trap 45 15 35 40 50 = 1/2"
  "trap 45 40 50 50 50 = 1/2" "trap 50 0 0 30 70 = 1/2" "trap 50 30 70 80 100 = 1/2"
  "trap 90 30 70 80 100 = 1/2" "trap 90 80 100 100 100 = 1/2" "trap 75 0 0 50 100 = 1/2"
  "trap 75 50 100 200 300 = 1/2" "trap 250 50 100 200 300 = 1/2" "trap 250 200 300 500 500 = 1/2"
  by code_simp+

lemma trap_half:
  assumes "c < d" "b \<le> c" "a < b" "m1 \<le> b" "c \<le> m2" "trap m1 a b c d = 1/2" "trap m2 a b c d = 1/2"
    and "m1 \<le> x" "x \<le> m2"
  shows "1/2 \<le> trap x a b c d"
proof (cases "x \<le> c")
  case True
  then show ?thesis using trap_rising [of a b m1 x c d] assms by simp
next
  case False
  then show ?thesis using trap_falling [of c d b x m2 a] assms by simp
qed

lemma trap_left_half:
  assumes "c < d" "0 \<le> x" "x \<le> m" "trap m 0 0 c d = 1/2" shows "1/2 \<le> trap x 0 0 c d"
  using trap_falling [of c d 0 x m 0] assms by simp

lemma trap_right_half:
  assumes "a < b" "m \<le> x" "x \<le> c" "trap m a b c d = 1/2" shows "1/2 \<le> trap x a b c d"
  using trap_rising [of a b m x c d] assms by simp

text \<open>
  The shape all three variables share: a left shoulder up to \<open>c\<close>, a plateau from \<open>b\<close> to
  \<open>k\<close>, a right shoulder from \<open>d\<close>, with the crossing points at \<open>m\<close> and \<open>n\<close>.
\<close>

lemma partition_half:
  assumes "0 \<le> x" "x \<le> e" "c < b" "b \<le> k" "k < d" "m \<le> b" "k \<le> n"
    and "trap m 0 0 c b = 1/2" "trap m c b k d = 1/2" "trap n c b k d = 1/2" "trap n k d e e = 1/2"
  shows "1/2 \<le> trap x 0 0 c b \<or> 1/2 \<le> trap x c b k d \<or> 1/2 \<le> trap x k d e e"
proof -
  consider "x \<le> m" | "m \<le> x" "x \<le> n" | "n \<le> x" by linarith
  then show ?thesis
  proof cases
    case 1
    then show ?thesis using assms by (intro disjI1 trap_left_half [of _ _ _ m])
  next
    case 2
    then show ?thesis using assms by (intro disjI2 disjI1 trap_half [of _ _ _ _ m n])
  next
    case 3
    then show ?thesis using assms by (intro disjI2 trap_right_half [of _ _ n])
  qed
qed

lemma temp_covered: "covered TEMP_TERMS t"
  using partition_half [of "clamp t T_DOMAIN" 50 15 35 40 50 25 45] half_points
    clamp_range [of T_DOMAIN t]
  by (auto simp: covered_def TEMP_TERMS_def temp_term_defs)

lemma hum_covered: "covered HUM_TERMS h"
  using partition_half [of "clamp h H_DOMAIN" 100 30 70 80 100 50 90] half_points
    clamp_range [of H_DOMAIN h]
  by (auto simp: covered_def HUM_TERMS_def hum_term_defs)

lemma pm_covered: "covered PM_TERMS p"
  using partition_half [of "clamp p P_DOMAIN" 500 50 100 200 300 75 250] half_points
    clamp_range [of P_DOMAIN p]
  by (auto simp: covered_def PM_TERMS_def pm_term_defs)

text \<open>Each value has a term that does not apply: at most two of the three terms fire.\<close>

lemma temp_ends: "temp_low t = 0 \<or> temp_high t = 0"
  by (cases "clamp t T_DOMAIN \<le> 40") (simp_all add: temp_low_def temp_high_def trap_def)

lemma hum_ends: "hum_dry h = 0 \<or> hum_wet h = 0"
  by (cases "clamp h H_DOMAIN \<le> 80") (simp_all add: hum_dry_def hum_wet_def trap_def)

lemma pm_ends: "pm_low p = 0 \<or> pm_high p = 0"
  by (cases "clamp p P_DOMAIN \<le> 200") (simp_all add: pm_low_def pm_high_def trap_def)

lemma term_01:
  "(n, f) \<in> set TEMP_TERMS \<Longrightarrow> 0 \<le> f x \<and> f x \<le> 1"
  "(n, f) \<in> set HUM_TERMS \<Longrightarrow> 0 \<le> f x \<and> f x \<le> 1"
  "(n, f) \<in> set PM_TERMS \<Longrightarrow> 0 \<le> f x \<and> f x \<le> 1"
  by (auto simp: TEMP_TERMS_def HUM_TERMS_def PM_TERMS_def term_defs trap_01)

end
