(* ===== verification/Tsukamoto.thy ===== *)
theory Tsukamoto imports Prelude Membership begin

text \<open>
  \<open>src/fuzzy/rules.py\<close> and \<open>src/fuzzy/tsukamoto.py\<close>: the 27-entry rule base, the output
  ramps, the firing loop with its \<open>continue\<close> guards, the weighted average and the public
  \<open>infer\<close>.  The lemmas show that a rule always fires, that no dictionary lookup can raise,
  and that the score stays within the ramps of the rules that fired.
\<close>

section \<open>Rule base\<close>

definition GOOD :: string where "GOOD = ''good''"
definition MODERATE :: string where "MODERATE = ''moderate''"
definition USG :: string where "USG = ''usg''"
definition UNHEALTHY :: string where "UNHEALTHY = ''unhealthy''"
definition VERY_UNHEALTHY :: string where "VERY_UNHEALTHY = ''very-unhealthy''"

lemmas label_defs = GOOD_def MODERATE_def USG_def UNHEALTHY_def VERY_UNHEALTHY_def

definition CONSEQUENTS :: "(string \<times> (rat \<times> rat)) list" where
  "CONSEQUENTS =
    [(GOOD, (0, 40)), (MODERATE, (30, 60)), (USG, (50, 75)),
     (UNHEALTHY, (65, 90)), (VERY_UNHEALTHY, (85, 100))]"

definition RULE_TABLE :: "((string \<times> string \<times> string) \<times> string) list" where
  "RULE_TABLE =
    [((''low'', ''dry'', ''low''), MODERATE),
     ((''low'', ''humid'', ''low''), GOOD),
     ((''low'', ''wet'', ''low''), GOOD),
     ((''medium'', ''dry'', ''low''), MODERATE),
     ((''medium'', ''humid'', ''low''), GOOD),
     ((''medium'', ''wet'', ''low''), GOOD),
     ((''high'', ''dry'', ''low''), MODERATE),
     ((''high'', ''humid'', ''low''), MODERATE),
     ((''high'', ''wet'', ''low''), MODERATE),
     ((''low'', ''dry'', ''medium''), USG),
     ((''low'', ''humid'', ''medium''), MODERATE),
     ((''low'', ''wet'', ''medium''), MODERATE),
     ((''medium'', ''dry'', ''medium''), USG),
     ((''medium'', ''humid'', ''medium''), MODERATE),
     ((''medium'', ''wet'', ''medium''), MODERATE),
     ((''high'', ''dry'', ''medium''), USG),
     ((''high'', ''humid'', ''medium''), USG),
     ((''high'', ''wet'', ''medium''), USG),
     ((''low'', ''dry'', ''high''), UNHEALTHY),
     ((''low'', ''humid'', ''high''), UNHEALTHY),
     ((''low'', ''wet'', ''high''), UNHEALTHY),
     ((''medium'', ''dry'', ''high''), UNHEALTHY),
     ((''medium'', ''humid'', ''high''), UNHEALTHY),
     ((''medium'', ''wet'', ''high''), UNHEALTHY),
     ((''high'', ''dry'', ''high''), VERY_UNHEALTHY),
     ((''high'', ''humid'', ''high''), UNHEALTHY),
     ((''high'', ''wet'', ''high''), UNHEALTHY)]"

definition consequent_for :: "string \<Rightarrow> string \<Rightarrow> string \<Rightarrow> py_error + string" where
  "consequent_for t h p =
     (case map_of RULE_TABLE (t, h, p) of None \<Rightarrow> Inl KeyError | Some q \<Rightarrow> Inr q)"

section \<open>Inference\<close>

definition DEFAULT_SCORE :: rat where "DEFAULT_SCORE = 20"

definition inverse_ramp :: "rat \<Rightarrow> rat \<Rightarrow> rat \<Rightarrow> rat" where
  "inverse_ramp alpha lo hi = fadd lo (fmul alpha (fsub hi lo))"

definition weighted_average :: "(rat \<times> rat) list \<Rightarrow> rat" where
  "weighted_average fired =
     (let total_alpha = py_sum (map fst fired) in
      if total_alpha = 0 then DEFAULT_SCORE
      else fdiv (py_sum (map (\<lambda>(alpha, z). fmul alpha z) fired)) total_alpha)"

text \<open>An argument of \<open>infer\<close>: \<open>None\<close> and other non-numbers, or a number.\<close>

datatype pyarg = NotNumeric | Num pyfloat

definition require_finite :: "pyarg \<Rightarrow> py_error + rat" where
  "require_finite v = (case v of Num (Fin x) \<Rightarrow> Inr x | _ \<Rightarrow> Inl ValueError)"

type_synonym graded = "string \<times> rat"

definition grade :: "terms \<Rightarrow> rat \<Rightarrow> graded list" where
  "grade ts x = map (\<lambda>(n, f). (n, f x)) ts"

text \<open>The body of the three nested loops, over the combinations in loop order.\<close>

fun fire_rules :: "(graded \<times> graded \<times> graded) list \<Rightarrow> py_error + (rat \<times> rat) list" where
  "fire_rules [] = Inr []"
| "fire_rules (((tn, tm), (hn, hm), (pn, pm)) # rest) =
     (if tm = 0 \<or> hm = 0 \<or> pm = 0 then fire_rules rest
      else let alpha = min (min tm hm) pm in
        if alpha = 0 then fire_rules rest
        else case map_of RULE_TABLE (tn, hn, pn) of
          None \<Rightarrow> Inl KeyError
        | Some q \<Rightarrow> (case map_of CONSEQUENTS q of
            None \<Rightarrow> Inl KeyError
          | Some (lo, hi) \<Rightarrow> (case fire_rules rest of
              Inl e \<Rightarrow> Inl e
            | Inr fs \<Rightarrow> Inr ((alpha, inverse_ramp alpha lo hi) # fs))))"

definition combinations :: "graded list \<Rightarrow> graded list \<Rightarrow> graded list \<Rightarrow> (graded \<times> graded \<times> graded) list" where
  "combinations ts hs ps = List.product ts (List.product hs ps)"

definition infer :: "pyarg \<Rightarrow> pyarg \<Rightarrow> pyarg \<Rightarrow> py_error + (rat \<times> nat)" where
  "infer temperature humidity pm25 =
     (case require_finite temperature of Inl e \<Rightarrow> Inl e | Inr t \<Rightarrow>
     (case require_finite humidity of Inl e \<Rightarrow> Inl e | Inr h \<Rightarrow>
     (case require_finite pm25 of Inl e \<Rightarrow> Inl e | Inr p \<Rightarrow>
     (case fire_rules (combinations (grade TEMP_TERMS t) (grade HUM_TERMS h) (grade PM_TERMS p)) of
        Inl e \<Rightarrow> Inl e
      | Inr fired \<Rightarrow> Inr (py_round2 (weighted_average fired), length fired)))))"

definition fuzzy_score :: "pyarg \<Rightarrow> pyarg \<Rightarrow> pyarg \<Rightarrow> py_error + rat" where
  "fuzzy_score temperature humidity pm25 =
     (case infer temperature humidity pm25 of Inl e \<Rightarrow> Inl e | Inr (score, _) \<Rightarrow> Inr score)"

section \<open>The rule base is total\<close>

text \<open>The assignment rules of the module's documentation.\<close>

definition spec_consequent :: "string \<Rightarrow> string \<Rightarrow> string \<Rightarrow> string" where
  "spec_consequent t h p =
     (if p = ''low'' then (if h = ''dry'' \<or> t = ''high'' then MODERATE else GOOD)
      else if p = ''medium'' then (if h = ''dry'' \<or> t = ''high'' then USG else MODERATE)
      else (if h = ''dry'' \<and> t = ''high'' then VERY_UNHEALTHY else UNHEALTHY))"

definition temp_names :: "string list" where "temp_names = map fst TEMP_TERMS"
definition hum_names :: "string list" where "hum_names = map fst HUM_TERMS"
definition pm_names :: "string list" where "pm_names = map fst PM_TERMS"

lemmas names_defs = temp_names_def hum_names_def pm_names_def TEMP_TERMS_def HUM_TERMS_def PM_TERMS_def

lemma rule_table_all:
  "list_all (\<lambda>(t, h, p). map_of RULE_TABLE (t, h, p) = Some (spec_consequent t h p))
     (List.product temp_names (List.product hum_names pm_names))"
  by code_simp

lemma rule_table_keys:
  "list_all (\<lambda>k. k \<in> set (List.product temp_names (List.product hum_names pm_names)))
     (map fst RULE_TABLE)"
  by code_simp

lemma rule_table_spec:
  assumes "t \<in> set temp_names" "h \<in> set hum_names" "p \<in> set pm_names"
  shows "map_of RULE_TABLE (t, h, p) = Some (spec_consequent t h p)"
  using rule_table_all assms by (fastforce simp: list_all_iff)

text \<open>The ramp of a consequent as integers; unknown labels do not occur.\<close>

definition ramp :: "string \<Rightarrow> int \<times> int" where
  "ramp q = (if q = GOOD then (0, 40) else if q = MODERATE then (30, 60)
     else if q = USG then (50, 75) else if q = UNHEALTHY then (65, 90) else (85, 100))"

lemma ramp_spec:
  "map_of CONSEQUENTS (spec_consequent t h p) =
     Some (of_int (fst (ramp (spec_consequent t h p))), of_int (snd (ramp (spec_consequent t h p))))"
  by (simp add: spec_consequent_def CONSEQUENTS_def ramp_def label_defs)

lemma ramp_bounds: "0 \<le> fst (ramp q)" "fst (ramp q) \<le> snd (ramp q)" "snd (ramp q) \<le> 100"
  by (auto simp: ramp_def)

section \<open>The firing loop\<close>

definition combo_ok :: "graded \<times> graded \<times> graded \<Rightarrow> bool" where
  "combo_ok = (\<lambda>((tn, tm), (hn, hm), (pn, pm)).
     tn \<in> set temp_names \<and> hn \<in> set hum_names \<and> pn \<in> set pm_names \<and>
     0 \<le> tm \<and> tm \<le> 1 \<and> 0 \<le> hm \<and> hm \<le> 1 \<and> 0 \<le> pm \<and> pm \<le> 1)"

definition fires :: "graded \<times> graded \<times> graded \<Rightarrow> bool" where
  "fires = (\<lambda>((tn, tm), (hn, hm), (pn, pm)). tm \<noteq> 0 \<and> hm \<noteq> 0 \<and> pm \<noteq> 0)"

definition rule_out :: "graded \<times> graded \<times> graded \<Rightarrow> rat \<times> rat" where
  "rule_out = (\<lambda>((tn, tm), (hn, hm), (pn, pm)).
     let alpha = min (min tm hm) pm; r = ramp (spec_consequent tn hn pn)
     in (alpha, inverse_ramp alpha (of_int (fst r)) (of_int (snd r))))"

lemma fire_rules_spec:
  "\<forall>c \<in> set cs. combo_ok c \<Longrightarrow> fire_rules cs = Inr (map rule_out (filter fires cs))"
proof (induction cs rule: fire_rules.induct)
  case (2 tn tm hn hm pn pm rest)
  then have ok: "tn \<in> set temp_names" "hn \<in> set hum_names" "pn \<in> set pm_names"
    "0 \<le> tm" "0 \<le> hm" "0 \<le> pm" by (auto simp: combo_ok_def)
  show ?case
  proof (cases "tm = 0 \<or> hm = 0 \<or> pm = 0")
    case True
    then show ?thesis using 2 by (auto simp: fires_def)
  next
    case False
    then have "min (min tm hm) pm \<noteq> 0" by (auto simp: min_def)
    then show ?thesis using False 2 ok
      by (simp add: fires_def rule_out_def Let_def rule_table_spec ramp_spec)
  qed
qed simp

lemma inverse_ramp_bounds:
  assumes "0 \<le> alpha" "alpha \<le> 1" "0 \<le> lo" "lo \<le> hi" "hi \<le> 100"
  shows "of_int lo \<le> inverse_ramp alpha (of_int lo) (of_int hi)"
    "inverse_ramp alpha (of_int lo) (of_int hi) \<le> of_int hi"
proof -
  have d: "fsub (of_int hi) (of_int lo) = of_int (hi - lo)"
    using f64.fl_int [of "hi - lo"] assms by (simp add: fsub_def)
  let ?m = "fmul alpha (of_int (hi - lo))"
  have "alpha * of_int (hi - lo) \<le> of_int (hi - lo)"
    using assms by (intro mult_left_le_one_le) auto
  then have "?m \<le> of_int (hi - lo)"
    unfolding fmul_def using assms by (intro f64.fl_le_int) auto
  moreover have "0 \<le> ?m" unfolding fmul_def using assms by (intro f64.fl_ge0) auto
  ultimately have m: "0 \<le> ?m" "?m \<le> of_int (hi - lo)" by blast+
  show "of_int lo \<le> inverse_ramp alpha (of_int lo) (of_int hi)"
    "inverse_ramp alpha (of_int lo) (of_int hi) \<le> of_int hi"
    unfolding inverse_ramp_def d fadd_def using m assms
    by (auto intro!: f64.fl_ge_int f64.fl_le_int)
qed

text \<open>A fired pair: a positive strength and an output within the ramp bounds \<open>lo\<close>, \<open>hi\<close>.\<close>

definition pair_in :: "int \<Rightarrow> int \<Rightarrow> rat \<times> rat \<Rightarrow> bool" where
  "pair_in lo hi = (\<lambda>(alpha, z). 0 < alpha \<and> alpha \<le> 1 \<and> of_int lo \<le> z \<and> z \<le> of_int hi)"

lemma rule_out_in:
  assumes "combo_ok c" "fires c" and "c = ((tn, tm), (hn, hm), (pn, pm))"
    and "lo \<le> fst (ramp (spec_consequent tn hn pn))" "snd (ramp (spec_consequent tn hn pn)) \<le> hi"
  shows "pair_in lo hi (rule_out c)"
proof -
  let ?a = "min (min tm hm) pm" and ?r = "ramp (spec_consequent tn hn pn)"
  have a: "0 < ?a" "?a \<le> 1" using assms(1-3) by (auto simp: combo_ok_def fires_def min_def)
  have "of_int (fst ?r) \<le> inverse_ramp ?a (of_int (fst ?r)) (of_int (snd ?r))"
    "inverse_ramp ?a (of_int (fst ?r)) (of_int (snd ?r)) \<le> of_int (snd ?r)"
    by (rule inverse_ramp_bounds; use a ramp_bounds in simp)+
  moreover have "(of_int lo :: rat) \<le> of_int (fst ?r)" "(of_int (snd ?r) :: rat) \<le> of_int hi"
    unfolding of_int_le_iff using assms(4,5) .
  ultimately show ?thesis using a by (auto simp: pair_in_def rule_out_def assms(3) Let_def)
qed

lemma filter_product:
  "length (filter (\<lambda>(a, b). P a \<and> Q b) (List.product xs ys)) = length (filter P xs) * length (filter Q ys)"
  by (induction xs) (auto simp: filter_map comp_def)

lemma fires_count:
  "length (filter fires (combinations ts hs ps)) =
     length (filter (\<lambda>(n, m). m \<noteq> 0) ts) * (length (filter (\<lambda>(n, m). m \<noteq> 0) hs) *
     length (filter (\<lambda>(n, m). m \<noteq> 0) ps))"
proof -
  have "fires = (\<lambda>(a, b). (\<lambda>(n, m). m \<noteq> 0) a \<and> (\<lambda>(c, d). (\<lambda>(n, m). m \<noteq> 0) c \<and> (\<lambda>(n, m). m \<noteq> 0) d) b)"
    by (auto simp: fires_def fun_eq_iff)
  then show ?thesis unfolding combinations_def using filter_product by metis
qed

section \<open>The weighted average under rounding\<close>

text \<open>
  With \<open>A\<close> the exact sum of the strengths and \<open>B\<close> the exact weighted sum, the two computed
  sums are within a relative error of 2 to the power -41, and dividing them moves the result
  by much less than half a hundredth.
\<close>

lemma pair_in_prod:
  assumes "pair_in lo hi (a, z)" "0 \<le> lo"
  shows "0 \<le> a * z" "of_int lo * a \<le> a * z" "a * z \<le> of_int hi * a"
    "0 \<le> fmul a z" "\<bar>fmul a z - a * z\<bar> \<le> a * z / 2 ^ 53"
proof -
  have a: "0 < a" "of_int lo \<le> z" "z \<le> of_int hi" using assms by (auto simp: pair_in_def)
  have "(0::rat) \<le> of_int lo" using assms by simp
  then have z: "0 \<le> z" using a by linarith
  show az: "0 \<le> a * z" using a z by simp
  show "of_int lo * a \<le> a * z" "a * z \<le> of_int hi * a"
    using a by (simp_all add: mult.commute mult_left_mono)
  show "0 \<le> fmul a z" using az by (simp add: fmul_def f64.fl_ge0)
  show "\<bar>fmul a z - a * z\<bar> \<le> a * z / 2 ^ 53"
    using f64.fl_err [of "a * z"] az by (simp add: fmul_def)
qed

lemma sums_bounds:
  assumes "\<forall>x \<in> set fs. pair_in lo hi x" "0 \<le> lo"
  defines "A \<equiv> sum_list (map fst fs)" and "B \<equiv> sum_list (map (\<lambda>(a, z). a * z) fs)"
    and "F \<equiv> sum_list (map (\<lambda>(a, z). fmul a z) fs)"
  shows "of_int lo * A \<le> B \<and> B \<le> of_int hi * A \<and> 0 \<le> B \<and> \<bar>F - B\<bar> \<le> B / 2 ^ 53"
  using assms(1) unfolding A_def B_def F_def
proof (induction fs)
  case (Cons x fs)
  obtain a z where x: "x = (a, z)" by (cases x)
  have p: "pair_in lo hi (a, z)" using Cons.prems x by simp
  note q = pair_in_prod [OF p assms(2)]
  have ih: "of_int lo * sum_list (map fst fs) \<le> sum_list (map (\<lambda>(a, z). a * z) fs)"
    "sum_list (map (\<lambda>(a, z). a * z) fs) \<le> of_int hi * sum_list (map fst fs)"
    "0 \<le> sum_list (map (\<lambda>(a, z). a * z) fs)"
    "\<bar>sum_list (map (\<lambda>(a, z). fmul a z) fs) - sum_list (map (\<lambda>(a, z). a * z) fs)\<bar>
       \<le> sum_list (map (\<lambda>(a, z). a * z) fs) / 2 ^ 53"
    using Cons by auto
  show ?case unfolding x list.map sum_list.Cons prod.case fst_conv distrib_left add_divide_distrib
    by (intro conjI; use q ih in linarith)
qed simp

lemma slack_up:
  fixes A B P Q :: rat
  assumes "0 < A" "S1 \<le> B + B / 2 ^ 41" "A - A / 2 ^ 42 \<le> S2" "P - P / 2 ^ 42 \<le> Q"
    "P \<le> 100 * A" "B \<le> P" "0 \<le> B"
  shows "S1 < Q + 1/400 * S2"
  using assms by (simp; linarith)

lemma slack_down:
  fixes A B P Q :: rat
  assumes "0 < A" "B - B / 2 ^ 41 \<le> S1" "A - A / 2 ^ 42 \<le> S2" "Q \<le> P + P / 2 ^ 42"
    "P \<le> 100 * A" "P \<le> B" "0 \<le> P"
  shows "Q - 1/400 * S2 < S1"
  using assms by (simp; linarith)

lemma weighted_average_bounds:
  assumes "fs \<noteq> []" "\<forall>x \<in> set fs. pair_in lo hi x" "length fs \<le> 64" "0 \<le> lo" "hi \<le> 100"
  shows "of_int lo \<le> py_round2 (weighted_average fs)" "py_round2 (weighted_average fs) \<le> of_int hi"
proof -
  define A where "A = sum_list (map fst fs)"
  define B where "B = sum_list (map (\<lambda>(a, z). a * z) fs)"
  define F where "F = sum_list (map (\<lambda>(a, z). fmul a z) fs)"
  define S1 where "S1 = py_sum (map (\<lambda>(a, z). fmul a z) fs)"
  define S2 where "S2 = py_sum (map fst fs)"
  have b: "of_int lo * A \<le> B" "B \<le> of_int hi * A" "0 \<le> B" "\<bar>F - B\<bar> \<le> B / 2 ^ 53"
    using sums_bounds [OF assms(2,4)] by (simp_all add: A_def B_def F_def)
  have pos: "\<forall>a \<in> set (map fst fs). 0 < a" using assms(2) by (auto simp: pair_in_def)
  have A: "0 < A"
  proof (cases fs)
    case (Cons x xs)
    then have "0 \<le> sum_list (map fst xs)" using pos by (intro sum_list_nonneg) auto
    then show ?thesis using pos Cons by (auto simp: A_def intro: add_pos_nonneg)
  qed (use assms(1) in simp)
  have "\<bar>S2 - A\<bar> \<le> A / 2 ^ 42" unfolding S2_def A_def
    using assms(3) pos by (intro py_sum_err) (auto intro: less_imp_le)
  then have S2: "A - A / 2 ^ 42 \<le> S2" "S2 \<le> A + A / 2 ^ 42" by linarith+
  have "\<bar>S1 - F\<bar> \<le> F / 2 ^ 42" unfolding S1_def F_def
    using assms(2,3) by (intro py_sum_err) (auto intro: pair_in_prod(4) [OF _ assms(4)])
  then have f: "F - F / 2 ^ 42 \<le> S1" "S1 \<le> F + F / 2 ^ 42" by linarith+
  have g: "B - B / 2 ^ 53 \<le> F" "F \<le> B + B / 2 ^ 53" using b(4) by linarith+
  have S1: "B - B / 2 ^ 41 \<le> S1" using f(1) g(1) b(3) by (simp; linarith)
  have S1u: "S1 \<le> B + B / 2 ^ 41" using f(2) g(2) b(3) by (simp; linarith)
  have p2: "0 < S2" using S2(1) A by (simp; linarith)
  have wa: "weighted_average fs = fdiv S1 S2"
    using p2 by (simp add: weighted_average_def S1_def S2_def Let_def)
  have hA: "0 \<le> of_int lo * A" "of_int hi * A \<le> 100 * A"
    using assms(4,5) A by (auto intro!: mult_right_mono)
  have lA: "of_int lo * A \<le> 100 * A" using b(1,2) hA(2) by linarith
  have "of_int lo * A \<le> of_int hi * A" using b(1,2) by linarith
  then have "(of_int lo :: rat) \<le> of_int hi" using A by simp
  then have lohi: "0 \<le> hi" "lo \<le> hi" using assms(4) by simp_all
  have hS: "of_int hi * A - of_int hi * A / 2 ^ 42 \<le> of_int hi * S2"
    "of_int lo * S2 \<le> of_int lo * A + of_int lo * A / 2 ^ 42"
    using mult_left_mono [OF S2(1), of "of_int hi"] mult_left_mono [OF S2(2), of "of_int lo"]
      assms(4) lohi(1) by (simp_all add: algebra_simps)
  have up: "S1 < (of_int hi + 1/400) * S2" unfolding distrib_right
    by (rule slack_up [OF A S1u S2(1) hS(1) hA(2) b(2,3)])
  have dn: "(of_int lo - 1/400) * S2 < S1" unfolding left_diff_distrib
    by (rule slack_down [OF A S1 S2(1) hS(2) lA b(1) hA(1)])
  have q: "S1 / S2 < of_int hi + 1/400" "of_int lo - 1/400 < S1 / S2"
    using up dn p2 by (simp_all add: pos_divide_less_eq pos_less_divide_eq)
  have hi: "(of_int hi :: rat) \<le> 100" "(0::rat) \<le> of_int lo" using assms(4,5) by simp_all
  have "\<bar>S1 / S2\<bar> \<le> 101" using q hi by (auto simp: abs_le_iff)
  then have "\<bar>fdiv S1 S2 - S1 / S2\<bar> \<le> 101 / 2 ^ 53"
    using f64.fl_near [of "S1 / S2" 101] by (simp add: fdiv_def)
  then have e: "\<bar>fdiv S1 S2 - S1 / S2\<bar> \<le> 1/400" by (rule order_trans) simp
  have n: "\<bar>lo\<bar> < 2 ^ 46" "\<bar>hi\<bar> < 2 ^ 46"
    using lohi assms(4,5) by simp_all
  show "of_int lo \<le> py_round2 (weighted_average fs)"
    unfolding wa using e q n(1) by (intro py_round2_ge_slack) (linarith, simp)
  show "py_round2 (weighted_average fs) \<le> of_int hi"
    unfolding wa using e q n(2) by (intro py_round2_le_slack) (linarith, simp)
qed

section \<open>Inference\<close>

definition combos_of :: "rat \<Rightarrow> rat \<Rightarrow> rat \<Rightarrow> (graded \<times> graded \<times> graded) list" where
  "combos_of t h p = combinations (grade TEMP_TERMS t) (grade HUM_TERMS h) (grade PM_TERMS p)"

definition fired_of :: "rat \<Rightarrow> rat \<Rightarrow> rat \<Rightarrow> (rat \<times> rat) list" where
  "fired_of t h p = map rule_out (filter fires (combos_of t h p))"

lemma combos_ok: "c \<in> set (combos_of t h p) \<Longrightarrow> combo_ok c"
  by (auto simp: combos_of_def combinations_def grade_def combo_ok_def temp_names_def hum_names_def
      pm_names_def term_01 intro: rev_image_eqI)

lemma infer_fin:
  "infer (Num (Fin t)) (Num (Fin h)) (Num (Fin p)) =
     Inr (py_round2 (weighted_average (fired_of t h p)), length (fired_of t h p))"
  using fire_rules_spec [of "combos_of t h p"] combos_ok
  by (simp add: infer_def require_finite_def fired_of_def combos_of_def)

lemma grade_le2: "length (filter (\<lambda>(n, m). m \<noteq> 0) (grade TEMP_TERMS x)) \<le> 2"
  "length (filter (\<lambda>(n, m). m \<noteq> 0) (grade HUM_TERMS x)) \<le> 2"
  "length (filter (\<lambda>(n, m). m \<noteq> 0) (grade PM_TERMS x)) \<le> 2"
  using temp_ends [of x] hum_ends [of x] pm_ends [of x]
  by (auto simp: grade_def TEMP_TERMS_def HUM_TERMS_def PM_TERMS_def)

lemma grade_ge1:
  assumes "covered ts x" shows "1 \<le> length (filter (\<lambda>(n, m). m \<noteq> 0) (grade ts x))"
proof -
  obtain n f where "(n, f) \<in> set ts" "1/2 \<le> f x" using assms by (auto simp: covered_def)
  then have "(n, f x) \<in> set (filter (\<lambda>(n, m). m \<noteq> 0) (grade ts x))" by (force simp: grade_def)
  then show ?thesis by (metis One_nat_def Suc_leI length_pos_if_in_set)
qed

lemma fired_length: "1 \<le> length (fired_of t h p)" "length (fired_of t h p) \<le> 8"
proof -
  let ?f = "\<lambda>ts x. length (filter (\<lambda>(n, m). m \<noteq> 0) (grade ts x))"
  have n: "length (fired_of t h p) = ?f TEMP_TERMS t * (?f HUM_TERMS h * ?f PM_TERMS p)"
    by (simp only: fired_of_def combos_of_def length_map fires_count)
  have "?f TEMP_TERMS t * (?f HUM_TERMS h * ?f PM_TERMS p) \<le> 2 * (2 * 2)"
    by (intro mult_le_mono grade_le2)
  then show "length (fired_of t h p) \<le> 8" unfolding n by simp
  have "1 * (1 * 1) \<le> ?f TEMP_TERMS t * (?f HUM_TERMS h * ?f PM_TERMS p)"
    by (intro mult_le_mono grade_ge1 temp_covered hum_covered pm_covered)
  then show "1 \<le> length (fired_of t h p)" unfolding n by simp
qed

text \<open>All fired rules inside an interval: so is the score.\<close>

lemma score_between:
  assumes "\<And>tn hn pn f. (pn, f) \<in> set PM_TERMS \<Longrightarrow> f p \<noteq> 0 \<Longrightarrow>
      lo \<le> fst (ramp (spec_consequent tn hn pn)) \<and> snd (ramp (spec_consequent tn hn pn)) \<le> hi"
    and "0 \<le> lo" "hi \<le> 100"
  shows "of_int lo \<le> py_round2 (weighted_average (fired_of t h p))"
    "py_round2 (weighted_average (fired_of t h p)) \<le> of_int hi"
proof -
  have "pair_in lo hi x" if x: "x \<in> set (fired_of t h p)" for x
  proof -
    obtain tn tm hn hm pn pm where c: "x = rule_out ((tn, tm), (hn, hm), (pn, pm))"
      "((tn, tm), (hn, hm), (pn, pm)) \<in> set (combos_of t h p)" "fires ((tn, tm), (hn, hm), (pn, pm))"
      using x by (auto simp: fired_of_def)
    then obtain f where f: "(pn, f) \<in> set PM_TERMS" "f p \<noteq> 0"
      by (auto simp: combos_of_def combinations_def grade_def fires_def)
    show ?thesis unfolding c(1)
      by (rule rule_out_in [OF combos_ok [OF c(2)] c(3) refl]) (use assms(1) [OF f] in auto)
  qed
  moreover have "fired_of t h p \<noteq> []" "length (fired_of t h p) \<le> 64"
    using fired_length [of t h p] by auto
  ultimately show "of_int lo \<le> py_round2 (weighted_average (fired_of t h p))"
    "py_round2 (weighted_average (fired_of t h p)) \<le> of_int hi"
    using weighted_average_bounds assms(2,3) by blast+
qed

lemma pm_low_only: "p \<le> 50 \<Longrightarrow> pm_medium p = 0 \<and> pm_high p = 0"
  by (auto simp: pm_term_defs trap_def clamp_def)

lemma pm_high_only: "300 \<le> p \<Longrightarrow> pm_medium p = 0 \<and> pm_low p = 0"
  by (auto simp: pm_term_defs trap_def clamp_def)

lemma ramp_low: "snd (ramp (spec_consequent t h ''low'')) \<le> 60"
  by (simp add: spec_consequent_def ramp_def label_defs)

lemma ramp_high: "65 \<le> fst (ramp (spec_consequent t h ''high''))"
  by (simp add: spec_consequent_def ramp_def label_defs)

lemma infer_bounds:
  "\<exists>score n. infer (Num (Fin t)) (Num (Fin h)) (Num (Fin p)) = Inr (score, n) \<and>
     0 \<le> score \<and> score \<le> 100 \<and> 1 \<le> n \<and> n \<le> 8"
  using score_between [of p 0 100 t h] fired_length [of t h p] ramp_bounds
  by (auto simp: infer_fin intro: order_trans [OF ramp_bounds(1)])

section \<open>Properties\<close>

text \<open>
  The rule base is total and is exactly the documented assignment: for the three terms of
  each variable \<open>consequent_for\<close> returns the documented consequent, for every other antecedent
  the dictionary lookup raises.
\<close>

theorem consequent_for_spec:
  "consequent_for t h p =
     (if t \<in> set temp_names \<and> h \<in> set hum_names \<and> p \<in> set pm_names
      then Inr (spec_consequent t h p) else Inl KeyError)"
proof (cases "t \<in> set temp_names \<and> h \<in> set hum_names \<and> p \<in> set pm_names")
  case True
  then show ?thesis by (simp add: consequent_for_def rule_table_spec)
next
  case False
  have "(t, h, p) \<notin> set (map fst RULE_TABLE)"
  proof
    assume "(t, h, p) \<in> set (map fst RULE_TABLE)"
    then have "(t, h, p) \<in> set (List.product temp_names (List.product hum_names pm_names))"
      using rule_table_keys unfolding list_all_iff by blast
    then show False using False by simp
  qed
  then have "map_of RULE_TABLE (t, h, p) = None" by (simp add: map_of_eq_None_iff)
  then show ?thesis using False by (simp only: consequent_for_def option.case if_False)
qed

text \<open>
  C11: For every reading of finite numbers, inference returns a score in [0, 100] under binary64
  rounding, between one and eight rules fire, and no lookup raises; in particular the
  default score is never used.
\<close>

theorem infer_in_range:
  "\<exists>score n. infer (Num (Fin t)) (Num (Fin h)) (Num (Fin p)) = Inr (score, n) \<and>
     0 \<le> score \<and> score \<le> 100 \<and> 1 \<le> n \<and> n \<le> 8"
  using infer_bounds [of t h p] by blast

text \<open>
  \<open>infer\<close> raises exactly on an argument that is not a finite number, and the error is a
  \<open>ValueError\<close>.
\<close>

theorem infer_rejects:
  "infer t h p = Inl e \<longleftrightarrow>
     e = ValueError \<and> \<not> (\<exists>x y z. t = Num (Fin x) \<and> h = Num (Fin y) \<and> p = Num (Fin z))"
proof (cases "\<exists>x y z. t = Num (Fin x) \<and> h = Num (Fin y) \<and> p = Num (Fin z)")
  case True
  then show ?thesis by (auto simp: infer_fin)
next
  case False
  then have "infer t h p = Inl ValueError"
    using infer_fin
    by (auto simp: infer_def require_finite_def split: pyarg.splits pyfloat.splits)
  then show ?thesis using False by auto
qed

text \<open>
  Pollution drives the score: up to 50 ug/m3 of PM2.5 the score is at most 60 whatever
  temperature and humidity are, from 300 ug/m3 it is at least 65.
\<close>

theorem score_follows_pollution:
  "\<exists>s. fuzzy_score (Num (Fin t)) (Num (Fin h)) (Num (Fin p)) = Inr s \<and>
     (p \<le> 50 \<longrightarrow> s \<le> 60) \<and> (300 \<le> p \<longrightarrow> 65 \<le> s)"
proof -
  have "py_round2 (weighted_average (fired_of t h p)) \<le> of_int 60" if "p \<le> 50"
    using pm_low_only [OF that] ramp_bounds ramp_low
    by (intro score_between(2) [of p 0 60]) (auto simp: PM_TERMS_def)
  moreover have "of_int 65 \<le> py_round2 (weighted_average (fired_of t h p))" if "300 \<le> p"
    using pm_high_only [OF that] ramp_bounds ramp_high
    by (intro score_between(1) [of p 65 100]) (auto simp: PM_TERMS_def)
  ultimately show ?thesis by (simp add: fuzzy_score_def infer_fin)
qed

theorem score_follows_pollution_witness:
  "(\<exists>s. fuzzy_score (Num (Fin 20)) (Num (Fin 40)) (Num (Fin 35)) = Inr s \<and> s \<le> 60) \<and>
   (\<exists>s. fuzzy_score (Num (Fin 20)) (Num (Fin 40)) (Num (Fin 320)) = Inr s \<and> 65 \<le> s)"
  using score_follows_pollution [of 20 40 35] score_follows_pollution [of 20 40 320] by simp_all

end
