(* ===== verification/Aqi.thy ===== *)
theory Aqi imports Prelude Py_Float begin

text \<open>
  \<open>src/tasks/aqi.py\<close>: the EPA breakpoint tables, the band lookup, the interpolation with
  its truncation, and the composite index.  Decimal literals are the floats they denote.
  The lemmas reduce every claim about a table to the values at its breakpoints, because one
  band's interpolation is monotone under rounding.
\<close>

section \<open>Tables\<close>

definition dec :: "int \<Rightarrow> int \<Rightarrow> rat" where
  "dec p q = fl64 (of_int p / of_int q)"

type_synonym band = "rat \<times> rat \<times> int \<times> int"

definition c_lo :: "band \<Rightarrow> rat" where "c_lo b = fst b"
definition c_hi :: "band \<Rightarrow> rat" where "c_hi b = fst (snd b)"
definition i_lo :: "band \<Rightarrow> int" where "i_lo b = fst (snd (snd b))"
definition i_hi :: "band \<Rightarrow> int" where "i_hi b = snd (snd (snd b))"

lemmas band_sels = c_lo_def c_hi_def i_lo_def i_hi_def

definition PM25_BANDS :: "band list" where
  "PM25_BANDS =
    [(0, 12, 0, 50), (12, dec 354 10, 51, 100), (dec 355 10, dec 554 10, 101, 150),
     (dec 555 10, dec 1504 10, 151, 200), (dec 1505 10, dec 2504 10, 201, 300),
     (dec 2505 10, dec 3504 10, 301, 400), (dec 3505 10, dec 5004 10, 401, 500)]"

definition PM10_BANDS :: "band list" where
  "PM10_BANDS =
    [(0, 54, 0, 50), (55, 154, 51, 100), (155, 254, 101, 150), (255, 354, 151, 200),
     (355, 424, 201, 300), (425, 504, 301, 400), (505, 604, 401, 500)]"

definition CATEGORIES :: "string list" where
  "CATEGORIES =
    [''Good'', ''Moderate'', ''Unhealthy for Sensitive Groups'', ''Unhealthy'',
     ''Very Unhealthy'', ''Hazardous'', ''Hazardous'']"

section \<open>The computation\<close>

fun subindex_from :: "nat \<Rightarrow> rat \<Rightarrow> band list \<Rightarrow> nat option" where
  "subindex_from i c [] = None"
| "subindex_from i c (b # bs) = (if c \<le> c_hi b then Some i else subindex_from (Suc i) c bs)"

definition subindex :: "rat \<Rightarrow> band list \<Rightarrow> nat" where
  "subindex c bands =
     (case subindex_from 0 c bands of Some i \<Rightarrow> i | None \<Rightarrow> length bands - 1)"

definition interpolate :: "band \<Rightarrow> rat \<Rightarrow> int" where
  "interpolate b c =
     \<lfloor>fadd (fmul (fdiv (of_int (i_hi b - i_lo b)) (fsub (c_hi b) (c_lo b))) (fsub c (c_lo b)))
       (of_int (i_lo b))\<rfloor>"

text \<open>\<open>None\<close> stands for the pair \<open>(None, None)\<close>.\<close>

definition aqi_for :: "pyfloat option \<Rightarrow> band list \<Rightarrow> (int \<times> string) option" where
  "aqi_for concentration bands =
     (case concentration of
        Some (Fin x) \<Rightarrow>
          (let top_hi = c_hi (last bands);
               c = max 0 (min x top_hi);
               i = subindex c bands
           in Some (interpolate (bands ! i) c, CATEGORIES ! i))
      | _ \<Rightarrow> None)"

fun max_aqi :: "(int \<times> string) list \<Rightarrow> (int \<times> string) option" where
  "max_aqi [] = None"
| "max_aqi (x # xs) = Some (foldl (\<lambda>m y. if fst m < fst y then y else m) x xs)"

definition candidate :: "pyfloat option \<Rightarrow> band list \<Rightarrow> (int \<times> string) list" where
  "candidate concentration bands =
     (case concentration of
        None \<Rightarrow> []
      | Some x \<Rightarrow> (if \<not> isfinite x then []
                 else case aqi_for (Some x) bands of None \<Rightarrow> [] | Some r \<Rightarrow> [r]))"

definition compute_aqi :: "pyfloat option \<Rightarrow> pyfloat option \<Rightarrow> (int \<times> string) option" where
  "compute_aqi pm25 pm10 =
     (if pm25 = None \<and> pm10 = None then None
      else max_aqi (candidate pm25 PM25_BANDS @ candidate pm10 PM10_BANDS))"

section \<open>One band\<close>

lemma interpolate_mono:
  assumes "c_lo b < c_hi b" "i_lo b \<le> i_hi b" "c \<le> c'"
  shows "interpolate b c \<le> interpolate b c'"
proof -
  have "0 \<le> fdiv (of_int (i_hi b - i_lo b)) (fsub (c_hi b) (c_lo b))"
    unfolding fdiv_def using assms
    by (intro f64.fl_ge0 divide_nonneg_nonneg fsub_ge0) auto
  then show ?thesis unfolding interpolate_def using assms(3)
    by (intro floor_mono fadd_mono fmul_mono2 fsub_mono) auto
qed

text \<open>
  What a table must satisfy: its bands are ordered and disjoint, the interpolation reaches the
  upper index at the upper concentration, and a band evaluated at the end of the band before
  it falls below the index reached there by at most \<open>k\<close>.
\<close>

definition band_ok :: "band \<Rightarrow> bool" where
  "band_ok b \<longleftrightarrow> c_lo b < c_hi b \<and> i_lo b < i_hi b \<and> \<bar>i_lo b\<bar> < 2 ^ 53 \<and>
     interpolate b (c_hi b) = i_hi b"

fun chain_ok :: "int \<Rightarrow> band list \<Rightarrow> bool" where
  "chain_ok k (b # b' # bs) = (c_hi b \<le> c_lo b' \<and> i_hi b < i_lo b' \<and>
      i_hi b \<le> interpolate b' (c_hi b) + k \<and> chain_ok k (b' # bs))"
| "chain_ok k _ = True"

definition table_ok :: "int \<Rightarrow> band list \<Rightarrow> bool" where
  "table_ok k bands \<longleftrightarrow> 0 \<le> k \<and> bands \<noteq> [] \<and> list_all band_ok bands \<and> chain_ok k bands \<and>
     c_lo (hd bands) = 0 \<and> i_lo (hd bands) = 0"

lemma interpolate_lo: "\<bar>i_lo b\<bar> < 2 ^ 53 \<Longrightarrow> interpolate b (c_lo b) = i_lo b"
  by (simp add: interpolate_def fsub_def fmul_def fadd_def f64.fl_zero f64.fl_int)

text \<open>The eleven decimal breakpoints as binary64 values, and the values at the breakpoints.\<close>

lemma dec_values:
  "dec 354 10 = 4982107087778611 / 140737488355328"
  "dec 355 10 = 71 / 2"
  "dec 554 10 = 7796856854885171 / 140737488355328"
  "dec 555 10 = 111 / 2"
  "dec 1504 10 = 5291729562160333 / 35184372088832"
  "dec 1505 10 = 301 / 2"
  "dec 2504 10 = 8810166771043533 / 35184372088832"
  "dec 2505 10 = 501 / 2"
  "dec 3504 10 = 3082150994981683 / 8796093022208"
  "dec 3505 10 = 701 / 2"
  "dec 5004 10 = 4401564948312883 / 8796093022208"
  by code_simp+

lemma pm25_top0: "interpolate (0, 12, 0, 50) (12) = 50"
  by code_simp

lemma pm25_top1: "interpolate (12, 4982107087778611 / 140737488355328, 51, 100) (4982107087778611 / 140737488355328) = 100"
  by code_simp

lemma pm25_top2: "interpolate (71 / 2, 7796856854885171 / 140737488355328, 101, 150) (7796856854885171 / 140737488355328) = 150"
  by code_simp

lemma pm25_top3: "interpolate (111 / 2, 5291729562160333 / 35184372088832, 151, 200) (5291729562160333 / 35184372088832) = 200"
  by code_simp

lemma pm25_top4: "interpolate (301 / 2, 8810166771043533 / 35184372088832, 201, 300) (8810166771043533 / 35184372088832) = 300"
  by code_simp

lemma pm25_top5: "interpolate (501 / 2, 3082150994981683 / 8796093022208, 301, 400) (3082150994981683 / 8796093022208) = 400"
  by code_simp

lemma pm25_top6: "interpolate (701 / 2, 4401564948312883 / 8796093022208, 401, 500) (4401564948312883 / 8796093022208) = 500"
  by code_simp

lemma pm25_join1: "interpolate (12, 4982107087778611 / 140737488355328, 51, 100) (12) = 51"
  by code_simp

lemma pm25_join2: "interpolate (71 / 2, 7796856854885171 / 140737488355328, 101, 150) (4982107087778611 / 140737488355328) = 100"
  by code_simp

lemma pm25_join3: "interpolate (111 / 2, 5291729562160333 / 35184372088832, 151, 200) (7796856854885171 / 140737488355328) = 150"
  by code_simp

lemma pm25_join4: "interpolate (301 / 2, 8810166771043533 / 35184372088832, 201, 300) (5291729562160333 / 35184372088832) = 200"
  by code_simp

lemma pm25_join5: "interpolate (501 / 2, 3082150994981683 / 8796093022208, 301, 400) (8810166771043533 / 35184372088832) = 300"
  by code_simp

lemma pm25_join6: "interpolate (701 / 2, 4401564948312883 / 8796093022208, 401, 500) (3082150994981683 / 8796093022208) = 400"
  by code_simp

lemmas pm25_values = pm25_top0 pm25_top1 pm25_top2 pm25_top3 pm25_top4 pm25_top5 pm25_top6 pm25_join1 pm25_join2 pm25_join3 pm25_join4 pm25_join5 pm25_join6

lemma pm10_top0: "interpolate (0, 54, 0, 50) (54) = 50"
  by code_simp

lemma pm10_top1: "interpolate (55, 154, 51, 100) (154) = 100"
  by code_simp

lemma pm10_top2: "interpolate (155, 254, 101, 150) (254) = 150"
  by code_simp

lemma pm10_top3: "interpolate (255, 354, 151, 200) (354) = 200"
  by code_simp

lemma pm10_top4: "interpolate (355, 424, 201, 300) (424) = 300"
  by code_simp

lemma pm10_top5: "interpolate (425, 504, 301, 400) (504) = 400"
  by code_simp

lemma pm10_top6: "interpolate (505, 604, 401, 500) (604) = 500"
  by code_simp

lemma pm10_join1: "interpolate (55, 154, 51, 100) (54) = 50"
  by code_simp

lemma pm10_join2: "interpolate (155, 254, 101, 150) (154) = 100"
  by code_simp

lemma pm10_join3: "interpolate (255, 354, 151, 200) (254) = 150"
  by code_simp

lemma pm10_join4: "interpolate (355, 424, 201, 300) (354) = 199"
  by code_simp

lemma pm10_join5: "interpolate (425, 504, 301, 400) (424) = 299"
  by code_simp

lemma pm10_join6: "interpolate (505, 604, 401, 500) (504) = 400"
  by code_simp

lemmas pm10_values = pm10_top0 pm10_top1 pm10_top2 pm10_top3 pm10_top4 pm10_top5 pm10_top6 pm10_join1 pm10_join2 pm10_join3 pm10_join4 pm10_join5 pm10_join6

lemma pm25_table_ok: "table_ok 0 PM25_BANDS"
  by (simp add: table_ok_def PM25_BANDS_def band_ok_def dec_values pm25_values band_sels)

lemma pm10_table_ok: "table_ok 1 PM10_BANDS"
  by (simp add: table_ok_def PM10_BANDS_def band_ok_def pm10_values band_sels)

section \<open>A whole table\<close>

lemma chain_step:
  "chain_ok k bands \<Longrightarrow> Suc j < length bands \<Longrightarrow>
     c_hi (bands ! j) \<le> c_lo (bands ! Suc j) \<and> i_hi (bands ! j) < i_lo (bands ! Suc j) \<and>
     i_hi (bands ! j) \<le> interpolate (bands ! Suc j) (c_hi (bands ! j)) + k"
proof (induction k bands arbitrary: j rule: chain_ok.induct)
  case (1 k b b' bs)
  then show ?case by (cases j) auto
qed auto

lemma i_hi_mono:
  assumes "chain_ok k bands" "list_all band_ok bands" "i \<le> j" "j < length bands"
  shows "i_hi (bands ! i) \<le> i_hi (bands ! j)"
  using assms(3,4)
proof (induction j)
  case (Suc j)
  show ?case
  proof (cases "i = Suc j")
    case False
    have "i_lo (bands ! Suc j) < i_hi (bands ! Suc j)"
      using assms(2) Suc.prems by (simp add: list_all_length band_ok_def)
    then show ?thesis using Suc False chain_step [OF assms(1), of j] by simp
  qed simp
qed simp

lemma subindex_from_spec:
  "subindex_from n c bands = Some i \<Longrightarrow>
     n \<le> i \<and> i - n < length bands \<and> c \<le> c_hi (bands ! (i - n)) \<and>
     (\<forall>j < i - n. c_hi (bands ! j) < c)"
proof (induction n c bands rule: subindex_from.induct)
  case (2 n c b bs)
  show ?case
  proof (cases "c \<le> c_hi b")
    case False
    with 2 have "subindex_from (Suc n) c bs = Some i" by simp
    with 2 False have *: "Suc n \<le> i" "i - Suc n < length bs" "c \<le> c_hi (bs ! (i - Suc n))"
      "\<forall>j < i - Suc n. c_hi (bs ! j) < c" by auto
    then have e: "i - n = Suc (i - Suc n)" by simp
    have "c_hi ((b # bs) ! j) < c" if "j < i - n" for j
      using that False *(4) e by (cases j) auto
    then show ?thesis using * e by simp
  qed (use 2 in simp)
qed simp

lemma subindex_from_None:
  "subindex_from n c bands = None \<longleftrightarrow> (\<forall>b \<in> set bands. c_hi b < c)"
  by (induction n c bands rule: subindex_from.induct) auto

lemma subindex_spec:
  assumes "bands \<noteq> []" "c \<le> c_hi (last bands)"
  shows "subindex c bands < length bands" "c \<le> c_hi (bands ! subindex c bands)"
    "\<And>j. j < subindex c bands \<Longrightarrow> c_hi (bands ! j) < c"
proof -
  have "subindex_from 0 c bands \<noteq> None"
    using assms last_in_set by (auto simp: subindex_from_None not_less)
  then obtain i where i: "subindex_from 0 c bands = Some i" by auto
  then show "subindex c bands < length bands" "c \<le> c_hi (bands ! subindex c bands)"
    "\<And>j. j < subindex c bands \<Longrightarrow> c_hi (bands ! j) < c"
    using subindex_from_spec [OF i] by (auto simp: subindex_def)
qed

text \<open>The index of a concentration after clamping.\<close>

definition clamped :: "band list \<Rightarrow> rat \<Rightarrow> rat" where
  "clamped bands x = max 0 (min x (c_hi (last bands)))"

definition index_of :: "band list \<Rightarrow> rat \<Rightarrow> int" where
  "index_of bands x = interpolate (bands ! subindex (clamped bands x) bands) (clamped bands x)"

definition category_of :: "band list \<Rightarrow> rat \<Rightarrow> string" where
  "category_of bands x = CATEGORIES ! subindex (clamped bands x) bands"

lemma aqi_for_fin: "aqi_for (Some (Fin x)) bands = Some (index_of bands x, category_of bands x)"
  by (simp add: aqi_for_def Let_def index_of_def category_of_def clamped_def)

lemma top_pos:
  assumes "table_ok k bands"
  shows "0 \<le> c_hi (last bands)"
proof -
  have "0 \<le> c_hi (bands ! j)" if "j < length bands" for j
    using that
  proof (induction j)
    case 0
    then show ?case using assms by (force simp: table_ok_def list_all_length band_ok_def hd_conv_nth)
  next
    case (Suc j)
    then have "c_lo (bands ! Suc j) < c_hi (bands ! Suc j)"
      using assms by (simp add: table_ok_def list_all_length band_ok_def)
    then show ?case using Suc chain_step [of k bands j] assms by (simp add: table_ok_def)
  qed
  then show ?thesis using assms by (simp add: table_ok_def last_conv_nth)
qed

text \<open>
  The interpolation within its own band lies between the index of the end of the band before
  (less the slack) and the band's upper index.
\<close>

lemma index_upper:
  assumes "table_ok k bands" "0 \<le> c" "c \<le> c_hi (last bands)"
  shows "interpolate (bands ! subindex c bands) c \<le> i_hi (bands ! subindex c bands)"
proof -
  let ?b = "bands ! subindex c bands"
  have "subindex c bands < length bands" "c \<le> c_hi ?b"
    using subindex_spec [of bands c] assms by (auto simp: table_ok_def)
  then have "band_ok ?b" using assms(1) by (simp add: table_ok_def list_all_length)
  then show ?thesis
    using interpolate_mono [of ?b c "c_hi ?b"] \<open>c \<le> c_hi ?b\<close> by (simp add: band_ok_def)
qed

lemma index_lower:
  assumes "table_ok k bands" "0 \<le> c" "c \<le> c_hi (last bands)" "j < subindex c bands"
  shows "i_hi (bands ! j) \<le> interpolate (bands ! subindex c bands) c + k"
proof -
  let ?i = "subindex c bands"
  have i: "?i < length bands" "c_hi (bands ! (?i - 1)) < c"
    using subindex_spec [of bands c] assms by (auto simp: table_ok_def)
  have e: "?i = Suc (?i - 1)" using assms(4) by simp
  have ok: "band_ok (bands ! ?i)" "chain_ok k bands" "list_all band_ok bands"
    using assms(1) i by (auto simp: table_ok_def list_all_length)
  have "i_hi (bands ! j) \<le> i_hi (bands ! (?i - 1))"
    using i_hi_mono [OF ok(2,3), of j "?i - 1"] assms(4) i by simp
  also have "\<dots> \<le> interpolate (bands ! ?i) (c_hi (bands ! (?i - 1))) + k"
    using chain_step [OF ok(2), of "?i - 1"] i e by simp
  also have "\<dots> \<le> interpolate (bands ! ?i) c + k"
    using interpolate_mono [of "bands ! ?i" "c_hi (bands ! (?i - 1))" c] ok(1) i
    by (simp add: band_ok_def)
  finally show ?thesis .
qed

lemma subindex_mono:
  assumes "bands \<noteq> []" "c \<le> c'" "c' \<le> c_hi (last bands)"
  shows "subindex c bands \<le> subindex c' bands"
proof (rule ccontr)
  assume "\<not> ?thesis"
  then have "c_hi (bands ! subindex c' bands) < c"
    using subindex_spec(3) [of bands c] assms by auto
  then show False using subindex_spec(2) [of bands c'] assms by auto
qed

lemma index_of_slack:
  assumes "table_ok k bands" "x \<le> y"
  shows "index_of bands x \<le> index_of bands y + k"
proof -
  let ?c = "clamped bands x" and ?c' = "clamped bands y"
  have c: "0 \<le> ?c" "?c \<le> ?c'" "0 \<le> ?c'" "?c' \<le> c_hi (last bands)" "?c \<le> c_hi (last bands)"
    using top_pos [OF assms(1)] assms(2) by (auto simp: clamped_def)
  have ne: "bands \<noteq> []" "0 \<le> k" using assms(1) by (auto simp: table_ok_def)
  consider "subindex ?c bands = subindex ?c' bands" | "subindex ?c bands < subindex ?c' bands"
    using subindex_mono [OF ne(1) c(2,4)] by linarith
  then show ?thesis
  proof cases
    case 1
    have "band_ok (bands ! subindex ?c bands)"
      using assms(1) subindex_spec(1) [OF ne(1) c(5)] by (simp add: table_ok_def list_all_length)
    then show ?thesis using interpolate_mono [OF _ _ c(2)] 1 ne(2)
      by (fastforce simp: index_of_def band_ok_def)
  next
    case 2
    show ?thesis
      using index_upper [OF assms(1) c(1,5)] index_lower [OF assms(1) c(3,4) 2]
      by (simp add: index_of_def)
  qed
qed

lemma index_of_0: "table_ok k bands \<Longrightarrow> x \<le> 0 \<Longrightarrow> index_of bands x = 0"
  using interpolate_lo [of "hd bands"] top_pos [of k bands]
  by (cases bands)
    (auto simp: index_of_def clamped_def subindex_def table_ok_def band_ok_def split: if_splits)

lemma index_of_range:
  assumes "table_ok k bands"
  shows "- k \<le> index_of bands x" "index_of bands x \<le> i_hi (last bands)"
proof -
  show "- k \<le> index_of bands x"
    using index_of_slack [OF assms, of "min 0 x" x] index_of_0 [OF assms, of "min 0 x"] by simp
  let ?c = "clamped bands x"
  have c: "0 \<le> ?c" "?c \<le> c_hi (last bands)" using top_pos [OF assms] by (auto simp: clamped_def)
  have ne: "bands \<noteq> []" using assms by (auto simp: table_ok_def)
  have "i_hi (bands ! subindex ?c bands) \<le> i_hi (bands ! (length bands - 1))"
    using assms subindex_spec(1) [OF ne c(2)]
    by (intro i_hi_mono) (auto simp: table_ok_def)
  then show "index_of bands x \<le> i_hi (last bands)"
    using index_upper [OF assms c] ne by (simp add: index_of_def last_conv_nth)
qed

lemma index_of_nonneg:
  assumes "table_ok k bands" "k \<le> i_hi (hd bands)"
  shows "0 \<le> index_of bands x"
proof -
  let ?c = "clamped bands x"
  have c: "0 \<le> ?c" "?c \<le> c_hi (last bands)"
    using top_pos [OF assms(1)] by (auto simp: clamped_def)
  have ne: "bands \<noteq> []" using assms by (auto simp: table_ok_def)
  show ?thesis
  proof (cases "subindex ?c bands")
    case 0
    have "band_ok (hd bands)" "c_lo (hd bands) = 0" "i_lo (hd bands) = 0"
      using assms(1) ne by (auto simp: table_ok_def list_all_iff)
    then show ?thesis
      using interpolate_mono [of "hd bands" 0 ?c] interpolate_lo [of "hd bands"] 0 c ne
      by (simp add: index_of_def band_ok_def hd_conv_nth)
  next
    case (Suc i)
    then show ?thesis using index_lower [OF assms(1) c, of 0] assms(2) ne
      by (simp add: index_of_def hd_conv_nth)
  qed
qed

lemma category_of_in:
  assumes "table_ok k bands" "length bands = 7"
  shows "category_of bands x \<in> set CATEGORIES"
proof -
  have "subindex (clamped bands x) bands < 7"
    using subindex_spec(1) [of bands "clamped bands x"] top_pos [OF assms(1)] assms
    by (auto simp: table_ok_def clamped_def)
  then show ?thesis unfolding category_of_def by (intro nth_mem) (simp add: CATEGORIES_def)
qed

section \<open>The composite\<close>

lemma candidate_simps [simp]:
  "candidate None bands = []"
  "candidate (Some (Fin x)) bands = [(index_of bands x, category_of bands x)]"
  "candidate (Some PInf) bands = []" "candidate (Some NInf) bands = []"
  "candidate (Some NaN) bands = []"
  by (simp_all add: candidate_def aqi_for_fin isfinite_def)

lemma candidate_cases:
  obtains "candidate c bands = []" "\<not> (\<exists>x. c = Some (Fin x))"
  | x where "c = Some (Fin x)" "candidate c bands = [(index_of bands x, category_of bands x)]"
  by (cases c; cases "the c") auto

lemma compute_aqi_cases:
  "compute_aqi a b = max_aqi (candidate a PM25_BANDS @ candidate b PM10_BANDS)"
  by (simp add: compute_aqi_def)

lemmas pm25_range = index_of_nonneg [OF pm25_table_ok] index_of_range(2) [OF pm25_table_ok]
lemmas pm10_range = index_of_nonneg [OF pm10_table_ok] index_of_range(2) [OF pm10_table_ok]

lemma band_ends:
  "i_hi (hd PM25_BANDS) = 50" "i_hi (hd PM10_BANDS) = 50" "i_hi (last PM25_BANDS) = 500"
  "i_hi (last PM10_BANDS) = 500" "length PM25_BANDS = 7" "length PM10_BANDS = 7"
  by (simp_all add: PM25_BANDS_def PM10_BANDS_def i_hi_def)

lemma compute_aqi_scale:
  "case compute_aqi a b of
     None \<Rightarrow> \<not> (\<exists>x. a = Some (Fin x)) \<and> \<not> (\<exists>x. b = Some (Fin x))
   | Some (n, cat) \<Rightarrow> ((\<exists>x. a = Some (Fin x)) \<or> (\<exists>x. b = Some (Fin x))) \<and>
       0 \<le> n \<and> n \<le> 500 \<and> cat \<in> set CATEGORIES"
  using pm25_range pm10_range category_of_in [OF pm25_table_ok] category_of_in [OF pm10_table_ok]
  by - (rule candidate_cases [of a PM25_BANDS]; rule candidate_cases [of b PM10_BANDS];
    auto simp: compute_aqi_cases band_ends)

section \<open>Properties\<close>

text \<open>
  The composite index is missing exactly when neither concentration is a finite number;
  otherwise it is an integer of the scale 0..500 (under binary64 rounding, whatever the sensors
  report, negative values and values far beyond the tables included) with a category of the
  scale.
\<close>

theorem aqi_on_scale:
  "case compute_aqi a b of
     None \<Rightarrow> \<not> (\<exists>x. a = Some (Fin x)) \<and> \<not> (\<exists>x. b = Some (Fin x))
   | Some (n, cat) \<Rightarrow> ((\<exists>x. a = Some (Fin x)) \<or> (\<exists>x. b = Some (Fin x))) \<and>
       0 \<le> n \<and> n \<le> 500 \<and> cat \<in> set CATEGORIES"
  by (rule compute_aqi_scale)

text \<open>
  The composite is the larger of the two pollutants' indices, with the category of that
  pollutant, PM2.5 winning a tie.
\<close>

theorem aqi_is_max:
  "compute_aqi (Some (Fin x)) (Some (Fin y)) =
     (case (compute_aqi (Some (Fin x)) None, compute_aqi None (Some (Fin y))) of
        (Some p, Some q) \<Rightarrow> Some (if fst p < fst q then q else p) | _ \<Rightarrow> None)"
  by (simp add: compute_aqi_cases)

text \<open>
  More PM2.5 never lowers the index, across band edges and gaps included; with more PM10 the
  index falls by at most one point, and so does the composite.
\<close>

theorem aqi_monotone:
  assumes "x \<le> x'" "y \<le> y'"
  shows "fst (the (compute_aqi (Some (Fin x)) None)) \<le> fst (the (compute_aqi (Some (Fin x')) None)) \<and>
    fst (the (compute_aqi (Some (Fin x)) (Some (Fin y))))
      \<le> fst (the (compute_aqi (Some (Fin x')) (Some (Fin y')))) + 1"
  using index_of_slack [OF pm25_table_ok assms(1)] index_of_slack [OF pm10_table_ok assms(2)]
  by (auto simp: compute_aqi_cases)

theorem aqi_monotone_witness:
  "fst (the (compute_aqi (Some (Fin 35)) None)) \<le> fst (the (compute_aqi (Some (Fin 36)) None)) \<and>
   fst (the (compute_aqi (Some (Fin 35)) (Some (Fin 354))))
      \<le> fst (the (compute_aqi (Some (Fin 36)) (Some (Fin 355)))) + 1"
  using aqi_monotone [of 35 36 354 355] by simp

text \<open>
  Between two bands of the PM10 table the upper band is extrapolated below its own range:
  354 ug/m3 is 200 (Unhealthy) while the higher 354.2 is 199, labelled Very Unhealthy, although
  that category starts at 201.
\<close>

theorem aqi_pm10_gap:
  "compute_aqi None (Some (Fin 354)) = Some (200, ''Unhealthy'') \<and>
   compute_aqi None (Some (Fin (dec 3542 10))) = Some (199, ''Very Unhealthy'')"
  by (rule conjI; code_simp)

end
