(* ===== verification/Process_Reading.thy ===== *)
theory Process_Reading imports Models Redis Tsukamoto Aqi begin

text \<open>
  \<open>src/tasks/process_reading.py\<close>: coercion of the payload, enrichment (score, index, anomaly),
  the clamp of device times, the insert with its duplicate handling and the write-through to
  Redis.  Parameters: \<open>fromiso\<close> (\<open>datetime.fromisoformat\<close>), \<open>iso\<close> (\<open>isoformat\<close> with the Z suffix),
  the database's \<open>avg\<close> and \<open>var_pop\<close>, and \<open>pow_half\<close> (\<open>** 0.5\<close>).
\<close>

section \<open>Payloads\<close>

datatype time_value = TMissing | TStr string | TDatetime datetime | TOther bool

record payload =
  p_fields :: "(string \<times> json) list"
  p_time :: time_value

definition ANOMALY_WINDOW_SAMPLES :: nat where "ANOMALY_WINDOW_SAMPLES = 2880"
definition ANOMALY_WINDOW_MINUTES :: int where "ANOMALY_WINDOW_MINUTES = 1440"
definition ANOMALY_MIN_SAMPLES :: nat where "ANOMALY_MIN_SAMPLES = 5"
definition ANOMALY_Z_THRESHOLD :: rat where "ANOMALY_Z_THRESHOLD = 3"
definition TIME_SKEW_LIMIT_HOURS :: int where "TIME_SKEW_LIMIT_HOURS = 24"
definition LATEST_CACHE_TTL :: int where "LATEST_CACHE_TTL = 60"
definition LATEST_GLOBAL_KEY :: string where "LATEST_GLOBAL_KEY = ''readings:latest''"

definition latest_key :: "string \<Rightarrow> string" where "latest_key node_id = ''readings:latest:'' @ node_id"

lemmas pr_consts = ANOMALY_WINDOW_SAMPLES_def ANOMALY_WINDOW_MINUTES_def ANOMALY_MIN_SAMPLES_def
  ANOMALY_Z_THRESHOLD_def TIME_SKEW_LIMIT_HOURS_def LATEST_CACHE_TTL_def LATEST_GLOBAL_KEY_def

section \<open>Coercion\<close>

definition opt_float :: "json \<Rightarrow> py_error + pyfloat option" where
  "opt_float v = (if v = JNull then Inr None else ebind (float_of v) (\<lambda>x. Inr (Some x)))"

definition valid_float :: "json \<Rightarrow> py_error + rat option" where
  "valid_float v = ebind (opt_float v) (\<lambda>x. case x of Some (Fin r) \<Rightarrow> Inr (Some r) | _ \<Rightarrow> Inr None)"

definition clamp_skew :: "timestamp \<Rightarrow> timestamp \<Rightarrow> timestamp" where
  "clamp_skew now dt = (if hours TIME_SKEW_LIMIT_HOURS < \<bar>dt - now\<bar> then now else dt)"

definition parse_time :: "(string \<Rightarrow> datetime option) \<Rightarrow> timestamp \<Rightarrow> time_value \<Rightarrow> py_error + timestamp" where
  "parse_time fromiso now v =
     (case v of
        TMissing \<Rightarrow> Inr now
      | TOther b \<Rightarrow> (if b then Inl AttributeError else Inr now)
      | TDatetime dt \<Rightarrow> Inr (clamp_skew now (to_utc dt))
      | TStr s \<Rightarrow>
          (if s = [] then Inr now
           else case fromiso (replace_z s) of
             None \<Rightarrow> Inr now
           | Some dt \<Rightarrow> Inr (clamp_skew now (to_utc dt))))"

section \<open>Enrichment\<close>

definition num_or :: "rat option \<Rightarrow> rat \<Rightarrow> pyarg" where
  "num_or x d = Num (Fin (case x of None \<Rightarrow> d | Some r \<Rightarrow> r))"

definition build_reading ::
  "(string \<Rightarrow> datetime option) \<Rightarrow> timestamp \<Rightarrow> payload \<Rightarrow> string \<Rightarrow> py_error + reading" where
  "build_reading fromiso now payload node_id =
    (let f = (\<lambda>k. valid_float (get (p_fields payload) k)) in
     ebind (f ''temperature'') (\<lambda>temperature.
     ebind (f ''humidity'') (\<lambda>humidity.
     ebind (f ''pm25'') (\<lambda>pm25.
     ebind (f ''pm10'') (\<lambda>pm10.
     ebind (fuzzy_score (num_or temperature 25) (num_or humidity 0) (num_or pm25 0)) (\<lambda>score.
     let aqi = compute_aqi (map_option Fin pm25) (map_option Fin pm10) in
     ebind (parse_time fromiso now (p_time payload)) (\<lambda>time.
     ebind (f ''pressure'') (\<lambda>pressure.
     ebind (f ''voc_ohm'') (\<lambda>voc_ohm.
     ebind (f ''mq135_ppm'') (\<lambda>mq135_ppm.
     ebind (f ''pm1'') (\<lambda>pm1.
     ebind (f ''battery_v'') (\<lambda>battery_v.
       Inr \<lparr>s_time = time, s_node_id = node_id, s_temperature = temperature, s_humidity = humidity,
         s_pressure = pressure, s_voc_ohm = voc_ohm, s_mq135_ppm = mq135_ppm, s_pm1 = pm1,
         s_pm25 = pm25, s_pm10 = pm10, s_battery_v = battery_v, s_fuzzy_score = Some score,
         s_aqi = map_option fst aqi, s_aqi_category = map_option snd aqi,
         s_is_anomaly = False\<rparr>))))))))))))"

section \<open>Anomaly detection\<close>

definition recent_pm25 :: "timestamp \<Rightarrow> string \<Rightarrow> reading list \<Rightarrow> rat list" where
  "recent_pm25 since node_id rows =
     map (\<lambda>r. the (s_pm25 r))
       (take ANOMALY_WINDOW_SAMPLES
         (sort_key (\<lambda>r. - s_time r)
           (select_where (\<lambda>r. s_node_id r = node_id \<and> since \<le> s_time r \<and> s_pm25 r \<noteq> None) rows)))"

definition detect_anomaly ::
  "(rat list \<Rightarrow> rat) \<Rightarrow> (rat list \<Rightarrow> rat) \<Rightarrow> (rat \<Rightarrow> rat) \<Rightarrow> timestamp \<Rightarrow> reading list \<Rightarrow> string
     \<Rightarrow> rat option \<Rightarrow> bool" where
  "detect_anomaly avg var_pop pow_half now rows node_id pm25 =
     (case pm25 of
        None \<Rightarrow> False
      | Some p \<Rightarrow>
          (let xs = recent_pm25 (now - minutes ANOMALY_WINDOW_MINUTES) node_id rows in
           if length xs < ANOMALY_MIN_SAMPLES then False
           else let sample_mean = avg xs; sample_variance = var_pop xs in
             if sample_variance = 0 then False
             else ANOMALY_Z_THRESHOLD < fdiv \<bar>fsub p sample_mean\<bar> (pow_half sample_variance)))"

section \<open>Cache\<close>

definition enriched_dict :: "(timestamp \<Rightarrow> string) \<Rightarrow> reading \<Rightarrow> (string \<times> json) list" where
  "enriched_dict isofmt r =
    [(''node_id'', JStr (s_node_id r)), (''time'', JStr (isofmt (s_time r))),
     (''temperature'', jnum (s_temperature r)), (''humidity'', jnum (s_humidity r)),
     (''pressure'', jnum (s_pressure r)), (''pm25'', jnum (s_pm25 r)), (''pm10'', jnum (s_pm10 r)),
     (''battery_v'', jnum (s_battery_v r)), (''fuzzy_score'', jnum (s_fuzzy_score r)),
     (''aqi'', jint (s_aqi r)), (''aqi_category'', jstr (s_aqi_category r)),
     (''is_anomaly'', JBool (s_is_anomaly r))]"

text \<open>The first command that fails ends the write-through; the failure is logged only.\<close>

definition write_latest_cache :: "timestamp \<Rightarrow> string \<Rightarrow> (string \<times> json) list \<Rightarrow> rval redis \<Rightarrow> rval redis" where
  "write_latest_cache now node_id doc r =
     (case redis_setex now (latest_key node_id) LATEST_CACHE_TTL (RDoc (JObj doc)) r of
        (Inl e, r') \<Rightarrow> r'
      | (Inr _, r') \<Rightarrow> snd (redis_delete LATEST_GLOBAL_KEY r'))"

section \<open>The task\<close>

definition is_duplicate_reading :: "string \<Rightarrow> bool" where
  "is_duplicate_reading constraint = (constraint = ''sensor_readings_pkey'')"

record env =
  e_fromiso :: "string \<Rightarrow> datetime option"
  e_isofmt :: "timestamp \<Rightarrow> string"
  e_avg :: "rat list \<Rightarrow> rat"
  e_var_pop :: "rat list \<Rightarrow> rat"
  e_pow_half :: "rat \<Rightarrow> rat"

text \<open>The body of the \<open>with\<close> block: the enriched document, or \<open>None\<close> for \<open>return {}\<close>.\<close>

definition process_body :: "env \<Rightarrow> timestamp \<Rightarrow> payload \<Rightarrow> string \<Rightarrow> db
    \<Rightarrow> (py_error + (string \<times> json) list option) \<times> db" where
  "process_body env now payload node_id d =
     (case select_one (\<lambda>n. n_node_id n = node_id) (nodes d) of
        None \<Rightarrow> (Inr None, d)
      | Some node \<Rightarrow>
         (if \<not> n_is_active node then (Inr None, d)
          else case build_reading (e_fromiso env) now payload node_id of
            Inl e \<Rightarrow> (Inl e, d)
          | Inr r0 \<Rightarrow>
             (let r = r0\<lparr>s_is_anomaly := detect_anomaly (e_avg env) (e_var_pop env) (e_pow_half env)
                    now (readings d) node_id (s_pm25 r0)\<rparr> in
              case insert_reading r d of
                Inl (IntegrityError c) \<Rightarrow>
                  (if is_duplicate_reading c then (Inr None, d) else (Inl (IntegrityError c), d))
              | Inl e \<Rightarrow> (Inl e, d)
              | Inr d' \<Rightarrow> (Inr (Some (enriched_dict (e_isofmt env) r)), d'))))"

definition process_reading :: "env \<Rightarrow> timestamp \<Rightarrow> bool \<Rightarrow> payload \<Rightarrow> db \<Rightarrow> rval redis
    \<Rightarrow> (py_error + (string \<times> json) list) \<times> db \<times> rval redis" where
  "process_reading env now rollback_fails payload d r =
     (case get (p_fields payload) ''node_id'' of
        JStr node_id \<Rightarrow>
          (if node_id = [] then (Inr [], d, r)
           else case get_sync_db rollback_fails (process_body env now payload node_id) d of
             (Inl e, d') \<Rightarrow> (Inl e, d', r)
           | (Inr None, d') \<Rightarrow> (Inr [], d', r)
           | (Inr (Some doc), d') \<Rightarrow> (Inr doc, d', write_latest_cache now node_id doc r))
      | v \<Rightarrow> if truthy v then (Inl DatabaseError, d, r) else (Inr [], d, r))"

section \<open>Times\<close>

lemma clamp_skew_near: "\<bar>clamp_skew now t - now\<bar> \<le> hours 24"
  by (simp add: clamp_skew_def TIME_SKEW_LIMIT_HOURS_def time_units)

lemma hours_nonneg [simp]: "0 \<le> hours 24"
  by (simp add: time_units)

lemma parse_time_near: "parse_time fromiso now v = Inr t \<Longrightarrow> \<bar>t - now\<bar> \<le> hours 24"
  using clamp_skew_near by (auto simp: parse_time_def split: time_value.splits if_splits option.splits)

lemma clamp_skew_id: "\<bar>t - now\<bar> \<le> hours 24 \<Longrightarrow> clamp_skew now t = t"
  by (simp add: clamp_skew_def TIME_SKEW_LIMIT_HOURS_def)

text \<open>A payload time that \<open>parse_time\<close> reads as \<open>t\<close>, whatever the clock says within the window.\<close>

definition sent_at :: "(string \<Rightarrow> datetime option) \<Rightarrow> time_value \<Rightarrow> timestamp option" where
  "sent_at fromiso v =
     (case v of TDatetime dt \<Rightarrow> Some (to_utc dt)
      | TStr s \<Rightarrow> if s = [] then None else map_option to_utc (fromiso (replace_z s))
      | _ \<Rightarrow> None)"

lemma parse_time_sent:
  "sent_at fromiso v = Some t \<Longrightarrow> \<bar>t - now\<bar> \<le> hours 24 \<Longrightarrow> parse_time fromiso now v = Inr t"
  by (auto simp: sent_at_def parse_time_def clamp_skew_id split: time_value.splits if_splits)

section \<open>Enriched rows\<close>

lemma fuzzy_num_or: "\<exists>s. fuzzy_score (num_or t a) (num_or h b) (num_or p c) = Inr s \<and> 0 \<le> s \<and> s \<le> 100"
  using infer_bounds [of "case t of None \<Rightarrow> a | Some r \<Rightarrow> r" "case h of None \<Rightarrow> b | Some r \<Rightarrow> r"
      "case p of None \<Rightarrow> c | Some r \<Rightarrow> r"]
  by (auto simp: num_or_def fuzzy_score_def)

definition enriched_ok :: "timestamp \<Rightarrow> string \<Rightarrow> reading \<Rightarrow> bool" where
  "enriched_ok now node_id r =
     (s_node_id r = node_id \<and> \<bar>s_time r - now\<bar> \<le> hours 24 \<and>
      (case s_fuzzy_score r of None \<Rightarrow> False | Some s \<Rightarrow> 0 \<le> s \<and> s \<le> 100) \<and>
      (case s_aqi r of None \<Rightarrow> s_pm25 r = None \<and> s_pm10 r = None
         | Some n \<Rightarrow> 0 \<le> n \<and> n \<le> 500 \<and> (s_pm25 r \<noteq> None \<or> s_pm10 r \<noteq> None)) \<and>
      (s_aqi r = None) = (s_aqi_category r = None) \<and>
      (case s_aqi_category r of None \<Rightarrow> True | Some c \<Rightarrow> c \<in> set CATEGORIES))"

lemma build_reading_ok:
  assumes "build_reading fromiso now payload node_id = Inr r"
  shows "enriched_ok now node_id r"
proof -
  obtain t h p q sc where sc: "fuzzy_score (num_or t 25) (num_or h 0) (num_or p 0) = Inr sc"
    and r: "s_fuzzy_score r = Some sc" "s_pm25 r = p" "s_pm10 r = q" "s_node_id r = node_id"
      "s_aqi r = map_option fst (compute_aqi (map_option Fin p) (map_option Fin q))"
      "s_aqi_category r = map_option snd (compute_aqi (map_option Fin p) (map_option Fin q))"
      "parse_time fromiso now (p_time payload) = Inr (s_time r)"
    using assms by (auto simp: build_reading_def Let_def ebind_Inr_iff)
  have "0 \<le> sc" "sc \<le> 100" using fuzzy_num_or [of t 25 h 0 p 0] sc by auto
  then show ?thesis
    using r parse_time_near [OF r(7)] compute_aqi_scale [of "map_option Fin p" "map_option Fin q"]
    by (auto simp: enriched_ok_def split: option.splits)
qed

text \<open>Only the anomaly flag is set after the row was built.\<close>

lemma enriched_ok_anomaly [simp]: "enriched_ok now n (r\<lparr>s_is_anomaly := b\<rparr>) = enriched_ok now n r"
  by (simp add: enriched_ok_def split: option.splits)

section \<open>The body\<close>

text \<open>The row a run would store, the anomaly flag included.\<close>

definition row_for :: "env \<Rightarrow> timestamp \<Rightarrow> db \<Rightarrow> string \<Rightarrow> reading \<Rightarrow> reading" where
  "row_for env now d node_id r0 =
     r0\<lparr>s_is_anomaly := detect_anomaly (e_avg env) (e_var_pop env) (e_pow_half env) now (readings d)
       node_id (s_pm25 r0)\<rparr>"

definition active_node :: "db \<Rightarrow> string \<Rightarrow> bool" where
  "active_node d node_id =
     (case select_one (\<lambda>n. n_node_id n = node_id) (nodes d) of None \<Rightarrow> False | Some n \<Rightarrow> n_is_active n)"

lemma active_node_known: "active_node d node_id \<Longrightarrow> node_id \<in> set (map n_node_id (nodes d))"
  by (auto simp: active_node_def dest!: select_one_Some split: option.splits)

lemma process_body_cases:
  "process_body env now payload node_id d =
     (if \<not> active_node d node_id then (Inr None, d)
      else case build_reading (e_fromiso env) now payload node_id of
        Inl e \<Rightarrow> (Inl e, d)
      | Inr r0 \<Rightarrow>
          (if reading_key r0 \<in> set (map reading_key (readings d)) then (Inr None, d)
           else (Inr (Some (enriched_dict (e_isofmt env) (row_for env now d node_id r0))),
                 d\<lparr>readings := row_for env now d node_id r0 # readings d\<rparr>)))"
proof (cases "active_node d node_id")
  case True
  have "s_node_id r0 = node_id" if "build_reading (e_fromiso env) now payload node_id = Inr r0" for r0
    using build_reading_ok [OF that] by (simp add: enriched_ok_def)
  then show ?thesis using active_node_known [OF True] True
    by (auto simp: process_body_def active_node_def insert_reading_def Let_def row_for_def
        is_duplicate_reading_def reading_key_def split: option.splits sum.splits)
qed (auto simp: process_body_def active_node_def split: option.splits)

text \<open>What the task answers and stores does not depend on Redis.\<close>

definition task_result :: "env \<Rightarrow> timestamp \<Rightarrow> bool \<Rightarrow> payload \<Rightarrow> db \<Rightarrow> (py_error + (string \<times> json) list) \<times> db" where
  "task_result env now rf payload d =
     (case get (p_fields payload) ''node_id'' of
        JStr node_id \<Rightarrow> (if node_id = [] then (Inr [], d)
          else case get_sync_db rf (process_body env now payload node_id) d of
            (Inl e, d') \<Rightarrow> (Inl e, d') | (Inr None, d') \<Rightarrow> (Inr [], d') | (Inr (Some doc), d') \<Rightarrow> (Inr doc, d'))
      | v \<Rightarrow> if truthy v then (Inl DatabaseError, d) else (Inr [], d))"

lemma process_reading_result:
  "(fst (process_reading env now rf payload d r), fst (snd (process_reading env now rf payload d r)))
     = task_result env now rf payload d"
  by (simp add: process_reading_def task_result_def split: json.splits prod.splits sum.splits option.splits)

lemma process_reading_db: "fst (snd (process_reading env now rf payload d r)) = snd (task_result env now rf payload d)"
  by (metis process_reading_result snd_conv)

lemma task_result_node:
  "get (p_fields payload) ''node_id'' = JStr node_id \<Longrightarrow> node_id \<noteq> [] \<Longrightarrow>
   task_result env now rf payload d =
     (if \<not> active_node d node_id then (Inr [], d)
      else case build_reading (e_fromiso env) now payload node_id of
        Inl e \<Rightarrow> (Inl (if rf then DatabaseError else e), d)
      | Inr r0 \<Rightarrow>
          (if reading_key r0 \<in> set (map reading_key (readings d)) then (Inr [], d)
           else (Inr (enriched_dict (e_isofmt env) (row_for env now d node_id r0)),
                 d\<lparr>readings := row_for env now d node_id r0 # readings d\<rparr>)))"
  by (simp add: task_result_def get_sync_db_def process_body_cases split: sum.splits)

lemma row_for_simps [simp]:
  "reading_key (row_for env now d n r0) = reading_key r0" "s_node_id (row_for env now d n r0) = s_node_id r0"
  "enriched_ok now n' (row_for env now d n r0) = enriched_ok now n' r0"
  by (simp_all add: row_for_def reading_key_def)

lemma task_result_cases:
  obtains e where "task_result env now rf payload d = (Inl e, d)"
  | "task_result env now rf payload d = (Inr [], d)"
  | node_id r0 where "get (p_fields payload) ''node_id'' = JStr node_id" "active_node d node_id"
      "build_reading (e_fromiso env) now payload node_id = Inr r0"
      "reading_key r0 \<notin> set (map reading_key (readings d))"
      "task_result env now rf payload d = (Inr (enriched_dict (e_isofmt env) (row_for env now d node_id r0)),
         d\<lparr>readings := row_for env now d node_id r0 # readings d\<rparr>)"
proof (cases "\<exists>node_id. get (p_fields payload) ''node_id'' = JStr node_id \<and> node_id \<noteq> []")
  case True
  then obtain n where n: "get (p_fields payload) ''node_id'' = JStr n" "n \<noteq> []" by blast
  show ?thesis
    using that task_result_node [OF n, of env now rf d]
    by (cases "active_node d n"; cases "build_reading (e_fromiso env) now payload n"; simp add: n split: if_splits)
next
  case False
  then have "task_result env now rf payload d = (Inl DatabaseError, d) \<or> task_result env now rf payload d = (Inr [], d)"
    by (cases "get (p_fields payload) ''node_id''") (auto simp: task_result_def)
  then show ?thesis using that by blast
qed

lemma process_reading_cache:
  "snd (snd (process_reading env now rf payload d r)) = r \<or>
   (\<exists>n doc. fst (process_reading env now rf payload d r) = Inr doc \<and>
      snd (snd (process_reading env now rf payload d r)) = write_latest_cache now n doc r)"
  by (auto simp: process_reading_def split: json.splits prod.splits sum.splits option.splits)

text \<open>Building the row again at another time changes its time only.\<close>

lemma build_reading_again:
  assumes "build_reading fromiso now payload node_id = Inr r" "parse_time fromiso now' (p_time payload) = Inr t"
  shows "build_reading fromiso now' payload node_id = Inr (r\<lparr>s_time := t\<rparr>)"
  using assms by (auto simp: build_reading_def Let_def ebind_Inr_iff)

lemma build_reading_time:
  "build_reading fromiso now payload node_id = Inr r \<Longrightarrow> parse_time fromiso now (p_time payload) = Inr (s_time r)"
  by (auto simp: build_reading_def Let_def ebind_Inr_iff)

lemma enriched_dict_nonempty [simp]: "enriched_dict isofmt r \<noteq> []"
  by (simp add: enriched_dict_def)

section \<open>Properties\<close>

text \<open>
  C4: One run of the task leaves the database as it was, or adds exactly one row: a row of a
  registered active node whose key was not stored before, whose time is within 24 hours of the
  server's, whose score is in [0, 100] and whose index is on the AQI scale and present exactly
  when a PM value is; the answer is then that row's document.  An exception or a dropped payload
  changes nothing.
\<close>

theorem process_reading_effect:
  "\<exists>res d' r'. process_reading env now rf payload d r = (res, d', r') \<and>
     ((d' = d \<and> ((\<exists>e. res = Inl e) \<or> res = Inr [])) \<or>
      (\<exists>node_id row. get (p_fields payload) ''node_id'' = JStr node_id \<and> active_node d node_id \<and>
         d' = d\<lparr>readings := row # readings d\<rparr> \<and> reading_key row \<notin> set (map reading_key (readings d)) \<and>
         enriched_ok now node_id row \<and> res = Inr (enriched_dict (e_isofmt env) row)))"
proof -
  obtain res d' r' where p: "process_reading env now rf payload d r = (res, d', r')"
    by (metis prod_cases3)
  then have t: "task_result env now rf payload d = (res, d')"
    using process_reading_result [of env now rf payload d r] by simp
  show ?thesis
    by (rule task_result_cases [of env now rf payload d])
      (use p t in \<open>fastforce dest: build_reading_ok\<close>)+
qed


definition sample_node :: node where
  "sample_node = \<lparr>n_node_id = ''ESP32-01'', n_name = None, n_location_name = None, n_lat = None,
     n_lon = None, n_firmware_version = None, n_reading_interval = 30, n_is_active = True,
     n_registered_at = 0, n_last_seen = None\<rparr>"

definition sample_db :: db where "sample_db = empty_db\<lparr>nodes := [sample_node]\<rparr>"

definition sample_env :: env where
  "sample_env = \<lparr>e_fromiso = (\<lambda>s. Some (Aware 100)), e_isofmt = (\<lambda>t. ''t''),
     e_avg = (\<lambda>xs. sum_list xs / of_nat (length xs)), e_var_pop = (\<lambda>xs. 1), e_pow_half = (\<lambda>x. x)\<rparr>"

definition sample_payload :: payload where
  "sample_payload = \<lparr>p_fields = [(''node_id'', JStr ''ESP32-01'')], p_time = TStr ''t''\<rparr>"

lemmas sample_defs = sample_node_def sample_db_def sample_env_def sample_payload_def empty_db_def


text \<open>
  A redelivery is harmless: once a run has stored a reading with a device time, every later
  run on the same payload (as long as that time is within the window of its clock) answers {} and
  changes neither database nor cache.
\<close>

theorem redelivery_is_dropped:
  assumes "process_reading env now rf payload d r = (Inr doc, d', r')" "doc \<noteq> []"
    and "sent_at (e_fromiso env) (p_time payload) = Some t" "\<bar>t - now\<bar> \<le> hours 24" "\<bar>t - now'\<bar> \<le> hours 24"
  shows "process_reading env now' rf' payload d' r'' = (Inr [], d', r'')"
proof -
  have "task_result env now rf payload d = (Inr doc, d')"
    using process_reading_result [of env now rf payload d r] assms(1) by simp
  then obtain n r0 where n: "get (p_fields payload) ''node_id'' = JStr n" "active_node d n"
      and r0: "build_reading (e_fromiso env) now payload n = Inr r0"
      and d': "d' = d\<lparr>readings := row_for env now d n r0 # readings d\<rparr>"
    using assms(2) by (cases rule: task_result_cases [of env now rf payload d]) auto
  have "s_time r0 = t"
    using build_reading_time [OF r0] parse_time_sent [OF assms(3,4)] by simp
  then have "build_reading (e_fromiso env) now' payload n = Inr r0"
    using build_reading_again [OF r0 parse_time_sent [OF assms(3,5)]] by simp
  moreover have "reading_key r0 \<in> set (map reading_key (readings d'))" "active_node d' n"
    using n(2) by (auto simp: d' active_node_def)
  ultimately show ?thesis
    by (auto simp: process_reading_def get_sync_db_def process_body_cases n(1) split: json.splits)
qed

theorem redelivery_is_dropped_witness:
  "\<exists>doc d' r'. process_reading sample_env 0 False sample_payload sample_db NoClient = (Inr doc, d', r') \<and> doc \<noteq> [] \<and>
     process_reading sample_env 5 True sample_payload d' r' = (Inr [], d', r')"
proof -
  obtain s where "fuzzy_score (num_or None 25) (num_or None 0) (num_or None 0) = Inr s"
    using fuzzy_num_or by blast
  then have "task_result sample_env 0 False sample_payload sample_db \<noteq> (Inr [], snd (task_result sample_env 0 False sample_payload sample_db))"
    "\<exists>doc d'. task_result sample_env 0 False sample_payload sample_db = (Inr doc, d')"
    by (auto simp: task_result_def get_sync_db_def process_body_cases sample_defs get_def active_node_def select_one_def
        build_reading_def valid_float_def opt_float_def parse_time_def Let_def split: sum.splits)
  then obtain doc d' r' where p: "process_reading sample_env 0 False sample_payload sample_db NoClient = (Inr doc, d', r')"
    "doc \<noteq> []"
    using process_reading_result [of sample_env 0 False sample_payload sample_db NoClient]
    by (metis fst_conv snd_conv prod.collapse)
  then show ?thesis
    using redelivery_is_dropped [OF p, of 100 5 True r']
    by (auto simp: sample_env_def sample_payload_def sent_at_def to_utc_def time_units)
qed

text \<open>
  Redis never decides what is stored or answered: the answer and the database are the same
  for every client state and every pattern of failing commands; a cached document of another node
  is never touched, and the node's own key holds the new document, nothing, or what it held.
\<close>

theorem process_reading_redis_soft:
  "fst (process_reading env now rf payload d r) = fst (process_reading env now rf payload d NoClient) \<and>
   fst (snd (process_reading env now rf payload d r)) = fst (snd (process_reading env now rf payload d NoClient)) \<and>
   holds now' (snd (snd (process_reading env now rf payload d r))) k \<in>
     {holds now' r k, None} \<union>
     (\<lambda>doc. Some (RDoc (JObj doc))) ` {doc. fst (process_reading env now rf payload d r) = Inr doc}"
proof -
  have w: "holds now' (write_latest_cache now n doc r) k \<in> {holds now' r k, None, Some (RDoc (JObj doc))}" for n doc
  proof (cases "redis_setex now (latest_key n) LATEST_CACHE_TTL (RDoc (JObj doc)) r")
    case (Pair res r')
    have p: "holds now' r' k \<in> {Some (RDoc (JObj doc)), None, holds now' r k}"
      using kv.put_any [of now' now "latest_key n" LATEST_CACHE_TTL "RDoc (JObj doc)" r k] Pair by simp
    show ?thesis using p kv.drop_any [of now' LATEST_GLOBAL_KEY r' k]
      by (cases res) (auto simp: write_latest_cache_def Pair)
  qed
  have "fst (process_reading env now rf payload d r) = fst (task_result env now rf payload d)"
    "fst (snd (process_reading env now rf payload d r)) = snd (task_result env now rf payload d)" for r
    using process_reading_result [of env now rf payload d r] by (metis fst_conv snd_conv)+
  then show ?thesis using w process_reading_cache [of env now rf payload d r] by fastforce
qed

text \<open>
  After a stored reading with Redis up, the node's document is served for sixty seconds and
  the global snapshot is gone.
\<close>

theorem write_through:
  "write_latest_cache now node_id doc (Client s []) = Client s' [] \<Longrightarrow>
   st_get now' (latest_key node_id) s' = (if now' < now + seconds 60 then Some (RDoc (JObj doc)) else None) \<and>
   st_get now' LATEST_GLOBAL_KEY s' = None"
  by (auto simp: write_latest_cache_def redis_cmd_defs redis_ops st_get_setex LATEST_CACHE_TTL_def
      latest_key_def LATEST_GLOBAL_KEY_def)

theorem write_through_witness:
  "\<exists>s'. write_latest_cache 0 ''n'' [] (Client [(''readings:latest'', (RText ''old'', None))] []) = Client s' [] \<and>
     st_get 0 (latest_key ''n'') s' = Some (RDoc (JObj [])) \<and> st_get 0 LATEST_GLOBAL_KEY s' = None"
proof -
  obtain s' where s': "write_latest_cache 0 ''n'' [] (Client [(''readings:latest'', (RText ''old'', None))] []) = Client s' []"
    by (simp add: write_latest_cache_def redis_cmd_defs redis_ops)
  then show ?thesis using write_through [OF s', of 0] by (simp add: seconds_def)
qed

text \<open>
  The anomaly flag depends on the node's own readings of the last 24 hours alone: rows of
  other nodes and older rows never change it, and without a PM2.5 value it is false.
\<close>

theorem anomaly_is_local:
  "detect_anomaly avg var_pop pow_half now rows node_id pm25 =
     detect_anomaly avg var_pop pow_half now
       (select_where (\<lambda>r. s_node_id r = node_id \<and> now - hours 24 \<le> s_time r) rows) node_id pm25 \<and>
   \<not> detect_anomaly avg var_pop pow_half now rows node_id None"
proof -
  have "minutes ANOMALY_WINDOW_MINUTES = hours 24" by (simp add: ANOMALY_WINDOW_MINUTES_def time_units)
  then have "recent_pm25 (now - minutes ANOMALY_WINDOW_MINUTES) node_id rows =
     recent_pm25 (now - minutes ANOMALY_WINDOW_MINUTES) node_id
       (select_where (\<lambda>r. s_node_id r = node_id \<and> now - hours 24 \<le> s_time r) rows)"
    by (auto simp: recent_pm25_def select_where_def intro!: arg_cong [where f = "\<lambda>xs. map _ (take _ (sort_key _ xs))"]
        filter_cong)
  then show ?thesis unfolding detect_anomaly_def by (metis option.case(1))
qed

end
