(* ===== verification/Readings.thy ===== *)
theory Readings
  imports Aggregation Process_Reading Cache Http "HOL-Library.List_Lexorder" "HOL-Library.Char_ord" "HOL-Library.Product_Lexorder"
begin

text \<open>
  \<open>src/api/readings.py\<close>: the latest reading of every active node behind its cache, and the bucketed
  history with its clamped range and row cap.  TimescaleDB's \<open>time_bucket\<close> and the database's AVG
  are parameters.  The query parsing is shared with the export.
\<close>

section \<open>Query parameters\<close>

record query_env =
  qe_fromiso :: "string \<Rightarrow> datetime option"
  qe_repr :: "string \<Rightarrow> string"
  qe_iso :: "timestamp \<Rightarrow> string"

definition unprocessable :: "string \<Rightarrow> 'b response" where
  "unprocessable detail = problem_json 422 ''Unprocessable Entity'' detail"

text \<open>\<open>from\<close> (default a day ago) and \<open>to\<close> (default now); the first malformed one is the error.\<close>

definition parse_range :: "query_env \<Rightarrow> timestamp \<Rightarrow> string option \<Rightarrow> string option \<Rightarrow> string + timestamp \<times> timestamp" where
  "parse_range env now raw_from raw_to =
     (let err = (\<lambda>raw. qe_repr env (the raw) @ '' is not a valid ISO-8601 datetime'') in
      case parse_iso_datetime (qe_fromiso env) raw_from (now - hours 24) of
        Inl e \<Rightarrow> Inl (err raw_from)
      | Inr from_dt \<Rightarrow>
          (case parse_iso_datetime (qe_fromiso env) raw_to now of
             Inl e \<Rightarrow> Inl (err raw_to)
           | Inr to_dt \<Rightarrow> Inr (from_dt, to_dt)))"

text \<open>A given node id must not be blank.\<close>

definition blank :: "string option \<Rightarrow> bool" where
  "blank node_id = (case node_id of None \<Rightarrow> False | Some n \<Rightarrow> strip n = [])"

definition blank_node :: "'b response" where
  "blank_node = unprocessable ''node_id must not be empty when provided (omit the parameter for all nodes)''"

definition matches_query :: "timestamp \<Rightarrow> timestamp \<Rightarrow> string option \<Rightarrow> reading \<Rightarrow> bool" where
  "matches_query from_dt to_dt node_id r =
     (from_dt \<le> s_time r \<and> s_time r \<le> to_dt \<and> (case node_id of None \<Rightarrow> True | Some n \<Rightarrow> s_node_id r = n))"

section \<open>Latest readings\<close>

definition LATEST_CACHE_KEY :: string where "LATEST_CACHE_KEY = ''readings:latest''"
definition LATEST_LIST_TTL :: int where "LATEST_LIST_TTL = 60"

definition latest_from_reading :: "query_env \<Rightarrow> reading \<Rightarrow> (string \<times> json) list" where
  "latest_from_reading env r =
     [(''node_id'', JStr (s_node_id r)), (''time'', JStr (qe_iso env (s_time r))), (''temperature'', jnum (s_temperature r)),
      (''humidity'', jnum (s_humidity r)), (''pressure'', jnum (s_pressure r)), (''pm25'', jnum (s_pm25 r)),
      (''pm10'', jnum (s_pm10 r)), (''battery_v'', jnum (s_battery_v r)), (''fuzzy_score'', jnum (s_fuzzy_score r)),
      (''aqi'', jint (s_aqi r)), (''aqi_category'', jstr (s_aqi_category r)), (''is_anomaly'', JBool (s_is_anomaly r))]"

text \<open>\<open>DISTINCT ON (node_id) ... ORDER BY node_id, time DESC\<close> over the readings of active nodes.\<close>

definition latest_of :: "db \<Rightarrow> reading list" where
  "latest_of d =
     (let rows = select_where (\<lambda>r. active_node d (s_node_id r)) (readings d) in
      map (\<lambda>n. hd (sort_key (\<lambda>r. - s_time r) (select_where (\<lambda>r. s_node_id r = n) rows)))
        (sort (remdups (map s_node_id rows))))"

definition latest :: "query_env \<Rightarrow> timestamp \<Rightarrow> db \<Rightarrow> rval redis \<Rightarrow> json response \<times> rval redis" where
  "latest env now d r =
     (case cache_get_json now LATEST_CACHE_KEY r of
        (Some cached, r1) \<Rightarrow> (Reply 200 (JObj [(''readings'', cached)]), r1)
      | (None, r1) \<Rightarrow>
          (let payload = JList (map (JObj \<circ> latest_from_reading env) (latest_of d))
           in (Reply 200 (JObj [(''readings'', payload)]), cache_set_json now LATEST_CACHE_KEY payload LATEST_LIST_TTL r1)))"

section \<open>History\<close>

definition BUCKET_INTERVALS :: "(string \<times> int) list" where
  "BUCKET_INTERVALS =
     [(''1m'', minutes 1), (''5m'', minutes 5), (''15m'', minutes 15), (''1h'', hours 1), (''6h'', hours 6), (''1d'', days 1)]"

definition BUCKET_MAX_SPAN :: "(string \<times> int) list" where
  "BUCKET_MAX_SPAN =
     [(''1m'', days 30), (''5m'', days 120), (''15m'', days 365), (''1h'', days 730), (''6h'', days 1095), (''1d'', days 3650)]"

definition HISTORY_MAX_ROWS :: nat where "HISTORY_MAX_ROWS = 50000"

text \<open>The database: \<open>time_bucket\<close>, if the extension is there, and AVG.\<close>

record history_db =
  hd_time_bucket :: "(int \<Rightarrow> timestamp \<Rightarrow> timestamp) option"
  hd_avg :: "rat list \<Rightarrow> rat"

definition bucket_key_of :: "(timestamp \<Rightarrow> timestamp) \<Rightarrow> reading \<Rightarrow> timestamp \<times> string" where
  "bucket_key_of tb r = (tb (s_time r), s_node_id r)"

text \<open>\<open>GROUP BY bucket, node_id ORDER BY bucket, node_id LIMIT cap + 1\<close>.\<close>

definition history_rows :: "history_db \<Rightarrow> (timestamp \<Rightarrow> timestamp) \<Rightarrow> reading list \<Rightarrow> hourly_agg list" where
  "history_rows hdb tb rows =
     take (HISTORY_MAX_ROWS + 1)
       (map (\<lambda>(b, n). aggregate_row (hd_avg hdb) b n (select_where (\<lambda>r. bucket_key_of tb r = (b, n)) rows))
         (sort (remdups (map (bucket_key_of tb) rows))))"

definition history_from_row :: "query_env \<Rightarrow> hourly_agg \<Rightarrow> (string \<times> json) list" where
  "history_from_row env h =
     [(''bucket'', JStr (qe_iso env (h_bucket h))), (''node_id'', JStr (h_node_id h)),
      (''avg_temperature'', jnum (h_avg_temperature h)), (''avg_humidity'', jnum (h_avg_humidity h)),
      (''avg_pm25'', jnum (h_avg_pm25 h)), (''avg_pm10'', jnum (h_avg_pm10 h)), (''avg_aqi'', jnum (h_avg_aqi h)),
      (''max_aqi'', jint (h_max_aqi h)), (''min_aqi'', jint (h_min_aqi h)), (''reading_count'', JInt (int (h_reading_count h)))]"

record history_args =
  ha_bucket :: "string option"
  ha_from :: "string option"
  ha_to :: "string option"
  ha_node_id :: "string option"

definition history :: "query_env \<Rightarrow> history_db \<Rightarrow> timestamp \<Rightarrow> history_args \<Rightarrow> db \<Rightarrow> (string \<times> json) list list answer" where
  "history env hdb now args d =
     (let bucket = (case ha_bucket args of None \<Rightarrow> ''1h'' | Some b \<Rightarrow> b) in
      case map_of BUCKET_INTERVALS bucket of
        None \<Rightarrow> (unprocessable (''bucket must be one of: '' @ join_str '', '' (map fst BUCKET_INTERVALS)), [])
      | Some interval \<Rightarrow>
          (case parse_range env now (ha_from args) (ha_to args) of
             Inl detail \<Rightarrow> (unprocessable detail, [])
           | Inr (from_dt, to_dt) \<Rightarrow>
               (if to_dt \<le> from_dt then (unprocessable (quoted ''from'' @ '' must be earlier than '' @ quoted ''to''), [])
                else let max_span = the (map_of BUCKET_MAX_SPAN bucket);
                         clamped = (max_span < to_dt - from_dt);
                         from_dt' = (if clamped then to_dt - max_span else from_dt) in
                  if blank (ha_node_id args) then (blank_node, [])
                  else case hd_time_bucket hdb of
                    None \<Rightarrow> (problem_json 503 ''Service Unavailable''
                        (''History requires the TimescaleDB extension (time_bucket). Install it with `CREATE EXTENSION timescaledb` '' @
                         ''and convert sensor_readings to a hypertable.''), [])
                  | Some tb \<Rightarrow>
                      (let rows = history_rows hdb (tb interval) (select_where (matches_query from_dt' to_dt (ha_node_id args)) (readings d)) in
                       if HISTORY_MAX_ROWS < length rows then
                         (unprocessable (''result exceeds 50000 rows '' @ emdash @ '' narrow the time range and/or pass node_id''), [])
                       else (Reply 200 (map (history_from_row env) rows),
                             if clamped then [(''X-Range-Clamped'', ''from='' @ qe_iso env from_dt')] else [])))))"

section \<open>The newest row of a node\<close>

lemma newest_hd:
  assumes "rows \<noteq> []"
  shows "hd (sort_key (\<lambda>r. - s_time r) rows) \<in> set rows \<and> (\<forall>r \<in> set rows. s_time r \<le> s_time (hd (sort_key (\<lambda>r. - s_time r) rows)))"
proof -
  let ?s = "sort_key (\<lambda>r. - s_time r) rows"
  have ne: "?s \<noteq> []" using assms by (metis length_0_conv length_sort)
  have "sorted (map (\<lambda>r. - s_time r) ?s)" by simp
  then have "\<forall>r \<in> set ?s. - s_time (hd ?s) \<le> - s_time r" using ne by (cases ?s) auto
  moreover have "hd ?s \<in> set ?s" using ne by (rule hd_in_set)
  ultimately show ?thesis unfolding set_sort by simp
qed

lemma latest_of_member:
  "r \<in> set (latest_of d) \<Longrightarrow>
     r \<in> set (readings d) \<and> active_node d (s_node_id r) \<and> (\<forall>r' \<in> set (readings d). s_node_id r' = s_node_id r \<longrightarrow> s_time r' \<le> s_time r)"
proof -
  assume "r \<in> set (latest_of d)"
  then obtain n where n: "n \<in> s_node_id ` {x \<in> set (readings d). active_node d (s_node_id x)}"
    "r = hd (sort_key (\<lambda>r. - s_time r) (select_where (\<lambda>r. s_node_id r = n) (select_where (\<lambda>r. active_node d (s_node_id r)) (readings d))))"
    by (auto simp: latest_of_def Let_def sql)
  let ?rows = "select_where (\<lambda>r. s_node_id r = n) (select_where (\<lambda>r. active_node d (s_node_id r)) (readings d))"
  have "?rows \<noteq> []" using n(1) by (auto simp: select_where_def filter_empty_conv)
  from newest_hd [OF this] n show ?thesis by (auto simp: sql)
qed

lemma latest_of_nodes: "map s_node_id (latest_of d) = sort (remdups (map s_node_id (select_where (\<lambda>r. active_node d (s_node_id r)) (readings d))))"
proof -
  let ?rows = "select_where (\<lambda>r. active_node d (s_node_id r)) (readings d)"
  have "s_node_id (hd (sort_key (\<lambda>r. - s_time r) (select_where (\<lambda>r. s_node_id r = n) ?rows))) = n" if "n \<in> s_node_id ` set ?rows" for n
  proof -
    have "select_where (\<lambda>r. s_node_id r = n) ?rows \<noteq> []" using that by (auto simp: select_where_def filter_empty_conv)
    from newest_hd [OF this] show ?thesis by (simp add: sql)
  qed
  then show ?thesis unfolding latest_of_def Let_def map_map comp_def by (intro map_idI) simp
qed

lemma latest_of_complete:
  assumes "r0 \<in> set (readings d)" "active_node d (s_node_id r0)"
  shows "\<exists>r \<in> set (latest_of d). s_node_id r = s_node_id r0"
proof -
  have "s_node_id r0 \<in> set (map s_node_id (latest_of d))" unfolding latest_of_nodes using assms by (auto simp: sql)
  then show ?thesis by auto
qed

section \<open>Counting by groups\<close>

lemma sum_indicator: "distinct ks \<Longrightarrow> sum_list (map (\<lambda>k. if x = k then 1 else (0 :: nat)) ks) = (if x \<in> set ks then 1 else 0)"
  by (induction ks) auto

lemma sum_groups:
  "distinct ks \<Longrightarrow> f ` set rows \<subseteq> set ks \<Longrightarrow> sum_list (map (\<lambda>k. count_where (\<lambda>r. f r = k) rows) ks) = length rows"
proof (induction rows)
  case (Cons r rows)
  have "sum_list (map (\<lambda>k. count_where (\<lambda>r. f r = k) (r # rows)) ks) =
      sum_list (map (\<lambda>k. (if f r = k then 1 else 0) + count_where (\<lambda>r. f r = k) rows) ks)"
    by (intro arg_cong [where f = sum_list] map_cong) (auto simp: count_where_def)
  also have "\<dots> = 1 + length rows" using Cons by (simp add: sum_list_addf sum_indicator)
  finally show ?case by simp
qed (simp add: count_where_def)

lemma aggregate_row_count: "h_reading_count (aggregate_row avg b n g) = length g" "h_bucket (aggregate_row avg b n g) = b"
  "h_node_id (aggregate_row avg b n g) = n"
  by (simp_all add: aggregate_row_def)

lemma history_rows_length: "length (history_rows hdb tb rows) \<le> length rows"
  using length_remdups_leq [of "map (bucket_key_of tb) rows"] by (simp add: history_rows_def min.coboundedI1)

lemma history_rows_sum:
  assumes "length (history_rows hdb tb rows) \<le> HISTORY_MAX_ROWS"
  shows "sum_list (map h_reading_count (history_rows hdb tb rows)) = length rows"
    and "map (\<lambda>h. (h_bucket h, h_node_id h)) (history_rows hdb tb rows) = sort (remdups (map (bucket_key_of tb) rows))"
proof -
  let ?ks = "sort (remdups (map (bucket_key_of tb) rows))"
  have all: "history_rows hdb tb rows = map (\<lambda>(b, n). aggregate_row (hd_avg hdb) b n (select_where (\<lambda>r. bucket_key_of tb r = (b, n)) rows)) ?ks"
    using assms unfolding history_rows_def by simp
  have "map h_reading_count (history_rows hdb tb rows) = map (\<lambda>k. count_where (\<lambda>r. bucket_key_of tb r = k) rows) ?ks"
    by (simp add: all aggregate_row_count select_where_def count_where_def split_def)
  then show "sum_list (map h_reading_count (history_rows hdb tb rows)) = length rows"
    using sum_groups [of ?ks "bucket_key_of tb" rows] by simp
  show "map (\<lambda>h. (h_bucket h, h_node_id h)) (history_rows hdb tb rows) = ?ks"
    by (simp add: all comp_def split_def aggregate_row_count)
qed

section \<open>Properties\<close>

text \<open>
  A stored reading is visible at once: after the ingestion task stored a row with Redis up,
  \<open>GET /readings/latest\<close> answers, whatever was cached before, one row per active node that has
  readings, in the order of the ids, and each is the newest reading of its node in the table.
\<close>

theorem latest_is_current:
  assumes run: "process_reading env now rf payload d (Client s []) = (Inr doc, d', r')" and stored: "doc \<noteq> []"
  shows "\<exists>rows. fst (latest qenv now' d' r') = Reply 200 (JObj [(''readings'', JList (map (JObj \<circ> latest_from_reading qenv) rows))]) \<and>
    sorted (map s_node_id rows) \<and> distinct (map s_node_id rows) \<and>
    set (map s_node_id rows) = s_node_id ` {r \<in> set (readings d'). active_node d' (s_node_id r)} \<and>
    (\<forall>r \<in> set rows. r \<in> set (readings d') \<and> (\<forall>r2 \<in> set (readings d'). s_node_id r2 = s_node_id r \<longrightarrow> s_time r2 \<le> s_time r))"
proof -
  obtain n where "r' = write_latest_cache now n doc (Client s [])"
    using run stored by (auto simp: process_reading_def split: json.splits if_splits prod.splits sum.splits option.splits)
  then have "r' = Client (st_del LATEST_CACHE_KEY (st_setex now (latest_key n) LATEST_CACHE_TTL (RDoc (JObj doc)) s)) []"
    by (simp add: write_latest_cache_def redis_cmd_defs command_cases LATEST_GLOBAL_KEY_def LATEST_CACHE_KEY_def)
  then have "cache_get_json now' LATEST_CACHE_KEY r' = (None, r')"
    by (simp add: cache_get_json_def cache_get_def redis_get_def command_cases)
  then have "fst (latest qenv now' d' r') = Reply 200 (JObj [(''readings'', JList (map (JObj \<circ> latest_from_reading qenv) (latest_of d')))])"
    by (simp add: latest_def Let_def)
  moreover have "set (map s_node_id (latest_of d')) = s_node_id ` {r \<in> set (readings d'). active_node d' (s_node_id r)}"
    unfolding latest_of_nodes by (auto simp: sql)
  ultimately show ?thesis
    using latest_of_member [of _ d'] by (intro exI [of _ "latest_of d'"]) (auto simp del: set_map simp: latest_of_nodes)
qed

text \<open>
  A history answer accounts for every reading it covers: its rows have distinct keys in the order of
  time and node, at most 50,000 of them, and their counts add up to the number of matching readings of
  the range served, which never exceeds the granularity's span; the range is the one asked for,
  unless the header names a later start.
\<close>

theorem history_accounts:
  assumes "history env hdb now args d = (Reply 200 docs, hdrs)"
  shows "\<exists>from_dt to_dt rows bucket span.
    docs = map (history_from_row env) rows \<and> length rows \<le> 50000 \<and>
    sorted (map (\<lambda>h. (h_bucket h, h_node_id h)) rows) \<and> distinct (map (\<lambda>h. (h_bucket h, h_node_id h)) rows) \<and>
    sum_list (map h_reading_count rows) = count_where (matches_query from_dt to_dt (ha_node_id args)) (readings d) \<and>
    (bucket, span) \<in> set BUCKET_MAX_SPAN \<and> 0 < to_dt - from_dt \<and> to_dt - from_dt \<le> span \<and>
    (if hdrs = [] then parse_range env now (ha_from args) (ha_to args) = Inr (from_dt, to_dt)
     else hdrs = [(''X-Range-Clamped'', ''from='' @ qe_iso env from_dt)] \<and>
       (\<exists>asked < from_dt. parse_range env now (ha_from args) (ha_to args) = Inr (asked, to_dt)))"
proof -
  define bucket where "bucket = (case ha_bucket args of None \<Rightarrow> ''1h'' | Some b \<Rightarrow> b)"
  from assms obtain interval from0 to_dt tb where
    b: "map_of BUCKET_INTERVALS bucket = Some interval"
    and rng: "parse_range env now (ha_from args) (ha_to args) = Inr (from0, to_dt)" "from0 < to_dt"
    and tb: "hd_time_bucket hdb = Some tb"
    by (auto simp: history_def Let_def bucket_def [symmetric] unprocessable_def problem_json_def blank_node_def
        split: option.splits sum.splits if_splits)
  obtain span where span: "map_of BUCKET_MAX_SPAN bucket = Some span" "0 < span"
    using map_of_SomeD [OF b] by (auto simp: BUCKET_INTERVALS_def BUCKET_MAX_SPAN_def time_units)
  define from_dt where "from_dt = (if span < to_dt - from0 then to_dt - span else from0)"
  define rows where "rows = history_rows hdb (tb interval) (select_where (matches_query from_dt to_dt (ha_node_id args)) (readings d))"
  from assms have res: "docs = map (history_from_row env) rows" "length rows \<le> HISTORY_MAX_ROWS"
    "hdrs = (if span < to_dt - from0 then [(''X-Range-Clamped'', ''from='' @ qe_iso env from_dt)] else [])"
    using b rng tb span(1)
    by (auto simp: history_def Let_def bucket_def [symmetric] unprocessable_def problem_json_def blank_node_def
        from_dt_def rows_def split: if_splits)
  note rs = history_rows_sum [OF res(2) [unfolded rows_def]]
  have keys: "sorted (map (\<lambda>h. (h_bucket h, h_node_id h)) rows)" "distinct (map (\<lambda>h. (h_bucket h, h_node_id h)) rows)"
    unfolding rows_def rs(2) by simp_all
  have sum: "sum_list (map h_reading_count rows) = count_where (matches_query from_dt to_dt (ha_node_id args)) (readings d)"
    unfolding rows_def rs(1) by (simp add: select_where_def count_where_def)
  show ?thesis
    using res keys sum rng span(2) map_of_SomeD [OF span(1)]
    by (intro exI [of _ from_dt] exI [of _ to_dt] exI [of _ rows] exI [of _ bucket] exI [of _ span])
      (simp add: HISTORY_MAX_ROWS_def from_dt_def)
qed

definition demo_query_env :: query_env where
  "demo_query_env = \<lparr>qe_fromiso = (\<lambda>s. None), qe_repr = quoted, qe_iso = (\<lambda>_. ''t'')\<rparr>"

definition demo_history_db :: history_db where
  "demo_history_db = \<lparr>hd_time_bucket = Some (\<lambda>w t. t - t mod w), hd_avg = hd\<rparr>"

definition demo_rows_db :: db where
  "demo_rows_db = sample_db\<lparr>readings := map (\<lambda>t. \<lparr>s_time = t, s_node_id = ''ESP32-01'', s_temperature = None, s_humidity = None, s_pressure = None,
     s_voc_ohm = None, s_mq135_ppm = None, s_pm1 = None, s_pm25 = Some 12, s_pm10 = None, s_battery_v = None, s_fuzzy_score = None,
     s_aqi = Some 50, s_aqi_category = None, s_is_anomaly = False\<rparr>) [hours 1, hours 1 + 5, hours 2, hours 40]\<rparr>"

theorem history_accounts_witness:
  "\<exists>docs rows. history demo_query_env demo_history_db (hours 3) \<lparr>ha_bucket = None, ha_from = None, ha_to = None, ha_node_id = Some ''ESP32-01''\<rparr> demo_rows_db =
      (Reply 200 docs, []) \<and> docs = map (history_from_row demo_query_env) rows \<and> sum_list (map h_reading_count rows) = 3"
proof -
  let ?args = "\<lparr>ha_bucket = None, ha_from = None, ha_to = None, ha_node_id = Some ''ESP32-01''\<rparr>"
  let ?h = "history demo_query_env demo_history_db (hours 3) ?args demo_rows_db"
  have rng: "parse_range demo_query_env (hours 3) (ha_from ?args) (ha_to ?args) = Inr (hours 3 - hours 24, hours 3)"
    by (simp add: parse_range_def parse_iso_datetime_def)
  have cap: "\<not> HISTORY_MAX_ROWS < length (history_rows demo_history_db tb (select_where P (readings demo_rows_db)))" for tb P
    using history_rows_length [of demo_history_db tb "select_where P (readings demo_rows_db)"]
      length_filter_le [of P "readings demo_rows_db"]
    by (simp add: demo_rows_db_def select_where_def HISTORY_MAX_ROWS_def)
  have "\<exists>docs. ?h = (Reply 200 docs, [])"
    using cap rng by (simp add: history_def Let_def BUCKET_INTERVALS_def BUCKET_MAX_SPAN_def demo_history_db_def time_units blank_def strip_def is_space_def code_def)
  then obtain docs where h: "?h = (Reply 200 docs, [])" by blast
  from history_accounts [OF h] obtain rows where rows: "docs = map (history_from_row demo_query_env) rows"
    "sum_list (map h_reading_count rows) = count_where (matches_query (hours 3 - hours 24) (hours 3) (ha_node_id ?args)) (readings demo_rows_db)"
    unfolding rng by auto
  moreover have "count_where (matches_query (hours 3 - hours 24) (hours 3) (ha_node_id ?args)) (readings demo_rows_db) = 3"
    by (simp add: count_where_def demo_rows_db_def matches_query_def time_units)
  ultimately show ?thesis using h by auto
qed

lemma distinct_singleton_set: "distinct xs \<Longrightarrow> set xs = {x} \<Longrightarrow> xs = [x]"
proof (cases xs)
  case (Cons a ys)
  assume xs: "distinct xs" "set xs = {x}"
  then have "a = x" "set ys \<subseteq> {x}" "x \<notin> set ys" using Cons by auto
  then show ?thesis using Cons by (cases ys) auto
qed simp

theorem latest_is_current_witness:
  "\<exists>rows d' r' doc. process_reading sample_env 0 False sample_payload sample_db (Client [(LATEST_CACHE_KEY, (RDoc (JList []), None))] []) = (Inr doc, d', r') \<and>
     fst (latest demo_query_env 1 d' r') = Reply 200 (JObj [(''readings'', JList (map (JObj \<circ> latest_from_reading demo_query_env) rows))]) \<and>
     map s_node_id rows = [''ESP32-01'']"
proof -
  let ?s = "[(LATEST_CACHE_KEY, (RDoc (JList []), None))]"
  obtain sc where "fuzzy_score (num_or None 25) (num_or None 0) (num_or None 0) = Inr sc"
    using fuzzy_num_or by blast
  then obtain r0 where r0: "build_reading (e_fromiso sample_env) 0 sample_payload ''ESP32-01'' = Inr r0" "s_node_id r0 = ''ESP32-01''"
    by (auto simp: sample_defs get_def build_reading_def valid_float_def opt_float_def parse_time_def Let_def)
  have id: "get (p_fields sample_payload) ''node_id'' = JStr ''ESP32-01''" and act: "active_node sample_db ''ESP32-01''"
    by (simp_all add: sample_defs get_def active_node_def select_one_def)
  let ?d = "sample_db\<lparr>readings := row_for sample_env 0 sample_db ''ESP32-01'' r0 # readings sample_db\<rparr>"
  have res: "task_result sample_env 0 False sample_payload sample_db =
      (Inr (enriched_dict (e_isofmt sample_env) (row_for sample_env 0 sample_db ''ESP32-01'' r0)), ?d)"
    using task_result_node [OF id, of sample_env 0 False sample_db] act r0 by (simp add: sample_db_def empty_db_def)
  obtain doc d' r' where run: "process_reading sample_env 0 False sample_payload sample_db (Client ?s []) = (Inr doc, d', r')"
    and doc: "doc \<noteq> []" and d': "d' = ?d"
    using process_reading_result [of sample_env 0 False sample_payload sample_db "Client ?s []"] res
    by (cases "process_reading sample_env 0 False sample_payload sample_db (Client ?s [])") (simp only: fst_conv snd_conv prod.inject, simp)
  have ids: "s_node_id ` {r \<in> set (readings d'). active_node d' (s_node_id r)} = {''ESP32-01''}"
  proof -
    have same: "active_node d' n = active_node sample_db n" for n by (simp add: d' active_node_def)
    have "readings d' = [row_for sample_env 0 sample_db ''ESP32-01'' r0]" by (simp add: d') (simp add: sample_db_def empty_db_def)
    then have "{r \<in> set (readings d'). active_node d' (s_node_id r)} = {row_for sample_env 0 sample_db ''ESP32-01'' r0}"
      using act r0(2) by (auto simp only: same list.set row_for_simps)
    then show ?thesis using r0(2) by simp
  qed
  obtain rows where rows:
    "fst (latest demo_query_env 1 d' r') = Reply 200 (JObj [(''readings'', JList (map (JObj \<circ> latest_from_reading demo_query_env) rows))])"
    "distinct (map s_node_id rows)" "set (map s_node_id rows) = s_node_id ` {r \<in> set (readings d'). active_node d' (s_node_id r)}"
    using latest_is_current [OF run doc, of demo_query_env 1] by (elim exE conjE) (rule that)
  have "map s_node_id rows = [''ESP32-01'']"
    using rows(2) rows(3) [unfolded ids] by (metis distinct_singleton_set)
  then show ?thesis using run rows(1) by (intro exI conjI)
qed

end
