(* ===== verification/Ingest_Chain.thy ===== *)
theory Ingest_Chain imports Readings Mqtt_Ingest begin

text \<open>
  From the broker to the table: what \<open>src/mqtt/client.py\<close> dispatches with
  \<open>process_reading.delay(payload.model_dump(mode="json"))\<close> is what \<open>src/tasks/process_reading.py\<close> gets,
  possibly more than once and in any order (late acknowledgement).
\<close>

section \<open>The payload of the task\<close>

text \<open>The document after its trip through JSON; \<open>payload.get("time")\<close> is a text or nothing.\<close>

text \<open>The index is the one of the two PM values.\<close>

definition aqi_of :: "reading \<Rightarrow> (int \<times> string) option" where
  "aqi_of r = compute_aqi (map_option Fin (s_pm25 r)) (map_option Fin (s_pm10 r))"

definition task_payload :: "(string \<times> json) list \<Rightarrow> payload" where
  "task_payload doc =
     \<lparr>p_fields = doc, p_time = (case get doc ''time'' of JNull \<Rightarrow> TMissing | JStr s \<Rightarrow> TStr s | v \<Rightarrow> TOther (truthy v))\<rparr>"

type_synonym task_delivery = "(string \<times> json) list \<times> timestamp \<times> bool"

text \<open>Deliveries one after the other; the boolean is whether a rollback fails.\<close>

definition deliver :: "env \<Rightarrow> task_delivery \<Rightarrow> db \<times> rval redis \<Rightarrow> db \<times> rval redis" where
  "deliver env x st = (case x of (doc, now, rf) \<Rightarrow> snd (process_reading env now rf (task_payload doc) (fst st) (snd st)))"

section \<open>An accepted document never makes the task fail\<close>

definition reading_columns :: "(string \<times> (reading \<Rightarrow> rat option)) list" where
  "reading_columns =
     [(''temperature'', s_temperature), (''humidity'', s_humidity), (''pressure'', s_pressure), (''voc_ohm'', s_voc_ohm),
      (''mq135_ppm'', s_mq135_ppm), (''pm1'', s_pm1), (''pm25'', s_pm25), (''pm10'', s_pm10), (''battery_v'', s_battery_v)]"

lemma fields_ok_field:
  assumes "fields_ok doc" "k \<in> set (map fst FLOAT_FIELDS)"
  shows "\<exists>x. get doc k = jnum x \<and> valid_float (get doc k) = Inr x"
proof -
  obtain lo hi where "(k, lo, hi) \<in> set FLOAT_FIELDS" using assms(2) by force
  then have "case get doc k of JNull \<Rightarrow> True | JFloat (Fin x) \<Rightarrow> in_bounds lo hi x | _ \<Rightarrow> False"
    using assms(1) by (auto simp: fields_ok_def list_all_iff)
  then consider "get doc k = JNull" | x where "get doc k = JFloat (Fin x)"
    by (auto split: json.splits pyfloat.splits)
  then show ?thesis
  proof cases
    case 1
    then show ?thesis by (intro exI [of _ None]) (simp add: jnum_def valid_float_def opt_float_def)
  next
    case (2 x)
    then show ?thesis by (intro exI [of _ "Some x"]) (simp add: jnum_def valid_float_def opt_float_def float_of_def)
  qed
qed

lemma task_time: "get doc ''time'' = jstr t \<Longrightarrow> \<exists>stamp. parse_time fromiso now (p_time (task_payload doc)) = Inr stamp"
  by (cases t) (auto simp: task_payload_def jstr_def parse_time_def split: option.splits)

lemma accepted_builds:
  assumes "fields_ok doc" "parse_time fromiso now (p_time (task_payload doc)) = Inr stamp"
  shows "\<exists>r0. build_reading fromiso now (task_payload doc) n = Inr r0 \<and> reading_key r0 = (stamp, n) \<and> s_aqi r0 = map_option fst (aqi_of r0) \<and>
    list_all (\<lambda>(k, column). get doc k = jnum (column r0)) reading_columns"
proof -
  have f: "\<exists>x. get doc k = jnum x \<and> valid_float (get doc k) = Inr x" if "k \<in> set (map fst reading_columns)" for k
    using fields_ok_field [OF assms(1)] that by (simp add: reading_columns_def FLOAT_FIELDS_def)
  obtain te hu pr vo mq p1 p2 pt ba where v:
    "get doc ''temperature'' = jnum te" "valid_float (get doc ''temperature'') = Inr te"
    "get doc ''humidity'' = jnum hu" "valid_float (get doc ''humidity'') = Inr hu"
    "get doc ''pressure'' = jnum pr" "valid_float (get doc ''pressure'') = Inr pr"
    "get doc ''voc_ohm'' = jnum vo" "valid_float (get doc ''voc_ohm'') = Inr vo"
    "get doc ''mq135_ppm'' = jnum mq" "valid_float (get doc ''mq135_ppm'') = Inr mq"
    "get doc ''pm1'' = jnum p1" "valid_float (get doc ''pm1'') = Inr p1"
    "get doc ''pm25'' = jnum p2" "valid_float (get doc ''pm25'') = Inr p2"
    "get doc ''pm10'' = jnum pt" "valid_float (get doc ''pm10'') = Inr pt"
    "get doc ''battery_v'' = jnum ba" "valid_float (get doc ''battery_v'') = Inr ba"
    using f [of "''temperature''"] f [of "''humidity''"] f [of "''pressure''"] f [of "''voc_ohm''"] f [of "''mq135_ppm''"]
      f [of "''pm1''"] f [of "''pm25''"] f [of "''pm10''"] f [of "''battery_v''"]
    by (auto simp: reading_columns_def)
  obtain sc where "fuzzy_score (num_or te 25) (num_or hu 0) (num_or p2 0) = Inr sc" using fuzzy_num_or by blast
  then show ?thesis using v(2,4,6,8,10,12,14,16,18) assms(2)
    by (simp add: build_reading_def Let_def task_payload_def reading_key_def aqi_of_def)
      (simp add: reading_columns_def v(1,3,5,7,9,11,13,15,17))
qed

text \<open>What the time of an accepted document is.\<close>

lemma accepted_reading_time: "accepted_reading ienv n raw = Some doc \<Longrightarrow> \<exists>t. get doc ''time'' = jstr t"
  by (auto simp: accepted_reading_def dump_reading_get split: option.splits)

lemma process_accepted:
  assumes acc: "accepted_reading ienv n raw = Some doc" and act: "active_node d n"
    and t: "parse_time (e_fromiso env) now (p_time (task_payload doc)) = Inr stamp"
  shows "if (stamp, n) \<in> set (map reading_key (readings d))
     then (fst (process_reading env now rf (task_payload doc) d r) = Inr [] \<and> fst (snd (process_reading env now rf (task_payload doc) d r)) = d)
     else \<exists>row. fst (process_reading env now rf (task_payload doc) d r) = Inr (enriched_dict (e_isofmt env) row) \<and>
       fst (snd (process_reading env now rf (task_payload doc) d r)) = d\<lparr>readings := row # readings d\<rparr> \<and>
       reading_key row = (stamp, n) \<and> enriched_ok now n row \<and> s_aqi row = map_option fst (aqi_of row) \<and>
       list_all (\<lambda>(k, column). get doc k = jnum (column row)) reading_columns"
proof -
  have id: "get (p_fields (task_payload doc)) ''node_id'' = JStr n" and ok: "node_id_ok n"
    using accepted_reading_id [OF acc] by (simp_all add: task_payload_def)
  then have n: "n \<noteq> []" by (auto simp: node_id_ok_def)
  obtain r0 where r0: "build_reading (e_fromiso env) now (task_payload doc) n = Inr r0" "reading_key r0 = (stamp, n)"
    "s_aqi r0 = map_option fst (aqi_of r0)" "list_all (\<lambda>(k, column). get doc k = jnum (column r0)) reading_columns"
    using accepted_builds [OF accepted_reading_fields [OF acc] t] by blast
  have row: "list_all (\<lambda>(k, column). get doc k = jnum (column (row_for env now d n r0))) reading_columns"
    "s_aqi (row_for env now d n r0) = map_option fst (aqi_of (row_for env now d n r0))"
    using r0(3,4) by (simp_all add: reading_columns_def row_for_def aqi_of_def)
  note res = process_reading_result [of env now rf "task_payload doc" d r, unfolded task_result_node [OF id n, of env now rf d]]
  show ?thesis
    using res act r0(1,2) row build_reading_ok [OF r0(1)] by (cases "(stamp, n) \<in> set (map reading_key (readings d))") auto
qed

definition node_of_doc :: "(string \<times> json) list \<Rightarrow> string" where
  "node_of_doc doc = (case get doc ''node_id'' of JStr n \<Rightarrow> n | _ \<Rightarrow> [])"

section \<open>Properties\<close>


definition chain_env :: ingest_env where
  "chain_env = demo_ingest_env\<lparr>ie_loads := \<lambda>s. Some (JObj [(''node_id'', JStr ''spoof''), (''time'', JStr ''t''), (''temperature'', JInt 21)]),
     ie_pd := \<lparr>pd_float = (\<lambda>_. None), pd_datetime = (\<lambda>_. Some (Aware 100)), pd_bool = (\<lambda>_. None), pd_iso = (\<lambda>_. ''t'')\<rparr>\<rparr>"

definition chain_doc :: "(string \<times> json) list" where
  "chain_doc = [(''node_id'', JStr ''ESP32-01''), (''time'', JStr ''t''), (''temperature'', JFloat (Fin 21)), (''humidity'', JNull),
     (''pressure'', JNull), (''voc_ohm'', JNull), (''mq135_ppm'', JNull), (''pm1'', JNull), (''pm25'', JNull), (''pm10'', JNull), (''battery_v'', JNull)]"

lemma chain_accepts: "accepted_reading chain_env ''ESP32-01'' raw = Some chain_doc"
proof -
  have "to_float 21 = Fin 21" using to_float_int [of 21] by simp
  then show ?thesis
    by (simp add: accepted_reading_def json_object_def chain_env_def demo_ingest_env_def validate_reading_def dict_set_def get_def
      node_id_ok_def is_id_char_def is_alpha_def is_digit_def code_def FLOAT_FIELDS_def float_field_def in_bounds_def
      dump_reading_def jstr_def jnum_def chain_doc_def)
qed

lemma chain_sample: "active_node sample_db ''ESP32-01''" "readings sample_db = []" "node_of_doc chain_doc = ''ESP32-01''"
  "parse_time (e_fromiso sample_env) now (p_time (task_payload chain_doc)) = Inr (clamp_skew now 100)"
  by (simp_all add: active_node_def sample_defs select_one_def node_of_doc_def chain_doc_def get_def task_payload_def parse_time_def
      to_utc_def)


text \<open>One delivery of an accepted document, seen through the keys of the table.\<close>

definition deliverable :: "ingest_env \<Rightarrow> env \<Rightarrow> ((string \<times> json) list \<Rightarrow> timestamp) \<Rightarrow> db \<Rightarrow> task_delivery \<Rightarrow> bool" where
  "deliverable ienv env stamp d x =
     (case x of (doc, now, rf) \<Rightarrow>
        (\<exists>n raw. accepted_reading ienv n raw = Some doc \<and> active_node d n) \<and>
        parse_time (e_fromiso env) now (p_time (task_payload doc)) = Inr (stamp doc))"

lemma deliver_keys:
  assumes "deliverable ienv env stamp d (doc, now, rf)" "distinct (map reading_key (readings d))"
  shows "distinct (map reading_key (readings (fst (deliver env (doc, now, rf) (d, r))))) \<and>
    set (map reading_key (readings (fst (deliver env (doc, now, rf) (d, r))))) = insert (stamp doc, node_of_doc doc) (set (map reading_key (readings d))) \<and>
    nodes (fst (deliver env (doc, now, rf) (d, r))) = nodes d"
proof -
  obtain n raw where acc: "accepted_reading ienv n raw = Some doc" "active_node d n"
    and t: "parse_time (e_fromiso env) now (p_time (task_payload doc)) = Inr (stamp doc)"
    using assms(1) by (auto simp: deliverable_def)
  have n: "node_of_doc doc = n" using accepted_reading_id [OF acc(1)] by (simp add: node_of_doc_def)
  show ?thesis using process_accepted [OF acc t, of rf r] assms(2)
    by (auto simp: deliver_def n split: if_splits)
qed



end
