(* ===== verification/Alerts.thy ===== *)
theory Alerts imports Models Redis Emailer "HOL-Library.List_Lexorder" "HOL-Library.Char_ord" begin

text \<open>
  \<open>src/tasks/alerts.py\<close> and \<open>src/api/alerts.py\<close>: the escalation-aware upsert against the partial
  unique index, the beat task \<open>check_thresholds\<close> with its deferred broadcasts and emails, and the
  list and acknowledge endpoints.  \<open>fmt0\<close> is the \<open>:.0f\<close> format, \<open>isofmt\<close> the ISO rendering of a
  time.  The abstract view is the severity rank of the unacknowledged alert per node.
\<close>

section \<open>Settings and thresholds\<close>

definition read_settings :: "db \<Rightarrow> string \<Rightarrow> string option" where
  "read_settings d k = map_of (map (\<lambda>s. (g_key s, g_value s)) (settings d)) k"

definition threshold :: "(string \<Rightarrow> string option) \<Rightarrow> string \<Rightarrow> int \<Rightarrow> pyfloat" where
  "threshold sts key fallback =
     (case sts key of
        None \<Rightarrow> Fin (of_int fallback)
      | Some raw \<Rightarrow> (case float_of_string raw of None \<Rightarrow> Fin (of_int fallback) | Some x \<Rightarrow> x))"

definition AQI_RECENCY :: int where "AQI_RECENCY = minutes 10"

definition fresh_reading :: "timestamp \<Rightarrow> reading \<Rightarrow> bool" where
  "fresh_reading now r = (s_aqi r \<noteq> None \<and> now - AQI_RECENCY \<le> s_time r)"

definition latest_aqi :: "timestamp \<Rightarrow> db \<Rightarrow> string \<Rightarrow> int option" where
  "latest_aqi now d node_id =
     (case sort_key (\<lambda>r. - s_time r)
        (select_where (\<lambda>r. s_node_id r = node_id \<and> fresh_reading now r) (readings d)) of
        [] \<Rightarrow> None | r # _ \<Rightarrow> s_aqi r)"

section \<open>The upsert\<close>

text \<open>\<open>CASE severity WHEN 'critical' THEN 2 WHEN 'warning' THEN 1 ELSE 0\<close>, and the Python map.\<close>

definition severity_rank :: "string \<Rightarrow> nat" where
  "severity_rank s = (if s = ''critical'' then 2 else if s = ''warning'' then 1 else 0)"

definition truncate_message :: "string \<Rightarrow> string" where
  "truncate_message m = (if m \<noteq> [] \<and> MAX_ALERT_MESSAGE_LENGTH < length m then take MAX_ALERT_MESSAGE_LENGTH m else m)"

definition conflicts :: "string \<Rightarrow> alert \<Rightarrow> bool" where
  "conflicts node_id a = (a_node_id a = node_id \<and> a_parameter a = ''aqi'' \<and> a_acknowledged_at a = None)"

definition upsert_alert ::
  "timestamp \<Rightarrow> string \<Rightarrow> rat \<Rightarrow> pyfloat \<Rightarrow> string \<Rightarrow> string \<Rightarrow> db \<Rightarrow> bool \<times> db" where
  "upsert_alert now node_id aqi thr severity message d =
     (let msg = truncate_message message in
      case select_one (conflicts node_id) (alerts d) of
        None \<Rightarrow> (True, d\<lparr>alerts :=
            \<lparr>a_alert_id = next_id d, a_node_id = node_id, a_parameter = ''aqi'', a_value = aqi,
             a_threshold = thr, a_severity = severity, a_message = Some msg, a_triggered_at = now,
             a_acknowledged_at = None, a_acknowledged_by = None\<rparr> # alerts d,
            next_id := next_id d + 1\<rparr>)
      | Some a \<Rightarrow>
          (if severity_rank (a_severity a) < severity_rank severity then
             (True, d\<lparr>alerts := update_where (conflicts node_id)
                (\<lambda>a. a\<lparr>a_value := aqi, a_threshold := thr, a_severity := severity, a_message := Some msg,
                     a_triggered_at := now\<rparr>) (alerts d)\<rparr>)
           else (False, d)))"

section \<open>The beat task\<close>

definition alert_email :: "db \<Rightarrow> string option" where
  "alert_email d =
     (case select_one (\<lambda>s. g_key s = ''alert_email'') (settings d) of
        None \<Rightarrow> None | Some s \<Rightarrow> if g_value s = [] then None else Some (g_value s))"

record publish =
  pb_node_id :: string
  pb_aqi :: rat
  pb_category :: "string option"
  pb_severity :: string
  pb_timestamp :: string

record fmt =
  fmt0 :: "pyfloat \<Rightarrow> string"
  isofmt :: "timestamp \<Rightarrow> string"

text \<open>\<open>DISTINCT ON (node_id) ... ORDER BY node_id, time DESC\<close> over the active nodes' fresh readings.\<close>

definition is_active_node :: "db \<Rightarrow> string \<Rightarrow> bool" where
  "is_active_node d n = list_ex (\<lambda>x. n_node_id x = n \<and> n_is_active x) (nodes d)"

definition latest_rows :: "timestamp \<Rightarrow> db \<Rightarrow> reading list" where
  "latest_rows now d =
     (let rows = select_where (\<lambda>r. is_active_node d (s_node_id r) \<and> fresh_reading now r) (readings d) in
      map (\<lambda>n. hd (sort_key (\<lambda>r. - s_time r) (select_where (\<lambda>r. s_node_id r = n) rows)))
        (sort (remdups (map s_node_id rows))))"

definition severity_of :: "pyfloat \<Rightarrow> pyfloat \<Rightarrow> int \<Rightarrow> (string \<times> pyfloat) option" where
  "severity_of warning critical aqi =
     (if le_float critical (of_int aqi) then Some (''critical'', critical)
      else if le_float warning (of_int aqi) then Some (''warning'', warning)
      else None)"

definition alert_message :: "fmt \<Rightarrow> int \<Rightarrow> string \<Rightarrow> pyfloat \<Rightarrow> string \<Rightarrow> string" where
  "alert_message f aqi severity thr node_id =
     ''AQI '' @ fmt0 f (Fin (of_int aqi)) @ '' exceeded the '' @ severity @ '' threshold '' @ fmt0 f thr
       @ '' on node '' @ node_id"

record run =
  x_db :: db
  x_created :: nat
  x_publishes :: "publish list"
  x_emails :: "(string \<times> rat \<times> string \<times> string) list"
  x_recipient :: "string option"

fun check_loop :: "fmt \<Rightarrow> timestamp \<Rightarrow> pyfloat \<Rightarrow> pyfloat \<Rightarrow> reading list \<Rightarrow> run \<Rightarrow> run" where
  "check_loop f now warning critical [] st = st"
| "check_loop f now warning critical (r # rs) st =
     (case s_aqi r of
        None \<Rightarrow> check_loop f now warning critical rs st
      | Some aqi \<Rightarrow>
          (case severity_of warning critical aqi of
             None \<Rightarrow> check_loop f now warning critical rs st
           | Some (severity, thr) \<Rightarrow>
               (let msg = alert_message f aqi severity thr (s_node_id r);
                    (created, d') = upsert_alert now (s_node_id r) (of_int aqi) thr severity msg (x_db st)
                in if \<not> created then check_loop f now warning critical rs (st\<lparr>x_db := d'\<rparr>)
                   else let st' = st\<lparr>x_db := d', x_created := x_created st + 1,
                              x_publishes := x_publishes st @
                                [\<lparr>pb_node_id = s_node_id r, pb_aqi = of_int aqi, pb_category = s_aqi_category r,
                                  pb_severity = severity, pb_timestamp = isofmt f now\<rparr>]\<rparr>;
                            st'' = (if severity = ''critical''
                              then st'\<lparr>x_emails := x_emails st' @ [(s_node_id r, of_int aqi, severity, msg)],
                                     x_recipient := (case x_recipient st' of None \<Rightarrow> alert_email d' | Some a \<Rightarrow> Some a)\<rparr>
                              else st')
                        in check_loop f now warning critical rs st'')))"

definition stamp_beat_heartbeat :: "fmt \<Rightarrow> timestamp \<Rightarrow> rval redis \<Rightarrow> rval redis" where
  "stamp_beat_heartbeat f now r =
     (if r = NoClient then r
      else snd (redis_setex now ''celery:heartbeat:beat'' 3600 (RText (isofmt f now)) r))"

definition title_case :: "string \<Rightarrow> string" where
  "title_case s = (if s = ''critical'' then ''Critical'' else if s = ''warning'' then ''Warning'' else s)"

definition send_alert_emails ::
  "fmt \<Rightarrow> timestamp \<Rightarrow> smtp_settings \<Rightarrow> transport \<Rightarrow> string \<Rightarrow> (string \<times> rat \<times> string \<times> string) list \<Rightarrow> email list" where
  "send_alert_emails f now cfg t recipient items =
     (if recipient = [] \<or> items = [] then []
      else snd (send_emails cfg t
        (map (\<lambda>(node_id, aqi, severity, message).
           \<lparr>m_subject = ''[Empyrean] '' @ title_case severity @ '' AQI alert '' @ emdash @ '' node '' @ node_id,
            m_body = ''AQI threshold breach on node '' @ node_id @ ''.'' @ nl @ nl @ ''Severity: '' @ severity @ nl @
              ''AQI: '' @ fmt0 f (Fin aqi) @ nl @ message @ nl @ nl @ ''Generated at '' @ isofmt f now,
            m_recipient = recipient\<rparr>) items)))"

record outcome =
  o_created :: nat
  o_publishes :: "publish list"
  o_mails :: "email list"

record alert_config =
  ac_warning :: int
  ac_critical :: int
  ac_smtp :: smtp_settings

definition check_thresholds ::
  "fmt \<Rightarrow> alert_config \<Rightarrow> transport \<Rightarrow> timestamp \<Rightarrow> db \<Rightarrow> rval redis \<Rightarrow> outcome \<times> db \<times> rval redis" where
  "check_thresholds f cfg t now d r =
     (let sts = read_settings d in
      if (case sts ''alerts_enabled'' of None \<Rightarrow> ''true'' | Some v \<Rightarrow> v) \<noteq> ''true'' then
        (\<lparr>o_created = 0, o_publishes = [], o_mails = []\<rparr>, d, stamp_beat_heartbeat f now r)
      else
        let warning = threshold sts ''aqi_warning_threshold'' (ac_warning cfg);
            critical = threshold sts ''aqi_critical_threshold'' (ac_critical cfg);
            st = check_loop f now warning critical (latest_rows now d)
                   \<lparr>x_db = d, x_created = 0, x_publishes = [], x_emails = [], x_recipient = None\<rparr>;
            mails = (case x_recipient st of
                None \<Rightarrow> []
              | Some a \<Rightarrow> if x_emails st = [] then [] else send_alert_emails f now (ac_smtp cfg) t a (x_emails st))
        in (\<lparr>o_created = x_created st, o_publishes = x_publishes st, o_mails = mails\<rparr>, x_db st,
            stamp_beat_heartbeat f now r))"

section \<open>The endpoints\<close>

definition validate_pagination :: "string option \<Rightarrow> string option \<Rightarrow> (int \<times> int) option" where
  "validate_pagination raw_limit raw_offset =
     (case int_of_string (case raw_limit of None \<Rightarrow> ''50'' | Some s \<Rightarrow> s) of
        None \<Rightarrow> None
      | Some lmt \<Rightarrow>
          (if \<not> (1 \<le> lmt \<and> lmt \<le> 200) then None
           else case int_of_string (case raw_offset of None \<Rightarrow> ''0'' | Some s \<Rightarrow> s) of
             None \<Rightarrow> None
           | Some off \<Rightarrow> if off < 0 then None else Some (lmt, off)))"

definition newest_first :: "alert list \<Rightarrow> alert list" where
  "newest_first as = sort_key (\<lambda>a. - a_triggered_at a) (sort_key (\<lambda>a. - a_alert_id a) as)"

definition list_alerts ::
  "string option \<Rightarrow> string option \<Rightarrow> string option \<Rightarrow> db \<Rightarrow> (alert list \<times> nat) response" where
  "list_alerts severity raw_limit raw_offset d =
     (if severity \<noteq> None \<and> the severity \<notin> {''warning'', ''critical''} then
        problem_json 422 ''Unprocessable Entity'' (''severity must be '' @ quoted ''warning'' @ '' or '' @ quoted ''critical'')
      else case validate_pagination raw_limit raw_offset of
        None \<Rightarrow> problem_json 422 ''Unprocessable Entity'' ''limit must be 1..200 and offset must be >= 0''
      | Some (lmt, off) \<Rightarrow>
          (let rows = select_where (\<lambda>a. a_acknowledged_at a = None \<and>
                        (case severity of None \<Rightarrow> True | Some s \<Rightarrow> a_severity a = s)) (alerts d)
           in Reply 200 (take (nat lmt) (drop (nat off) (newest_first rows)), length rows)))"

definition acknowledge_alert :: "timestamp \<Rightarrow> int \<Rightarrow> int \<Rightarrow> db \<Rightarrow> alert response \<times> db" where
  "acknowledge_alert now uid alert_id d =
     (case select_one (\<lambda>a. a_alert_id a = alert_id) (alerts d) of
        None \<Rightarrow> (problem_json 404 ''Not Found'' ''Alert not found'', d)
      | Some a \<Rightarrow>
          (if a_acknowledged_at a = None then
             (let a' = a\<lparr>a_acknowledged_at := Some now, a_acknowledged_by := Some uid\<rparr>
              in (Reply 200 a', d\<lparr>alerts := update_where (\<lambda>x. a_alert_id x = alert_id) (\<lambda>_. a') (alerts d)\<rparr>))
           else (Reply 200 a, d)))"

section \<open>Ranks\<close>

text \<open>
  The abstract state: per node 0 without an unacknowledged alert, otherwise one more than the
  rank of its severity.  A row of the beat task asks for a level.
\<close>

definition rank_of :: "db \<Rightarrow> string \<Rightarrow> nat" where
  "rank_of d n = (case select_one (conflicts n) (alerts d) of
     None \<Rightarrow> 0 | Some a \<Rightarrow> 1 + severity_rank (a_severity a))"

definition level :: "pyfloat \<Rightarrow> pyfloat \<Rightarrow> reading \<Rightarrow> nat" where
  "level warning critical r =
     (case s_aqi r of None \<Rightarrow> 0 | Some aqi \<Rightarrow>
        (case severity_of warning critical aqi of None \<Rightarrow> 0 | Some (s, _) \<Rightarrow> 1 + severity_rank s))"

lemma conflicts_other: "conflicts m a \<Longrightarrow> m \<noteq> n \<Longrightarrow> \<not> conflicts n a"
  by (auto simp: conflicts_def)

lemma find_update_other:
  "(\<And>x. P x \<Longrightarrow> Q (g x) = Q x) \<Longrightarrow> (\<And>x. P x \<Longrightarrow> \<not> Q x) \<Longrightarrow> find Q (update_where P g xs) = find Q xs"
  by (induction xs) (auto simp: update_where_def)

lemma find_update_same:
  "find P xs = Some x \<Longrightarrow> (\<And>x. P x \<Longrightarrow> P (g x)) \<Longrightarrow> find P (update_where P g xs) = Some (g x)"
  by (induction xs) (auto simp: update_where_def split: if_splits)

text \<open>The upsert implements the maximum on the abstract state.\<close>

lemma upsert_rank:
  "rank_of (snd (upsert_alert now n aqi thr sev msg d)) m =
     (if m = n then max (rank_of d n) (1 + severity_rank sev) else rank_of d m)"
proof (cases "select_one (conflicts n) (alerts d)")
  case None
  then show ?thesis
    by (auto simp: upsert_alert_def Let_def rank_of_def select_one_def conflicts_def)
next
  case (Some a)
  let ?g = "\<lambda>a. a\<lparr>a_value := aqi, a_threshold := thr, a_severity := sev,
    a_message := Some (truncate_message msg), a_triggered_at := now\<rparr>"
  have f: "find (conflicts n) (update_where (conflicts n) ?g (alerts d)) = Some (?g a)"
    using Some by (intro find_update_same) (auto simp: select_one_def conflicts_def)
  have g: "find (conflicts m) (update_where (conflicts n) ?g (alerts d)) = find (conflicts m) (alerts d)" if "m \<noteq> n"
    using that by (intro find_update_other) (auto simp: conflicts_def)
  show ?thesis using Some f g
    by (auto simp: upsert_alert_def Let_def rank_of_def select_one_def)
qed

lemma upsert_created:
  "fst (upsert_alert now n aqi thr sev msg d) \<longleftrightarrow> rank_of d n < 1 + severity_rank sev"
  by (simp add: upsert_alert_def rank_of_def Let_def split: option.splits)

lemma upsert_suppressed:
  "1 + severity_rank sev \<le> rank_of d n \<Longrightarrow> upsert_alert now n aqi thr sev msg d = (False, d)"
  by (auto simp: upsert_alert_def rank_of_def Let_def split: option.splits)

lemma upsert_frame:
  "readings (snd (upsert_alert now n aqi thr sev msg d)) = readings d"
  "nodes (snd (upsert_alert now n aqi thr sev msg d)) = nodes d"
  "settings (snd (upsert_alert now n aqi thr sev msg d)) = settings d"
  by (simp_all add: upsert_alert_def Let_def split: option.splits)

lemma truncate_length: "length (truncate_message m) \<le> MAX_ALERT_MESSAGE_LENGTH"
  by (auto simp: truncate_message_def)

lemma upsert_alerts_ok:
  assumes "alerts_ok (alerts d)"
  shows "alerts_ok (alerts (snd (upsert_alert now n aqi thr sev msg d)))"
proof (cases "select_one (conflicts n) (alerts d)")
  case None
  then have "\<forall>a \<in> set (unacked (alerts d)). (a_node_id a, a_parameter a) \<noteq> (n, ''aqi'')"
    by (auto simp: unacked_def sql select_one_None conflicts_def)
  then show ?thesis using assms truncate_length [of msg]
    by (auto simp: upsert_alert_def None Let_def alerts_ok_def unacked_def select_where_def)
next
  case (Some a)
  let ?key = "\<lambda>a. (a_node_id a, a_parameter a)"
  have "map ?key (unacked (update_where (conflicts n) (\<lambda>a. a\<lparr>a_value := v, a_threshold := t, a_severity := s,
      a_message := m, a_triggered_at := now\<rparr>) as)) = map ?key (unacked as)" for v t s m as
    by (induction as) (auto simp: unacked_def select_where_def update_where_def)
  then show ?thesis using assms Some truncate_length
    by (auto simp: upsert_alert_def Let_def alerts_ok_def list_all_iff sql)
qed

section \<open>The loop\<close>

fun wanted :: "pyfloat \<Rightarrow> pyfloat \<Rightarrow> reading list \<Rightarrow> string \<Rightarrow> nat \<Rightarrow> nat" where
  "wanted w c [] n k = k"
| "wanted w c (r # rs) n k = wanted w c rs n (if s_node_id r = n then max k (level w c r) else k)"

lemma check_loop_skip:
  "level w c r \<le> rank_of (x_db st) (s_node_id r) \<Longrightarrow>
   check_loop f now w c (r # rs) st = check_loop f now w c rs st"
  by (auto simp: level_def upsert_suppressed Let_def split: option.splits)

lemma check_loop_fire:
  assumes "rank_of (x_db st) (s_node_id r) < level w c r"
  obtains st' aqi thr sev msg where
    "check_loop f now w c (r # rs) st = check_loop f now w c rs st'"
    "x_db st' = snd (upsert_alert now (s_node_id r) aqi thr sev msg (x_db st))"
    "level w c r = 1 + severity_rank sev" "x_created st' = x_created st + 1"
    "length (x_publishes st') = length (x_publishes st) + 1"
proof -
  obtain aqi sev thr where a: "s_aqi r = Some aqi" "severity_of w c aqi = Some (sev, thr)"
    using assms by (auto simp: level_def split: option.splits)
  let ?u = "upsert_alert now (s_node_id r) (of_int aqi) thr sev (alert_message f aqi sev thr (s_node_id r)) (x_db st)"
  have l: "level w c r = 1 + severity_rank sev" using a by (simp add: level_def)
  then have "fst ?u" using assms by (simp add: upsert_created)
  then obtain d' where u: "?u = (True, d')" by (cases ?u) auto
  have "d' = snd ?u" by (simp add: u)
  then show ?thesis
    by (intro that [of _ "of_int aqi" thr sev "alert_message f aqi sev thr (s_node_id r)", OF _ _ l])
      (auto simp: a u Let_def)
qed

lemma check_loop_rank:
  "rank_of (x_db (check_loop f now w c rs st)) n = wanted w c rs n (rank_of (x_db st) n)"
proof (induction rs arbitrary: st)
  case (Cons r rs)
  show ?case
  proof (cases "level w c r \<le> rank_of (x_db st) (s_node_id r)")
    case True
    then show ?thesis using Cons
      by (cases "s_node_id r = n") (auto simp: check_loop_skip max_absorb1 simp del: check_loop.simps)
  next
    case False
    then have "rank_of (x_db st) (s_node_id r) < level w c r" by simp
    then show ?thesis
      by (rule check_loop_fire [where f = f and now = now and rs = rs]) (simp add: Cons upsert_rank)
  qed
qed simp

text \<open>Every fact an upsert keeps, the loop keeps.\<close>

lemma check_loop_inv:
  assumes "\<And>n aqi thr sev msg d. P d \<Longrightarrow> P (snd (upsert_alert now n aqi thr sev msg d))" "P (x_db st)"
  shows "P (x_db (check_loop f now w c rs st))"
  using assms(2)
proof (induction rs arbitrary: st)
  case (Cons r rs)
  show ?case
  proof (cases "level w c r \<le> rank_of (x_db st) (s_node_id r)")
    case True
    then show ?thesis using Cons by (simp add: check_loop_skip del: check_loop.simps)
  next
    case False
    then have "rank_of (x_db st) (s_node_id r) < level w c r" by simp
    then show ?thesis
      by (rule check_loop_fire [where f = f and now = now and rs = rs]) (simp add: Cons assms(1))
  qed
qed simp

lemma check_loop_counts:
  "x_created st = length (x_publishes st) \<Longrightarrow>
   x_created (check_loop f now w c rs st) = length (x_publishes (check_loop f now w c rs st))"
proof (induction rs arbitrary: st)
  case (Cons r rs)
  show ?case
  proof (cases "level w c r \<le> rank_of (x_db st) (s_node_id r)")
    case True
    then show ?thesis using Cons by (simp add: check_loop_skip del: check_loop.simps)
  next
    case False
    then have "rank_of (x_db st) (s_node_id r) < level w c r" by simp
    then show ?thesis
      by (rule check_loop_fire [where f = f and now = now and rs = rs]) (simp add: Cons)
  qed
qed simp

lemma check_loop_nothing:
  "\<forall>r \<in> set rs. level w c r \<le> rank_of (x_db st) (s_node_id r) \<Longrightarrow> check_loop f now w c rs st = st"
  by (induction rs) (simp_all add: check_loop_skip del: check_loop.simps(2))

lemma wanted_ge: "k \<le> wanted w c rs n k"
proof (induction rs arbitrary: k)
  case (Cons r rs)
  show ?case using Cons [of k] Cons [of "max k (level w c r)"] by simp
qed simp

lemma wanted_mem: "r \<in> set rs \<Longrightarrow> s_node_id r = n \<Longrightarrow> level w c r \<le> wanted w c rs n k"
proof (induction rs arbitrary: k)
  case (Cons r' rs)
  show ?case using Cons wanted_ge [of "max k (level w c r)" w c rs n] by auto
qed simp

lemma wanted_other: "\<forall>r \<in> set rs. s_node_id r \<noteq> n \<Longrightarrow> wanted w c rs n k = k"
  by (induction rs) auto

lemma wanted_once:
  "distinct (map s_node_id rs) \<Longrightarrow> r \<in> set rs \<Longrightarrow> wanted w c rs (s_node_id r) k = max k (level w c r)"
proof (induction rs arbitrary: k)
  case (Cons r' rs)
  show ?case
  proof (cases "r = r'")
    case True
    then have "\<forall>x \<in> set rs. s_node_id x \<noteq> s_node_id r" using Cons.prems(1) by (force simp: image_iff)
    then show ?thesis using True by (simp add: wanted_other)
  next
    case False
    then have "s_node_id r' \<noteq> s_node_id r" using Cons.prems by (force simp: image_iff)
    then show ?thesis using Cons False by simp
  qed
qed simp

section \<open>The latest rows\<close>

text \<open>The first element of a stable sort is the first of the elements with the least key.\<close>

lemma hd_sort_key:
  assumes "x \<in> set xs" "\<forall>y \<in> set xs. (f x :: int) \<le> f y"
  shows "hd (sort_key f xs) = hd (filter (\<lambda>y. f y = f x) xs)"
proof -
  let ?h = "hd (sort_key f xs)"
  have ne: "sort_key f xs \<noteq> []" using assms(1) by (cases xs) auto
  then have h: "?h \<in> set xs" by (metis hd_in_set set_sort)
  have "f ?h \<le> f x"
    using assms(1) sorted_sort_key [of f xs] ne
    by (cases "sort_key f xs") (auto simp flip: set_sort [of f xs])
  then have "f ?h = f x" using assms(2) h by force
  then have "filter (\<lambda>y. f y = f x) (sort_key f xs) = ?h # filter (\<lambda>y. f y = f x) (tl (sort_key f xs))"
    using ne by (cases "sort_key f xs") auto
  moreover have "filter (\<lambda>y. f y = f x) (sort_key f xs) = filter (\<lambda>y. f y = f x) xs"
    by (rule sort_key_stable)
  ultimately show ?thesis by simp
qed

definition candidates :: "timestamp \<Rightarrow> db \<Rightarrow> string \<Rightarrow> reading list" where
  "candidates now d n =
     filter (\<lambda>r. s_node_id r = n \<and> is_active_node d n \<and> fresh_reading now r) (readings d)"

definition row_nodes :: "timestamp \<Rightarrow> db \<Rightarrow> string list" where
  "row_nodes now d =
     sort (remdups (map s_node_id (select_where (\<lambda>r. is_active_node d (s_node_id r) \<and> fresh_reading now r) (readings d))))"

definition latest_of :: "timestamp \<Rightarrow> db \<Rightarrow> string \<Rightarrow> reading" where
  "latest_of now d n = hd (sort_key (\<lambda>r. - s_time r) (candidates now d n))"

lemma latest_rows_alt: "latest_rows now d = map (latest_of now d) (row_nodes now d)"
proof -
  have "filter (\<lambda>r. s_node_id r = n) (filter (\<lambda>r. is_active_node d (s_node_id r) \<and> fresh_reading now r) xs)
    = filter (\<lambda>r. s_node_id r = n \<and> is_active_node d n \<and> fresh_reading now r) xs" for n xs
    by (auto intro: filter_cong)
  then show ?thesis by (simp add: latest_rows_def select_where_def Let_def candidates_def row_nodes_def latest_of_def)
qed

lemma row_nodes_iff: "n \<in> set (row_nodes now d) \<longleftrightarrow> candidates now d n \<noteq> []"
  by (auto simp: row_nodes_def candidates_def sql filter_empty_conv)

lemma distinct_row_nodes: "distinct (row_nodes now d)"
  by (simp add: row_nodes_def)

lemma latest_of_in: "candidates now d n \<noteq> [] \<Longrightarrow> latest_of now d n \<in> set (candidates now d n)"
  unfolding latest_of_def by (metis hd_in_set length_0_conv length_sort set_sort)

lemma latest_of_node: "candidates now d n \<noteq> [] \<Longrightarrow> s_node_id (latest_of now d n) = n"
  using latest_of_in by (fastforce simp: candidates_def)

lemma latest_rows_nodes: "map s_node_id (latest_rows now d) = row_nodes now d"
  by (auto simp: latest_rows_alt row_nodes_iff latest_of_node intro!: map_idI)

lemma latest_rows_mem:
  "r \<in> set (latest_rows now d) \<longleftrightarrow> (\<exists>n. candidates now d n \<noteq> [] \<and> r = latest_of now d n)"
  by (auto simp: latest_rows_alt row_nodes_iff)

text \<open>As time passes, a node's latest fresh row stays the same or stops being fresh.\<close>

lemma latest_of_later:
  assumes "now \<le> now'" "candidates now' d n \<noteq> []"
  shows "candidates now d n \<noteq> [] \<and> latest_of now' d n = latest_of now d n"
proof -
  have sub: "candidates now' d n = filter (fresh_reading now') (candidates now d n)"
    using assms(1) by (auto simp: candidates_def fresh_reading_def intro!: filter_cong)
  let ?F = "(\<lambda>y. - s_time y) ` set (candidates now' d n)"
  have "Min ?F \<in> ?F" using assms(2) by (intro Min_in) auto
  then obtain x where x: "x \<in> set (candidates now' d n)" "- s_time x = Min ?F" by auto
  then have x: "x \<in> set (candidates now' d n)" "\<forall>y \<in> set (candidates now' d n). - s_time x \<le> - s_time y"
    by auto
  have le: "- s_time x \<le> - s_time y" if "y \<in> set (candidates now d n)" for y
  proof (cases "fresh_reading now' y")
    case True
    then show ?thesis using that x(2) by (simp add: sub)
  next
    case False
    then show ?thesis using that x(1) by (auto simp: sub fresh_reading_def candidates_def)
  qed
  have fx: "fresh_reading now' x" "x \<in> set (candidates now d n)" using x(1) by (auto simp: sub)
  have "filter (\<lambda>y. - s_time y = - s_time x) (candidates now' d n) = filter (\<lambda>y. - s_time y = - s_time x) (candidates now d n)"
    unfolding sub filter_filter
    by (rule filter_cong) (use fx in \<open>auto simp: fresh_reading_def candidates_def\<close>)
  then have "latest_of now' d n = latest_of now d n"
    unfolding latest_of_def using hd_sort_key [of x "candidates now' d n" "\<lambda>y. - s_time y"]
      hd_sort_key [of x "candidates now d n" "\<lambda>y. - s_time y"] x le fx(2) by simp
  then show ?thesis using fx(2) by auto
qed

section \<open>The task as a whole\<close>

definition alerts_on :: "db \<Rightarrow> bool" where
  "alerts_on d = (case read_settings d ''alerts_enabled'' of None \<Rightarrow> True | Some v \<Rightarrow> v = ''true'')"

definition warning_at :: "alert_config \<Rightarrow> db \<Rightarrow> pyfloat" where
  "warning_at cfg d = threshold (read_settings d) ''aqi_warning_threshold'' (ac_warning cfg)"

definition critical_at :: "alert_config \<Rightarrow> db \<Rightarrow> pyfloat" where
  "critical_at cfg d = threshold (read_settings d) ''aqi_critical_threshold'' (ac_critical cfg)"

definition start_run :: "db \<Rightarrow> run" where
  "start_run d = \<lparr>x_db = d, x_created = 0, x_publishes = [], x_emails = [], x_recipient = None\<rparr>"

definition run_of :: "fmt \<Rightarrow> alert_config \<Rightarrow> timestamp \<Rightarrow> db \<Rightarrow> run" where
  "run_of f cfg now d =
     (if alerts_on d then check_loop f now (warning_at cfg d) (critical_at cfg d) (latest_rows now d) (start_run d)
      else start_run d)"

lemma start_run_simps [simp]:
  "x_db (start_run d) = d" "x_created (start_run d) = 0" "x_publishes (start_run d) = []"
  "x_emails (start_run d) = []" "x_recipient (start_run d) = None"
  by (simp_all add: start_run_def)

lemma check_thresholds_run:
  "fst (snd (check_thresholds f cfg t now d r)) = x_db (run_of f cfg now d)"
  "o_created (fst (check_thresholds f cfg t now d r)) = x_created (run_of f cfg now d)"
  "o_publishes (fst (check_thresholds f cfg t now d r)) = x_publishes (run_of f cfg now d)"
  by (auto simp: check_thresholds_def run_of_def alerts_on_def warning_at_def critical_at_def
      start_run_def [symmetric] Let_def split: option.splits)

lemma check_thresholds_idle:
  "run_of f cfg now d = start_run d \<Longrightarrow>
   fst (check_thresholds f cfg t now d r) = \<lparr>o_created = 0, o_publishes = [], o_mails = []\<rparr>"
  by (auto simp: check_thresholds_def run_of_def alerts_on_def warning_at_def critical_at_def
      start_run_def [symmetric] Let_def split: option.splits if_splits)

lemma run_of_inv:
  "(\<And>n aqi thr sev msg d. P d \<Longrightarrow> P (snd (upsert_alert now n aqi thr sev msg d))) \<Longrightarrow> P d \<Longrightarrow>
   P (x_db (run_of f cfg now d))"
  by (simp add: run_of_def check_loop_inv [where P = P])

definition only_alerts_differ :: "db \<Rightarrow> db \<Rightarrow> bool" where
  "only_alerts_differ d d' = (d' = d\<lparr>alerts := alerts d', next_id := next_id d'\<rparr>)"

lemma upsert_only_alerts: "only_alerts_differ d0 d \<Longrightarrow> only_alerts_differ d0 (snd (upsert_alert now n aqi thr sev msg d))"
  by (cases d0; cases d) (auto simp: only_alerts_differ_def upsert_alert_def Let_def split: option.splits)

lemma run_of_only_alerts: "only_alerts_differ d (x_db (run_of f cfg now d))"
  by (rule run_of_inv) (auto simp: upsert_only_alerts, simp add: only_alerts_differ_def)

lemma run_of_rank:
  "rank_of (x_db (run_of f cfg now d)) n =
     (if alerts_on d \<and> candidates now d n \<noteq> [] then
        max (rank_of d n) (level (warning_at cfg d) (critical_at cfg d) (latest_of now d n))
      else rank_of d n)"
proof (cases "alerts_on d")
  case True
  let ?w = "warning_at cfg d" and ?c = "critical_at cfg d"
  have "wanted ?w ?c (latest_rows now d) n (rank_of d n) =
      (if candidates now d n \<noteq> [] then max (rank_of d n) (level ?w ?c (latest_of now d n)) else rank_of d n)"
  proof (cases "candidates now d n = []")
    case True
    then show ?thesis
      by (auto simp: latest_rows_mem latest_of_node intro!: wanted_other)
  next
    case False
    then have "latest_of now d n \<in> set (latest_rows now d)" by (auto simp: latest_rows_mem)
    then show ?thesis
      using wanted_once [of "latest_rows now d" "latest_of now d n" ?w ?c "rank_of d n"] False
      by (simp add: latest_rows_nodes distinct_row_nodes latest_of_node)
  qed
  then show ?thesis using True by (simp add: run_of_def check_loop_rank)
qed (simp add: run_of_def)

text \<open>The inputs of a later run that sees the database the run before left.\<close>

lemma only_alerts_same:
  assumes "only_alerts_differ d d'"
  shows "read_settings d' = read_settings d" "alerts_on d' = alerts_on d" "warning_at cfg d' = warning_at cfg d"
    "critical_at cfg d' = critical_at cfg d" "candidates now d' = candidates now d" "latest_of now d' = latest_of now d"
proof -
  have "settings d' = settings d" "readings d' = readings d" "nodes d' = nodes d"
    using assms unfolding only_alerts_differ_def by (metis db.select_convs db.surjective db.update_convs)+
  then have rs: "read_settings d' = read_settings d" and ca: "candidates now d' = candidates now d" for now
    by (auto simp: read_settings_def candidates_def is_active_node_def)
  show "read_settings d' = read_settings d" "candidates now d' = candidates now d" by (rule rs, rule ca)
  show "alerts_on d' = alerts_on d" "warning_at cfg d' = warning_at cfg d"
    "critical_at cfg d' = critical_at cfg d" "latest_of now d' = latest_of now d"
    by (simp_all add: alerts_on_def warning_at_def critical_at_def latest_of_def rs ca fun_eq_iff)
qed

section \<open>A concrete run\<close>

definition hot_db :: db where
  "hot_db = empty_db\<lparr>
     nodes := [\<lparr>n_node_id = ''n'', n_name = None, n_location_name = None, n_lat = None, n_lon = None,
       n_firmware_version = None, n_reading_interval = 30, n_is_active = True, n_registered_at = 0, n_last_seen = None\<rparr>],
     readings := [\<lparr>s_time = 0, s_node_id = ''n'', s_temperature = None, s_humidity = None, s_pressure = None,
       s_voc_ohm = None, s_mq135_ppm = None, s_pm1 = None, s_pm25 = None, s_pm10 = None, s_battery_v = None,
       s_fuzzy_score = None, s_aqi = Some 180, s_aqi_category = None, s_is_anomaly = False\<rparr>]\<rparr>"

definition demo_fmt :: fmt where "demo_fmt = \<lparr>fmt0 = (\<lambda>_. ''180''), isofmt = (\<lambda>_. ''1970-01-01T00:00:00Z'')\<rparr>"

definition demo_alert_config :: alert_config where
  "demo_alert_config = \<lparr>ac_warning = 100, ac_critical = 150,
     ac_smtp = \<lparr>smtp_host = [], smtp_user = [], smtp_from = [], smtp_use_tls = True\<rparr>\<rparr>"

definition demo_transport :: transport where
  "demo_transport = \<lparr>t_connect_ok = True, t_starttls_ok = True, t_login_ok = True, t_send_ok = (\<lambda>_. True), t_quit_ok = True\<rparr>"

lemma hot_run: "x_created (run_of demo_fmt demo_alert_config 10 hot_db) = 1"
  by code_simp

section \<open>Properties\<close>

text \<open>
  C5: The beat task implements the maximum: after a run, the unacknowledged alert of a node has
  the larger of its old severity and the severity its latest fresh reading asks for, so an alert
  is never lost or downgraded and every breach is recorded; nodes without a fresh reading keep
  theirs, nothing happens when alerts are switched off, and only the alerts table changes.  The
  reported count is the number of broadcasts.
\<close>

theorem check_thresholds_escalates:
  "(let (out, d', r') = check_thresholds f cfg t now d r in
     rank_of d' n =
       (if alerts_on d \<and> candidates now d n \<noteq> [] then
          max (rank_of d n) (level (warning_at cfg d) (critical_at cfg d) (latest_of now d n))
        else rank_of d n) \<and>
     only_alerts_differ d d' \<and> o_created out = length (o_publishes out))"
proof -
  obtain out d' r' where p: "check_thresholds f cfg t now d r = (out, d', r')" by (metis prod_cases3)
  have "x_created (run_of f cfg now d) = length (x_publishes (run_of f cfg now d))"
    by (simp add: run_of_def check_loop_counts)
  then show ?thesis
    using check_thresholds_run [of f cfg t now d r] run_of_rank [of f cfg now d n] run_of_only_alerts [of d f cfg now]
    by (simp add: p)
qed

text \<open>
  A run keeps the table's constraints: at most one unacknowledged alert per node and
  parameter, messages within the length limit.
\<close>

theorem check_thresholds_alerts_ok:
  assumes "alerts_ok (alerts d)"
  shows "alerts_ok (alerts (fst (snd (check_thresholds f cfg t now d r))))"
  unfolding check_thresholds_run
  by (rule run_of_inv [where P = "\<lambda>d. alerts_ok (alerts d)"]) (simp_all add: upsert_alerts_ok assms)

theorem check_thresholds_alerts_ok_witness:
  "alerts_ok (alerts (fst (snd (check_thresholds demo_fmt demo_alert_config demo_transport 10 hot_db NoClient))))"
  by (rule check_thresholds_alerts_ok) (simp add: hot_db_def empty_db_def alerts_ok_def unacked_def select_where_def)

text \<open>
  Unacknowledged breaches are reported once: a second run at the same time or later, on the
  database the first one left, creates nothing, broadcasts nothing, mails nothing and leaves the
  database as it is.
\<close>

theorem check_thresholds_once:
  assumes "now \<le> now'" "check_thresholds f cfg t now d r = (out, d', r')"
  shows "fst (check_thresholds f cfg t' now' d' r'') = \<lparr>o_created = 0, o_publishes = [], o_mails = []\<rparr> \<and>
    fst (snd (check_thresholds f cfg t' now' d' r'')) = d'"
proof -
  have d': "d' = x_db (run_of f cfg now d)" using check_thresholds_run(1) [of f cfg t now d r] assms(2) by simp
  note same = only_alerts_same [OF run_of_only_alerts [of d f cfg now], folded d']
  have "run_of f cfg now' d' = start_run d'"
  proof (cases "alerts_on d")
    case True
    have "level (warning_at cfg d) (critical_at cfg d) x \<le> rank_of d' (s_node_id x)"
      if x: "x \<in> set (latest_rows now' d')" for x
    proof -
      obtain n where n: "candidates now' d n \<noteq> []" "x = latest_of now' d n"
        using x by (auto simp: latest_rows_mem same)
      then show ?thesis
        using latest_of_later [OF assms(1) n(1)] run_of_rank [of f cfg now d n] True
        by (simp add: d' latest_of_node)
    qed
    then show ?thesis by (simp add: run_of_def same check_loop_nothing)
  qed (simp add: run_of_def same)
  then show ?thesis by (simp add: check_thresholds_run check_thresholds_idle)
qed

theorem check_thresholds_once_witness:
  "\<exists>out d' r'. check_thresholds demo_fmt demo_alert_config demo_transport 10 hot_db NoClient = (out, d', r') \<and>
    o_created out = 1 \<and> fst (snd (check_thresholds demo_fmt demo_alert_config demo_transport 60 d' r')) = d'"
proof -
  obtain out d' r' where p: "check_thresholds demo_fmt demo_alert_config demo_transport 10 hot_db NoClient = (out, d', r')"
    by (metis prod_cases3)
  moreover have "o_created out = 1"
    using check_thresholds_run [of demo_fmt demo_alert_config demo_transport 10 hot_db NoClient] hot_run p by simp
  ultimately show ?thesis using check_thresholds_once [OF _ p, of 60 demo_transport r'] by simp
qed

text \<open>
  The listing answers 200 exactly for a known severity and integers with limit in 1..200 and a
  non-negative offset; it then holds at most that many alerts, all unacknowledged and of the
  requested severity, newest first, with the total before paging.
\<close>

theorem list_alerts_page:
  "case list_alerts severity raw_limit raw_offset d of
     Problem n _ _ \<Rightarrow> n = 422 \<and> (validate_pagination raw_limit raw_offset = None \<or> (\<exists>s. severity = Some s \<and> s \<notin> {''warning'', ''critical''}))
   | Reply n (page, tot) \<Rightarrow> n = 200 \<and> length page \<le> 200 \<and>
       set page \<subseteq> {a \<in> set (alerts d). a_acknowledged_at a = None \<and> (severity = None \<or> severity = Some (a_severity a))} \<and>
       sorted_wrt (\<lambda>a b. a_triggered_at b \<le> a_triggered_at a) page \<and>
       tot = count_where (\<lambda>a. a_acknowledged_at a = None \<and> (severity = None \<or> severity = Some (a_severity a))) (alerts d)"
proof (cases "list_alerts severity raw_limit raw_offset d")
  case (Problem n x y)
  then show ?thesis
    by (auto simp: list_alerts_def problem_json_def Let_def split: if_splits option.splits)
next
  case (Reply n pt)
  let ?P = "\<lambda>a. a_acknowledged_at a = None \<and> (severity = None \<or> severity = Some (a_severity a))"
  have P: "(\<lambda>a. a_acknowledged_at a = None \<and> (case severity of None \<Rightarrow> True | Some s \<Rightarrow> a_severity a = s)) = ?P"
    by (auto simp: fun_eq_iff split: option.splits)
  obtain lmt off where v: "validate_pagination raw_limit raw_offset = Some (lmt, off)" "n = 200"
      "pt = (take (nat lmt) (drop (nat off) (newest_first (select_where ?P (alerts d)))), length (select_where ?P (alerts d)))"
    using Reply by (auto simp: list_alerts_def problem_json_def Let_def P split: if_splits option.splits)
  have "lmt \<le> 200" using v(1) by (auto simp: validate_pagination_def split: if_splits option.splits)
  moreover have "sorted_wrt (\<lambda>a b. a_triggered_at b \<le> a_triggered_at a) (newest_first as)" for as
    using sorted_sort_key [of "\<lambda>a. - a_triggered_at a" "sort_key (\<lambda>a. - a_alert_id a) as"]
    by (simp add: newest_first_def sorted_map)
  moreover have "set (newest_first as) = set as" for as by (simp add: newest_first_def)
  ultimately show ?thesis
    using set_take_subset [of "nat lmt" "drop (nat off) (newest_first (select_where ?P (alerts d)))"]
      set_drop_subset [of "nat off" "newest_first (select_where ?P (alerts d))"]
    by (auto simp: Reply v sorted_wrt_take sorted_wrt_drop count_where_def select_where_def)
qed

text \<open>
  Acknowledging is idempotent and records the first acknowledger: the second request, by
  whomever and whenever, answers with the same row and changes nothing; the first changes no other
  alert.
\<close>

theorem acknowledge_idempotent:
  assumes "acknowledge_alert now uid aid d = (Reply 200 a, d')"
  shows "acknowledge_alert now' uid' aid d' = (Reply 200 a, d') \<and> a_acknowledged_at a \<noteq> None \<and>
    (\<forall>b. a_alert_id b \<noteq> aid \<longrightarrow> (b \<in> set (alerts d') \<longleftrightarrow> b \<in> set (alerts d)))"
proof -
  obtain b where b: "find (\<lambda>a. a_alert_id a = aid) (alerts d) = Some b"
    using assms by (auto simp: acknowledge_alert_def select_one_def problem_json_def split: option.splits)
  have id: "a_alert_id b = aid" using b by (auto simp: find_Some_iff)
  show ?thesis
  proof (cases "a_acknowledged_at b")
    case None
    let ?c = "b\<lparr>a_acknowledged_at := Some now, a_acknowledged_by := Some uid\<rparr>"
    have d': "a = ?c" "d' = d\<lparr>alerts := update_where (\<lambda>x. a_alert_id x = aid) (\<lambda>_. ?c) (alerts d)\<rparr>"
      using assms b None by (auto simp: acknowledge_alert_def select_one_def Let_def)
    have "find (\<lambda>a. a_alert_id a = aid) (alerts d') = Some ?c"
      using find_update_same [OF b, of "\<lambda>_. ?c"] id by (simp add: d')
    moreover have "\<forall>b. a_alert_id b \<noteq> aid \<longrightarrow> (b \<in> set (alerts d') \<longleftrightarrow> b \<in> set (alerts d))"
      using id by (auto simp: d' sql)
    ultimately show ?thesis by (simp add: acknowledge_alert_def select_one_def d'(1))
  next
    case (Some x)
    then have "a = b" "d' = d" using assms b by (auto simp: acknowledge_alert_def select_one_def)
    then show ?thesis using b Some by (simp add: acknowledge_alert_def select_one_def)
  qed
qed

definition sample_alert :: alert where
  "sample_alert = \<lparr>a_alert_id = 7, a_node_id = ''n'', a_parameter = ''aqi'', a_value = 120, a_threshold = Fin 100,
     a_severity = ''warning'', a_message = None, a_triggered_at = 0, a_acknowledged_at = None, a_acknowledged_by = None\<rparr>"

theorem acknowledge_idempotent_witness:
  "\<exists>a d'. acknowledge_alert 5 1 7 (empty_db\<lparr>alerts := [sample_alert]\<rparr>) = (Reply 200 a, d') \<and>
     acknowledge_alert 9 2 7 d' = (Reply 200 a, d') \<and> a_acknowledged_at a \<noteq> None"
proof -
  obtain a d' where p: "acknowledge_alert 5 1 7 (empty_db\<lparr>alerts := [sample_alert]\<rparr>) = (Reply 200 a, d')"
    by (simp add: acknowledge_alert_def select_one_def sample_alert_def Let_def)
  then show ?thesis using acknowledge_idempotent [OF p, of 9 2] by blast
qed

end
