(* ===== verification/Alarm_Chain.thy ===== *)
theory Alarm_Chain imports Ingest_Chain Alerts begin

text \<open>
  From a message on the broker to the alert table: the listener (\<open>src/mqtt/client.py\<close>), the ingestion task
  (\<open>src/tasks/process_reading.py\<close>), the AQI (\<open>src/tasks/aqi.py\<close>) and the beat task
  (\<open>src/tasks/alerts.py\<close>) together.
\<close>

lemma active_is_active: "active_node d n \<Longrightarrow> is_active_node d n"
  by (auto simp: active_node_def is_active_node_def list_ex_iff dest!: select_one_Some split: option.splits)

lemma newest_unique:
  assumes "x \<in> set xs" "\<And>y. y \<in> set xs \<Longrightarrow> y \<noteq> x \<Longrightarrow> s_time y < s_time x"
  shows "hd (sort_key (\<lambda>r. - s_time r) xs) = x"
proof -
  have "xs \<noteq> []" using assms(1) by auto
  note hd = newest_hd [OF this]
  show ?thesis
  proof (rule ccontr)
    assume "hd (sort_key (\<lambda>r. - s_time r) xs) \<noteq> x"
    then show False using hd assms by (metis not_le)
  qed
qed

lemma rank_critical: "3 \<le> rank_of d n \<Longrightarrow> \<exists>a \<in> set (alerts d). a_node_id a = n \<and> a_acknowledged_at a = None \<and> a_severity a = ''critical''"
  by (auto simp: rank_of_def severity_rank_def conflicts_def dest!: select_one_Some split: option.splits if_splits)


definition dirty_env :: ingest_env where
  "dirty_env = chain_env\<lparr>ie_loads := \<lambda>s. Some (JObj [(''time'', JStr ''t''), (''pm10'', JInt 354)])\<rparr>"

definition dirty_doc :: "(string \<times> json) list" where
  "dirty_doc = [(''node_id'', JStr ''ESP32-01''), (''time'', JStr ''t''), (''temperature'', JNull), (''humidity'', JNull),
     (''pressure'', JNull), (''voc_ohm'', JNull), (''mq135_ppm'', JNull), (''pm1'', JNull), (''pm25'', JNull), (''pm10'', JFloat (Fin 354)), (''battery_v'', JNull)]"


end
