(* ===== verification/Admin_Settings.thy ===== *)
theory Admin_Settings imports Schemas Alerts Aggregation begin

text \<open>
  The runtime settings of \<open>src/api/admin.py\<close>: their registry with fallbacks to the configuration, the
  listing, and the audited patch with its check of the threshold pair before and inside the writing
  transaction.  The database that transaction locks may differ from the one the first check read.
\<close>

record admin_config =
  ad_warning :: int
  ad_critical :: int
  ad_retention_days :: int
  ad_alert_email :: string

section \<open>The registry\<close>

definition SETTING_DEFS :: "(string \<times> string \<times> (admin_config \<Rightarrow> string)) list" where
  "SETTING_DEFS =
     [(''aqi_warning_threshold'', ''AQI value that triggers a warning alert'', (\<lambda>c. string_of_int (ad_warning c))),
      (''aqi_critical_threshold'', ''AQI value that triggers a critical alert'', (\<lambda>c. string_of_int (ad_critical c))),
      (''data_retention_days'', ''How long raw readings are retained before purging'', (\<lambda>c. string_of_int (ad_retention_days c))),
      (''alerts_enabled'', ''Master toggle for alert generation'', (\<lambda>c. ''true'')),
      (''alert_email'', ''Email address that receives critical alerts'', (\<lambda>c. ad_alert_email c))]"

definition config_fallback :: "admin_config \<Rightarrow> string \<Rightarrow> string" where
  "config_fallback cfg key = (case map_of SETTING_DEFS key of None \<Rightarrow> [] | Some (desc, fallback) \<Rightarrow> fallback cfg)"

definition normalise_setting :: "setting_value option \<Rightarrow> string" where
  "normalise_setting value =
     (case value of
        None \<Rightarrow> []
      | Some (SBool b) \<Rightarrow> (if b then ''true'' else ''false'')
      | Some (SInt i) \<Rightarrow> string_of_int i
      | Some (SText s) \<Rightarrow> s)"

record setting_entry =
  se_key :: string
  se_value :: string
  se_description :: "string option"
  se_updated_at :: "string option"
  se_updated_by :: "int option"
  se_source :: string

definition load_settings :: "(timestamp \<Rightarrow> string) \<Rightarrow> admin_config \<Rightarrow> db \<Rightarrow> setting_entry list" where
  "load_settings iso_of cfg d =
     (let db_settings = map (\<lambda>s. (g_key s, s)) (settings d);
          keys = map fst SETTING_DEFS @ filter (\<lambda>k. k \<notin> set (map fst SETTING_DEFS)) (map fst db_settings)
      in map (\<lambda>key.
           let description = map_option fst (map_of SETTING_DEFS key) in
           case map_of db_settings key of
             Some s \<Rightarrow>
               \<lparr>se_key = key, se_value = g_value s,
                se_description = (case g_description s of None \<Rightarrow> description | Some t \<Rightarrow> if t = [] then description else Some t),
                se_updated_at = Some (iso_of (g_updated_at s)), se_updated_by = g_updated_by s, se_source = ''db''\<rparr>
           | None \<Rightarrow>
               \<lparr>se_key = key, se_value = config_fallback cfg key, se_description = description, se_updated_at = None,
                se_updated_by = None, se_source = ''config''\<rparr>) keys)"

section \<open>The patch\<close>

text \<open>\<open>_merged_int\<close>: the value after the patch, from the current texts.\<close>

definition merged_int :: "settings_patch \<Rightarrow> (string \<Rightarrow> string option) \<Rightarrow> string \<Rightarrow> int \<Rightarrow> int" where
  "merged_int updates current key fallback_cfg =
     (case map_of updates key of
        Some (Some (SInt i)) \<Rightarrow> i
      | _ \<Rightarrow>
          (case current key of
             None \<Rightarrow> fallback_cfg
           | Some raw \<Rightarrow>
               (if strip raw = [] then fallback_cfg
                else case int_of_string raw of None \<Rightarrow> fallback_cfg | Some i \<Rightarrow> i)))"

definition inverted :: "admin_config \<Rightarrow> settings_patch \<Rightarrow> (string \<Rightarrow> string option) \<Rightarrow> bool" where
  "inverted cfg updates current =
     (merged_int updates current ''aqi_critical_threshold'' (ad_critical cfg)
        \<le> merged_int updates current ''aqi_warning_threshold'' (ad_warning cfg))"

text \<open>The upsert of one setting and its audit row.\<close>

definition upsert_setting :: "timestamp \<Rightarrow> int \<Rightarrow> string \<Rightarrow> string \<Rightarrow> setting list \<Rightarrow> setting list" where
  "upsert_setting now admin_id key text_value rows =
     (if key \<in> set (map g_key rows)
      then update_where (\<lambda>s. g_key s = key) (\<lambda>s. s\<lparr>g_value := text_value, g_updated_by := Some admin_id, g_updated_at := now\<rparr>) rows
      else rows @ [\<lparr>g_key = key, g_value = text_value, g_description = map_option fst (map_of SETTING_DEFS key),
                    g_updated_at = now, g_updated_by = Some admin_id\<rparr>])"

definition audit_row :: "timestamp \<Rightarrow> int \<Rightarrow> (string \<Rightarrow> string option) \<Rightarrow> string \<times> setting_value option \<Rightarrow> audit_log" where
  "audit_row now admin_id old_vals kv =
     \<lparr>l_entity_type = ''system_settings'', l_entity_id = fst kv, l_action = ''update'', l_old_value = old_vals (fst kv),
      l_new_value = Some (normalise_setting (snd kv)), l_changed_by = Some admin_id, l_changed_at = now\<rparr>"

fun write_settings :: "timestamp \<Rightarrow> int \<Rightarrow> (string \<Rightarrow> string option) \<Rightarrow> settings_patch \<Rightarrow> db \<Rightarrow> db" where
  "write_settings now admin_id old_vals [] d = d"
| "write_settings now admin_id old_vals (kv # updates) d =
     write_settings now admin_id old_vals updates
       (d\<lparr>settings := upsert_setting now admin_id (fst kv) (normalise_setting (snd kv)) (settings d),
          audit_logs := audit_logs d @ [audit_row now admin_id old_vals kv]\<rparr>)"

definition settings_text :: "setting_entry list \<Rightarrow> string \<Rightarrow> string option" where
  "settings_text es = map_of (map (\<lambda>e. (se_key e, se_value e)) es)"

definition bad_pair :: "'b response" where
  "bad_pair = problem_json 422 ''Unprocessable Entity'' ''aqi_warning_threshold must stay < aqi_critical_threshold''"

text \<open>\<open>seen\<close> is the database of the first check, \<open>d\<close> the one the writing transaction locks.\<close>

definition update_settings :: "(timestamp \<Rightarrow> string) \<Rightarrow> admin_config \<Rightarrow> timestamp \<Rightarrow> int \<Rightarrow> settings_patch \<Rightarrow> db \<Rightarrow> db
    \<Rightarrow> setting_entry list response \<times> db" where
  "update_settings iso_of cfg now admin_id updates seen d =
     (if updates = [] then (Reply 200 (load_settings iso_of cfg d), d)
      else let null_keys = sort (map fst (filter (\<lambda>(k, v). v = None) updates)) in
        if null_keys \<noteq> [] then
          (problem_json 422 ''Unprocessable Entity''
             (''explicit null is not accepted for: '' @ concat (map (\<lambda>k. k @ '', '') (butlast null_keys)) @ last null_keys @
              '' (omit the key to leave a setting unchanged)''), d)
        else if inverted cfg updates (settings_text (load_settings iso_of cfg seen)) then (bad_pair, d)
        else if inverted cfg updates (read_settings d) then (bad_pair, d)
        else let d' = write_settings now admin_id (read_settings d) updates d
             in (Reply 200 (load_settings iso_of cfg d'), d'))"

definition get_settings :: "(timestamp \<Rightarrow> string) \<Rightarrow> admin_config \<Rightarrow> db \<Rightarrow> setting_entry list response" where
  "get_settings iso_of cfg d = Reply 200 (load_settings iso_of cfg d)"

section \<open>Reading back what was written\<close>

lemma map_of_settings: "distinct (map g_key rows) \<Longrightarrow> s \<in> set rows \<Longrightarrow> map_of (map (\<lambda>s. (g_key s, g_value s)) rows) (g_key s) = Some (g_value s)"
  by (induction rows) (auto simp: image_iff)

lemma map_of_update_where:
  "map_of (map (\<lambda>s. (g_key s, g_value s)) (update_where (\<lambda>s. g_key s = k)
      (\<lambda>s. s\<lparr>g_value := v, g_updated_by := b, g_updated_at := t\<rparr>) rows)) k' =
    (if k' = k then map_option (\<lambda>_. v) (map_of (map (\<lambda>s. (g_key s, g_value s)) rows) k)
     else map_of (map (\<lambda>s. (g_key s, g_value s)) rows) k')"
  unfolding update_where_def by (induction rows) auto

lemma read_upsert:
  "map_of (map (\<lambda>s. (g_key s, g_value s)) (upsert_setting now admin_id k v rows)) k' =
     (if k' = k then Some v else map_of (map (\<lambda>s. (g_key s, g_value s)) rows) k')"
proof (cases "k \<in> set (map g_key rows)")
  case True
  then have "map_of (map (\<lambda>s. (g_key s, g_value s)) rows) k \<noteq> None" by (auto simp: map_of_eq_None_iff image_image)
  then show ?thesis using True unfolding upsert_setting_def by (auto simp: map_of_update_where)
next
  case False
  then have "map_of (map (\<lambda>s. (g_key s, g_value s)) rows) k = None" by (auto simp: map_of_eq_None_iff image_image)
  then show ?thesis using False by (auto simp: upsert_setting_def map_add_def split: option.split)
qed

lemma upsert_setting_keys:
  "set (map g_key (upsert_setting now admin_id k v rows)) = insert k (set (map g_key rows))"
  "distinct (map g_key rows) \<Longrightarrow> distinct (map g_key (upsert_setting now admin_id k v rows))"
proof -
  have keys: "map g_key (update_where (\<lambda>s. g_key s = k) (\<lambda>s. s\<lparr>g_value := v, g_updated_by := Some admin_id, g_updated_at := now\<rparr>) rows) = map g_key rows"
    by (rule map_update_where) simp
  show "set (map g_key (upsert_setting now admin_id k v rows)) = insert k (set (map g_key rows))"
    unfolding upsert_setting_def by (auto simp: keys simp del: set_map)
  show "distinct (map g_key rows) \<Longrightarrow> distinct (map g_key (upsert_setting now admin_id k v rows))"
    unfolding upsert_setting_def by (auto simp: keys)
qed

lemma write_settings_audit:
  "audit_logs (write_settings now admin_id old updates d) = audit_logs d @ map (audit_row now admin_id old) updates"
  by (induction updates arbitrary: d) simp_all

lemma write_settings_read:
  "distinct (map fst updates) \<Longrightarrow>
   read_settings (write_settings now admin_id old updates d) k =
     (case map_of updates k of None \<Rightarrow> read_settings d k | Some v \<Rightarrow> Some (normalise_setting v))"
proof (induction updates arbitrary: d)
  case (Cons kv updates)
  have none: "map_of updates (fst kv) = None" using Cons.prems by (simp add: map_of_eq_None_iff)
  show ?case
    using Cons none by (cases "k = fst kv") (auto simp: read_settings_def read_upsert split: option.split)
qed simp

lemma write_settings_other:
  "(write_settings now admin_id old updates d)\<lparr>settings := x, audit_logs := y\<rparr> = d\<lparr>settings := x, audit_logs := y\<rparr>"
  by (induction updates arbitrary: d) simp_all

section \<open>Printed numbers are read back as floats\<close>

lemma lower_digits: "list_all is_digit s \<Longrightarrow> lower s = s"
  by (induction s) (auto simp: lower_def lower_char_def is_digit_def)

lemma parse_unsigned_digits:
  assumes "list_all is_digit s" "s \<noteq> []"
  shows "parse_unsigned s = Some (to_float (of_int (foldl (\<lambda>a c. a * 10 + (code c - 48)) 0 s)))"
proof -
  have "hd s \<noteq> CHR ''i'' \<and> hd s \<noteq> CHR ''n''" using assms by (cases s) (auto simp: is_digit_def code_def)
  then have "s \<notin> {''inf'', ''infinity'', ''nan''}" by auto
  moreover have "digits 0 0 s = (foldl (\<lambda>a c. a * 10 + (code c - 48)) 0 s, length s, [])"
    using digits_append [OF assms(1), of 0 0 "[]"] by simp
  ultimately show ?thesis
    using assms by (simp add: parse_unsigned_def lower_digits exponent_part_def scale10_def)
qed

lemma strip_string_of_int: "strip (string_of_int i) = string_of_int i"
  by (simp add: string_of_int_def strip_digits strip_minus string_of_nat_digits string_of_nat_nonempty)

lemma string_of_int_nonempty [simp]: "string_of_int i \<noteq> []"
  by (simp add: string_of_int_def string_of_nat_nonempty)

lemma float_of_string_of_int:
  assumes "\<bar>i\<bar> < 2 ^ 53"
  shows "float_of_string (string_of_int i) = Some (Fin (of_int i))"
proof (cases "i < 0")
  case True
  have "to_float (of_int (- i)) = Fin (of_int (- i))" using assms by (intro to_float_int) simp
  then show ?thesis
    using True by (simp add: float_of_string_def strip_string_of_int) (simp add: string_of_int_def sign_of_def
        parse_unsigned_digits string_of_nat_digits string_of_nat_nonempty string_of_nat_value negate_float_def)
next
  case False
  then show ?thesis
    using to_float_int [OF assms]
    by (simp add: float_of_string_def strip_string_of_int) (simp add: string_of_int_def sign_of_digits
        parse_unsigned_digits string_of_nat_digits string_of_nat_nonempty string_of_nat_value negate_float_def)
qed

section \<open>The threshold pair\<close>

definition THRESHOLDS :: "string list" where "THRESHOLDS = [''aqi_warning_threshold'', ''aqi_critical_threshold'']"

text \<open>The stored thresholds are printed integers, as this route writes them, and the effective pair is in order.\<close>

definition small_int :: "int \<Rightarrow> bool" where "small_int i = (\<bar>i\<bar> < 2 ^ 53)"

definition integer_text :: "string option \<Rightarrow> bool" where
  "integer_text v = (v = None \<or> (\<exists>i. small_int i \<and> v = Some (string_of_int i)))"

definition thresholds_ok :: "admin_config \<Rightarrow> db \<Rightarrow> bool" where
  "thresholds_ok cfg d =
     (list_all (\<lambda>k. integer_text (read_settings d k)) THRESHOLDS \<and> \<not> inverted cfg [] (read_settings d))"

lemma setting_range_int:
  assumes "list_all (\<lambda>(k, x). setting_in_range k x) p" "map_of p k = Some v" "k \<in> set THRESHOLDS" "v \<noteq> None"
  obtains i where "v = Some (SInt i)" "0 \<le> i" "i \<le> 500"
proof -
  have "setting_in_range k v" using assms(1) map_of_SomeD [OF assms(2)] by (auto simp: list_all_iff)
  then show thesis using assms(3,4) that
    by (auto simp: setting_in_range_def THRESHOLDS_def split: option.splits setting_value.splits)
qed

lemma merged_int_text:
  "integer_text v \<Longrightarrow> v = current k \<Longrightarrow> merged_int [] current k f = (case v of None \<Rightarrow> f | Some s \<Rightarrow> the (int_of_string s))"
  by (auto simp: merged_int_def integer_text_def strip_string_of_int int_of_string_of_int)

lemma merged_int_written:
  assumes "list_all (\<lambda>(k, x). setting_in_range k x) p" "k \<in> set THRESHOLDS" "None \<notin> set (map snd p)"
  shows "merged_int [] (\<lambda>k. case map_of p k of None \<Rightarrow> current k | Some v \<Rightarrow> Some (normalise_setting v)) k f = merged_int p current k f"
proof (cases "map_of p k")
  case (Some v)
  have "v \<noteq> None" using map_of_SomeD [OF Some] assms(3) by force
  then obtain i where "v = Some (SInt i)" by (rule setting_range_int [OF assms(1) Some assms(2)])
  then show ?thesis using Some
    by (simp add: merged_int_def normalise_setting_def strip_string_of_int int_of_string_of_int)
qed (simp add: merged_int_def)

lemma update_settings_cases:
  assumes "update_settings iso_of cfg now a p seen d = (resp, d')"
  obtains (same) "d' = d"
  | (written) "p \<noteq> []" "None \<notin> set (map snd p)" "\<not> inverted cfg p (read_settings d)"
      "d' = write_settings now a (read_settings d) p d" "resp = Reply 200 (load_settings iso_of cfg d')"
proof -
  have nulls: "sort (map fst (filter (\<lambda>(k, v). v = None) p)) = [] \<longleftrightarrow> None \<notin> set (map snd p)"
  proof -
    have "sort xs = [] \<longleftrightarrow> xs = []" for xs :: "string list" by (metis set_empty set_sort)
    then show ?thesis by (force simp: filter_empty_conv)
  qed
  have "sort (map fst (filter (\<lambda>(k, v). v = None) p)) = []" if "d' \<noteq> d"
    using assms that by (auto simp: update_settings_def Let_def split: if_splits)
  then show thesis
    using assms same written nulls by (cases "d' = d") (auto simp: update_settings_def Let_def split: if_splits)
qed

lemma threshold_written:
  assumes "integer_text (read_settings d k)" "small_int f"
  shows "threshold (read_settings d) k f = Fin (of_int (merged_int [] (read_settings d) k f))"
  using assms
  by (auto simp: threshold_def merged_int_def integer_text_def small_int_def float_of_string_of_int strip_string_of_int int_of_string_of_int)

text \<open>An accepted patch keeps the stored pair in order, and the alert task reads that pair.\<close>

lemma update_settings_thresholds_ok:
  assumes ok: "thresholds_ok cfg d" and p: "admin_settings_update_of env b = Some p"
    and upd: "update_settings iso_of cfg now a p seen d = (resp, d')"
  shows "thresholds_ok cfg d'"
proof -
  have range: "distinct (map fst p)" "list_all (\<lambda>(k, x). setting_in_range k x) p"
    using admin_settings_update_range [OF p] by auto
  show ?thesis
    using upd
  proof (cases rule: update_settings_cases)
    case same
    then show ?thesis using ok by simp
  next
    case written
    have read: "read_settings d' = (\<lambda>k. case map_of p k of None \<Rightarrow> read_settings d k | Some v \<Rightarrow> Some (normalise_setting v))"
      unfolding written(4) by (rule ext) (rule write_settings_read [OF range(1)])
    have "\<not> inverted cfg [] (read_settings d')"
      using written(3) unfolding inverted_def read
      by (simp add: merged_int_written [OF range(2) _ written(2)] THRESHOLDS_def)
    moreover have "integer_text (read_settings d' k)" if k: "k \<in> set THRESHOLDS" for k
    proof (cases "map_of p k")
      case None
      then show ?thesis using ok k by (auto simp: read thresholds_ok_def list_all_iff)
    next
      case (Some v)
      have "v \<noteq> None" using map_of_SomeD [OF Some] written(2) by force
      then obtain i where "v = Some (SInt i)" "0 \<le> i" "i \<le> 500" by (rule setting_range_int [OF range(2) Some k])
      then have "small_int i" "v = Some (SInt i)" by (auto simp: small_int_def)
      then show ?thesis by (auto simp: read Some integer_text_def normalise_setting_def)
    qed
    ultimately show ?thesis by (simp add: thresholds_ok_def list_all_iff)
  qed
qed

lemma thresholds_effective:
  assumes "thresholds_ok cfg d" "small_int (ad_warning cfg)" "small_int (ad_critical cfg)"
    and "ac_warning acfg = ad_warning cfg" "ac_critical acfg = ad_critical cfg"
  shows "\<exists>w c. warning_at acfg d = Fin (of_int w) \<and> critical_at acfg d = Fin (of_int c) \<and> w < c"
proof -
  have "integer_text (read_settings d ''aqi_warning_threshold'')" "integer_text (read_settings d ''aqi_critical_threshold'')"
    using assms(1) by (simp_all add: thresholds_ok_def THRESHOLDS_def)
  note thr = threshold_written [OF this(1) assms(2)] threshold_written [OF this(2) assms(3)]
  then show ?thesis using assms(1) by (auto simp: warning_at_def critical_at_def assms(4,5) thresholds_ok_def inverted_def)
qed

section \<open>Properties\<close>

text \<open>
  The alert thresholds can never be inverted through the API: from thresholds written by this route
  and in order, any accepted patch leaves them so, whatever another administrator committed between
  the first check and the lock; and the pair the alert task then reads is in order.
\<close>

theorem thresholds_never_inverted:
  assumes ok: "thresholds_ok cfg d" and p: "admin_settings_update_of env b = Some p"
    and upd: "update_settings iso_of cfg now a p seen d = (resp, d')"
    and small: "small_int (ad_warning cfg)" "small_int (ad_critical cfg)"
    and same: "ac_warning acfg = ad_warning cfg" "ac_critical acfg = ad_critical cfg"
  shows "thresholds_ok cfg d' \<and>
    (\<exists>w c. warning_at acfg d' = Fin (of_int w) \<and> critical_at acfg d' = Fin (of_int c) \<and> w < c)"
  using update_settings_thresholds_ok [OF ok p upd] thresholds_effective [OF _ small same] by blast

definition demo_admin_config :: admin_config where
  "demo_admin_config = \<lparr>ad_warning = 100, ad_critical = 200, ad_retention_days = 365, ad_alert_email = ''ops@x.org''\<rparr>"

definition racing_db :: db where
  "racing_db = empty_db\<lparr>settings := [\<lparr>g_key = ''aqi_warning_threshold'', g_value = ''150'', g_description = None, g_updated_at = 0, g_updated_by = None\<rparr>]\<rparr>"

theorem thresholds_never_inverted_witness:
  "fst (update_settings (\<lambda>_. ''t'') demo_admin_config 9 1 [(''aqi_critical_threshold'', Some (SInt 120))] empty_db racing_db) = bad_pair \<and>
   thresholds_ok demo_admin_config (snd (update_settings (\<lambda>_. ''t'') demo_admin_config 9 1 [(''aqi_critical_threshold'', Some (SInt 120))] empty_db racing_db)) \<and>
   thresholds_ok demo_admin_config (snd (update_settings (\<lambda>_. ''t'') demo_admin_config 9 1 [(''aqi_critical_threshold'', Some (SInt 160))] empty_db racing_db))"
proof -
  have "string_of_int 150 = ''150''" by code_simp
  then have read: "read_settings racing_db = (\<lambda>k. if k = ''aqi_warning_threshold'' then Some (string_of_int 150) else None)"
    by (auto simp: read_settings_def racing_db_def)
  have texts: "integer_text (Some (string_of_int 150))" "integer_text None"
    by (auto simp: integer_text_def small_int_def intro!: exI [of _ 150])
  then have ok: "thresholds_ok demo_admin_config racing_db"
    by (simp add: thresholds_ok_def THRESHOLDS_def read inverted_def merged_int_def strip_string_of_int int_of_string_of_int demo_admin_config_def)
  have p: "admin_settings_update_of demo_schema_env [(''aqi_critical_threshold'', JInt 120)] = Some [(''aqi_critical_threshold'', Some (SInt 120))]"
    "admin_settings_update_of demo_schema_env [(''aqi_critical_threshold'', JInt 160)] = Some [(''aqi_critical_threshold'', Some (SInt 160))]"
    by code_simp+
  have bad: "fst (update_settings (\<lambda>_. ''t'') demo_admin_config 9 1 [(''aqi_critical_threshold'', Some (SInt 120))] empty_db racing_db) = bad_pair"
    by code_simp
  have small: "small_int (ad_warning demo_admin_config)" "small_int (ad_critical demo_admin_config)"
    by (simp_all add: small_int_def demo_admin_config_def)
  note never = thresholds_never_inverted [OF ok _ prod.collapse [symmetric] small, where acfg = "demo_alert_config\<lparr>ac_warning := 100, ac_critical := 200\<rparr>"]
  show ?thesis using bad never [OF p(1)] never [OF p(2)] by (simp add: demo_admin_config_def)
qed

text \<open>
  Every change of a setting is on record, and nothing else is: a patch either changes nothing, or
  it answers 200 and appends exactly one audit row per key, with the text that key held in the locked
  database and the text it holds now; reading the settings back gives the patched texts and the old ones elsewhere.
\<close>

theorem settings_audited:
  assumes p: "admin_settings_update_of env b = Some p"
    and upd: "update_settings iso_of cfg now a p seen d = (resp, d')"
  shows "if d' = d then True
    else status resp = 200 \<and>
      map (\<lambda>l. (l_entity_id l, l_old_value l, l_new_value l, l_changed_by l)) (drop (length (audit_logs d)) (audit_logs d')) =
        map (\<lambda>(k, v). (k, read_settings d k, read_settings d' k, Some a)) p \<and>
      take (length (audit_logs d)) (audit_logs d') = audit_logs d \<and>
      read_settings d' = (\<lambda>k. case map_of p k of None \<Rightarrow> read_settings d k | Some v \<Rightarrow> Some (normalise_setting v)) \<and>
      d'\<lparr>settings := settings d, audit_logs := audit_logs d\<rparr> = d"
  using upd
proof (cases rule: update_settings_cases)
  case written
  have dist: "distinct (map fst p)" using admin_settings_update_range [OF p] by simp
  have "map_of p k = Some v" if "(k, v) \<in> set p" for k v using dist that by simp
  then have "map (\<lambda>l. (l_entity_id l, l_old_value l, l_new_value l, l_changed_by l)) (map (audit_row now a (read_settings d)) p) =
      map (\<lambda>(k, v). (k, read_settings d k, read_settings d' k, Some a)) p"
    by (auto simp: written(4) write_settings_read [OF dist] audit_row_def)
  then show ?thesis
    using write_settings_read [OF dist, of now a "read_settings d" d] write_settings_other [where x = "settings d" and y = "audit_logs d" and d = d]
    by (simp add: written(4,5) write_settings_audit fun_eq_iff)
qed simp

theorem settings_audited_witness:
  "case update_settings (\<lambda>_. ''t'') demo_admin_config 9 1 [(''alerts_enabled'', Some (SBool False))] empty_db racing_db of
     (resp, d') \<Rightarrow> status resp = 200 \<and> read_settings d' ''alerts_enabled'' = Some ''false'' \<and>
       map (\<lambda>l. (l_entity_id l, l_old_value l, l_new_value l)) (audit_logs d') = [(''alerts_enabled'', None, Some ''false'')]"
proof -
  have p: "admin_settings_update_of demo_schema_env [(''alerts_enabled'', JBool False)] = Some [(''alerts_enabled'', Some (SBool False))]"
    by code_simp
  obtain resp d' where u: "update_settings (\<lambda>_. ''t'') demo_admin_config 9 1 [(''alerts_enabled'', Some (SBool False))] empty_db racing_db = (resp, d')"
    by (metis prod.exhaust)
  have "length (settings (snd (update_settings (\<lambda>_. ''t'') demo_admin_config 9 1 [(''alerts_enabled'', Some (SBool False))] empty_db racing_db))) = 2"
    by code_simp
  then have ne: "d' \<noteq> racing_db" using u by (auto simp: racing_db_def)
  have logs: "audit_logs racing_db = []" by (simp add: racing_db_def empty_db_def)
  from settings_audited [OF p u] ne logs have res: "status resp = 200"
    "map (\<lambda>l. (l_entity_id l, l_old_value l, l_new_value l, l_changed_by l)) (audit_logs d') =
       [(''alerts_enabled'', read_settings racing_db ''alerts_enabled'', read_settings d' ''alerts_enabled'', Some 1)]"
    "read_settings d' ''alerts_enabled'' = Some ''false''"
    by (simp_all add: normalise_setting_def)
  have "read_settings racing_db ''alerts_enabled'' = None" by (simp add: read_settings_def racing_db_def)
  then show ?thesis using u res by auto
qed

lemma retention_read_settings:
  "select_one (\<lambda>s. g_key s = k) rows = None \<Longrightarrow> map_of (map (\<lambda>s. (g_key s, g_value s)) rows) k = None"
  "select_one (\<lambda>s. g_key s = k) rows = Some s \<Longrightarrow> map_of (map (\<lambda>s. (g_key s, g_value s)) rows) k = Some (g_value s)"
  unfolding select_one_def by (induction rows) (auto split: if_splits)

text \<open>A retention period set through the API is the one the purge task reads.\<close>

theorem retention_roundtrip:
  assumes p: "admin_settings_update_of env b = Some p" and v: "map_of p ''data_retention_days'' = Some (Some (SInt n))"
    and upd: "update_settings iso_of cfg now a p seen d = (Reply 200 entries, d')" and ch: "d' \<noteq> d"
  shows "retention_days dflt d' = Inr n \<and> 1 \<le> n \<and> n \<le> 3650"
proof -
  have range: "distinct (map fst p)" "list_all (\<lambda>(k, x). setting_in_range k x) p"
    using admin_settings_update_range [OF p] by auto
  have "setting_in_range ''data_retention_days'' (Some (SInt n))" using range(2) map_of_SomeD [OF v] by (auto simp: list_all_iff)
  then have n: "1 \<le> n" "n \<le> 3650" by (simp_all add: setting_in_range_def)
  have "read_settings d' ''data_retention_days'' = Some (string_of_int n)"
    using upd
  proof (cases rule: update_settings_cases)
    case written
    then show ?thesis using v by (simp add: write_settings_read [OF range(1)] normalise_setting_def)
  qed (use ch in simp)
  then obtain s where "select_one (\<lambda>s. g_key s = ''data_retention_days'') (settings d') = Some s" "g_value s = string_of_int n"
    using retention_read_settings [of "''data_retention_days''" "settings d'"]
    by (cases "select_one (\<lambda>s. g_key s = ''data_retention_days'') (settings d')") (auto simp: read_settings_def)
  then show ?thesis using n float_of_string_of_int [of n] by (simp add: retention_days_def int_of_float_def)
qed

theorem retention_roundtrip_witness:
  "\<exists>entries d'. update_settings (\<lambda>_. ''t'') demo_admin_config 9 1 [(''data_retention_days'', Some (SInt 30))] empty_db racing_db = (Reply 200 entries, d') \<and>
     retention_days 365 d' = Inr 30"
proof -
  have p: "admin_settings_update_of demo_schema_env [(''data_retention_days'', JInt 30)] = Some [(''data_retention_days'', Some (SInt 30))]"
    by code_simp
  let ?u = "update_settings (\<lambda>_. ''t'') demo_admin_config 9 1 [(''data_retention_days'', Some (SInt 30))] empty_db racing_db"
  have st: "status (fst ?u) = 200" "length (settings (snd ?u)) = 2" by code_simp+
  obtain resp d' where u: "?u = (resp, d')" by (metis prod.exhaust)
  have ne: "d' \<noteq> racing_db" using u st(2) by (auto simp: racing_db_def)
  have "resp = Reply 200 (load_settings (\<lambda>_. ''t'') demo_admin_config d')"
    using u by (rule update_settings_cases) (simp_all add: ne)
  with u have u': "?u = (Reply 200 (load_settings (\<lambda>_. ''t'') demo_admin_config d'), d')" by (simp only:)
  have "retention_days 365 d' = Inr 30"
    using retention_roundtrip [OF p _ u' ne, of 30] by (simp only: map_of.simps fst_conv snd_conv fun_upd_same)
  with u' show ?thesis by blast
qed

end
