(* ===== verification/Deployment.thy ===== *)
theory Deployment imports Config Admin_Settings begin

text \<open>
  The configuration a process starts with (\<open>src/config/__init__.py\<close>) and the settings administrators change
  afterwards (\<open>src/api/admin.py\<close>), as the alert task (\<open>src/tasks/alerts.py\<close>) reads them.
\<close>

text \<open>What the routes and the task take from \<open>get_config()\<close>.\<close>

definition admin_config_of :: "config_values \<Rightarrow> admin_config" where
  "admin_config_of c =
     \<lparr>ad_warning = cf_aqi_warning c, ad_critical = cf_aqi_critical c, ad_retention_days = cf_retention_days c, ad_alert_email = cf_alert_email c\<rparr>"

definition alert_config_of :: "config_values \<Rightarrow> alert_config" where
  "alert_config_of c =
     \<lparr>ac_warning = cf_aqi_warning c, ac_critical = cf_aqi_critical c,
      ac_smtp = \<lparr>smtp_host = cf_smtp_host c, smtp_user = cf_smtp_username c, smtp_from = cf_smtp_from c, smtp_use_tls = cf_smtp_use_tls c\<rparr>\<rparr>"

text \<open>A PATCH of the settings: its body, what its first check sees of the database, the administrator and the time.\<close>

record settings_request =
  sr_body :: body
  sr_seen :: db
  sr_admin :: int
  sr_now :: timestamp

definition patch_settings :: "schema_env \<Rightarrow> (timestamp \<Rightarrow> string) \<Rightarrow> admin_config \<Rightarrow> settings_request \<Rightarrow> db \<Rightarrow> db" where
  "patch_settings env iso_text cfg q d =
     (case admin_settings_update_of env (sr_body q) of
        None \<Rightarrow> d
      | Some p \<Rightarrow> snd (update_settings iso_text cfg (sr_now q) (sr_admin q) p (sr_seen q) d))"

lemma patch_settings_ok: "thresholds_ok cfg d \<Longrightarrow> thresholds_ok cfg (patch_settings env iso_text cfg q d)"
  by (auto simp: patch_settings_def split: option.splits intro: update_settings_thresholds_ok [OF _ _ prod.collapse [symmetric]])

lemma patches_ok: "thresholds_ok cfg d \<Longrightarrow> thresholds_ok cfg (fold (patch_settings env iso_text cfg) qs d)"
  by (induction qs arbitrary: d) (simp_all add: patch_settings_ok)

lemma build_config_thresholds: "build_config app_env raw = Inr c \<Longrightarrow> cf_aqi_warning c < cf_aqi_critical c"
  unfolding build_config_Inr by (auto simp: MODEL_VALIDATORS_def)



end
