(* ===== verification/Nodes.thy ===== *)
theory Nodes imports Schemas Cache "HOL-Library.List_Lexorder" "HOL-Library.Char_ord" begin

text \<open>
  \<open>src/api/nodes.py\<close>: the node list behind its cache, self-service registration and the admin's
  re-configuration with its best-effort push to the device.  \<open>isofmt\<close> prints a time as
  \<open>isoformat\<close> does.
\<close>

section \<open>Serialisation\<close>

definition NODES_CACHE_KEY :: string where "NODES_CACHE_KEY = ''nodes:all''"
definition NODES_CACHE_TTL :: int where "NODES_CACHE_TTL = 300"
definition READINGS_LATEST_KEY :: string where "READINGS_LATEST_KEY = ''readings:latest''"

definition jfloat :: "pyfloat option \<Rightarrow> json" where
  "jfloat x = (case x of None \<Rightarrow> JNull | Some v \<Rightarrow> JFloat v)"

definition node_response :: "(timestamp \<Rightarrow> string) \<Rightarrow> node \<Rightarrow> (string \<times> json) list" where
  "node_response isofmt n =
     [(''node_id'', JStr (n_node_id n)), (''name'', jstr (n_name n)), (''location_name'', jstr (n_location_name n)),
      (''lat'', jfloat (n_lat n)), (''lon'', jfloat (n_lon n)), (''firmware_version'', jstr (n_firmware_version n)),
      (''reading_interval'', JInt (n_reading_interval n)), (''is_active'', JBool (n_is_active n)),
      (''registered_at'', JStr (isofmt (n_registered_at n))), (''last_seen'', jstr (map_option isofmt (n_last_seen n)))]"

section \<open>Configuration push\<close>

text \<open>
  The answer and what was published; \<open>publish_raises\<close>: the client's \<open>publish\<close> raises.
\<close>

definition push_config :: "'c option \<Rightarrow> bool \<Rightarrow> string \<Rightarrow> int \<Rightarrow> bool \<Rightarrow> bool \<times> push list" where
  "push_config registry publish_raises node_id interval_s enabled =
     (case get_registered registry of
        None \<Rightarrow> (False, [])
      | Some client \<Rightarrow>
          (case publish_config 0 node_id interval_s True enabled of
             Inl e \<Rightarrow> (False, [])
           | Inr p \<Rightarrow> if publish_raises then (False, []) else (True, [p])))"

section \<open>Routes\<close>

definition sorted_nodes :: "db \<Rightarrow> node list" where "sorted_nodes d = sort_key n_node_id (nodes d)"

definition list_nodes :: "(timestamp \<Rightarrow> string) \<Rightarrow> timestamp \<Rightarrow> db \<Rightarrow> rval redis \<Rightarrow> json response \<times> rval redis" where
  "list_nodes isofmt now d r =
     (case cache_get_json now NODES_CACHE_KEY r of
        (Some cached, r1) \<Rightarrow> (Reply 200 (JObj [(''nodes'', cached)]), r1)
      | (None, r1) \<Rightarrow>
          (let rows = JList (map (JObj \<circ> node_response isofmt) (sorted_nodes d))
           in (Reply 200 (JObj [(''nodes'', rows)]), cache_set_json now NODES_CACHE_KEY rows NODES_CACHE_TTL r1)))"

definition node_of :: "timestamp \<Rightarrow> register_node_request \<Rightarrow> node" where
  "node_of now rq =
     \<lparr>n_node_id = rn_node_id rq, n_name = rn_name rq, n_location_name = rn_location_name rq, n_lat = rn_lat rq, n_lon = rn_lon rq,
      n_firmware_version = rn_firmware_version rq, n_reading_interval = rn_reading_interval rq, n_is_active = True,
      n_registered_at = now, n_last_seen = None\<rparr>"

definition revive :: "register_node_request \<Rightarrow> node \<Rightarrow> node" where
  "revive rq n =
     n\<lparr>n_name := rn_name rq, n_location_name := rn_location_name rq, n_lat := rn_lat rq, n_lon := rn_lon rq,
       n_firmware_version := rn_firmware_version rq, n_reading_interval := rn_reading_interval rq, n_is_active := True\<rparr>"

text \<open>\<open>session.add(node); commit()\<close>: the primary key.\<close>

definition insert_node :: "node \<Rightarrow> db \<Rightarrow> py_error + db" where
  "insert_node n d =
     (if n_node_id n \<in> set (map n_node_id (nodes d)) then Inl (IntegrityError ''nodes_pkey'')
      else Inr (d\<lparr>nodes := nodes d @ [n]\<rparr>))"

definition register_node :: "(timestamp \<Rightarrow> string) \<Rightarrow> timestamp \<Rightarrow> register_node_request \<Rightarrow> db \<Rightarrow> rval redis
    \<Rightarrow> json response \<times> db \<times> rval redis" where
  "register_node isofmt now rq d r =
     (case (case insert_node (node_of now rq) d of
              Inr d' \<Rightarrow> Some (node_of now rq, d')
            | Inl e \<Rightarrow>
                (case select_one (\<lambda>n. n_node_id n = rn_node_id rq) (nodes d) of
                   Some old \<Rightarrow>
                     (if \<not> n_is_active old
                      then Some (revive rq old, d\<lparr>nodes := update_where (\<lambda>n. n_node_id n = rn_node_id rq) (revive rq) (nodes d)\<rparr>)
                      else None)
                 | None \<Rightarrow> None)) of
        None \<Rightarrow> (problem_json 409 ''Conflict'' ''A node with this id is already registered'', d, r)
      | Some (n, d') \<Rightarrow>
          (Reply 201 (JObj (node_response isofmt n)), d', cache_delete READINGS_LATEST_KEY (cache_delete NODES_CACHE_KEY r)))"

text \<open>\<open>if data.x is not None: node.x = data.x\<close>\<close>

definition overwrite :: "'a option \<Rightarrow> 'a \<Rightarrow> 'a" where
  "overwrite new old = (case new of None \<Rightarrow> old | Some x \<Rightarrow> x)"

definition apply_update :: "update_node_request \<Rightarrow> node \<Rightarrow> node" where
  "apply_update rq n =
     n\<lparr>n_name := (case un_name rq of None \<Rightarrow> n_name n | x \<Rightarrow> x),
       n_location_name := (case un_location_name rq of None \<Rightarrow> n_location_name n | x \<Rightarrow> x),
       n_lat := (case un_lat rq of None \<Rightarrow> n_lat n | x \<Rightarrow> x),
       n_lon := (case un_lon rq of None \<Rightarrow> n_lon n | x \<Rightarrow> x),
       n_firmware_version := (case un_firmware_version rq of None \<Rightarrow> n_firmware_version n | x \<Rightarrow> x),
       n_reading_interval := overwrite (un_reading_interval rq) (n_reading_interval n),
       n_is_active := overwrite (un_is_active rq) (n_is_active n)\<rparr>"

definition update_node :: "(timestamp \<Rightarrow> string) \<Rightarrow> 'c option \<Rightarrow> bool \<Rightarrow> string \<Rightarrow> update_node_request \<Rightarrow> db \<Rightarrow> rval redis
    \<Rightarrow> json response \<times> push list \<times> db \<times> rval redis" where
  "update_node isofmt registry publish_raises node_id rq d r =
     (case select_one (\<lambda>n. n_node_id n = node_id) (nodes d) of
        None \<Rightarrow> (problem_json 404 ''Not Found'' ''Node not found'', [], d, r)
      | Some old \<Rightarrow>
          (let n = apply_update rq old;
               d' = d\<lparr>nodes := update_where (\<lambda>n. n_node_id n = node_id) (apply_update rq) (nodes d)\<rparr>;
               (pushed, sent) =
                 (case un_is_active rq of
                    Some active \<Rightarrow> push_config registry publish_raises node_id (n_reading_interval n) active
                  | None \<Rightarrow>
                      (case un_reading_interval rq of
                         Some interval \<Rightarrow> push_config registry publish_raises node_id interval True
                       | None \<Rightarrow> (False, [])));
               r1 = cache_delete NODES_CACHE_KEY r;
               r2 = (if un_is_active rq \<noteq> None then cache_delete READINGS_LATEST_KEY r1 else r1)
           in (Reply 200 (JObj (dict_set ''config_pushed'' (JBool pushed) (node_response isofmt n))), sent, d', r2)))"

section \<open>Well-formed nodes\<close>

text \<open>What the table holds: ids that are safe in a topic, each once, and intervals a device accepts.\<close>

definition node_row_ok :: "node \<Rightarrow> bool" where
  "node_row_ok n = (node_id_ok (n_node_id n) \<and> 1 \<le> n_reading_interval n \<and> n_reading_interval n \<le> 86400)"

definition nodes_ok :: "db \<Rightarrow> bool" where
  "nodes_ok d = (distinct (map n_node_id (nodes d)) \<and> list_all node_row_ok (nodes d))"

lemma register_node_request_ok:
  assumes "register_node_request_of env b = Some rq"
  shows "node_id_ok (rn_node_id rq) \<and> 1 \<le> rn_reading_interval rq \<and> rn_reading_interval rq \<le> 86400"
  using assms
  by (auto simp: register_node_request_of_def node_id_safe_def int_field_Some split: option.splits if_splits sum.splits)

lemma update_node_request_ok:
  assumes "update_node_request_of env b = Some rq"
  shows "case un_reading_interval rq of None \<Rightarrow> True | Some i \<Rightarrow> 1 \<le> i \<and> i \<le> 86400"
  using assms
  by (auto simp: update_node_request_of_def opt_field_Some int_field_Some split: option.splits)

lemma select_node: "select_one (\<lambda>n. n_node_id n = nid) (nodes d) = Some n \<Longrightarrow> n \<in> set (nodes d) \<and> n_node_id n = nid"
  by (rule select_one_Some)

lemma update_nodes_ok:
  assumes "nodes_ok d" "\<And>n. n_node_id (f n) = n_node_id n" "\<And>n. node_row_ok n \<Longrightarrow> n_node_id n = nid \<Longrightarrow> node_row_ok (f n)"
  shows "nodes_ok (d\<lparr>nodes := update_where (\<lambda>n. n_node_id n = nid) f (nodes d)\<rparr>)"
  using assms by (auto simp: nodes_ok_def map_update_where list_all_iff sql)

lemma register_cases:
  obtains
    (new) "rn_node_id rq \<notin> set (map n_node_id (nodes d))"
      "register_node isofmt now rq d r = (Reply 201 (JObj (node_response isofmt (node_of now rq))), d\<lparr>nodes := nodes d @ [node_of now rq]\<rparr>,
        cache_delete READINGS_LATEST_KEY (cache_delete NODES_CACHE_KEY r))"
  | (revived) old where "select_one (\<lambda>n. n_node_id n = rn_node_id rq) (nodes d) = Some old" "\<not> n_is_active old"
      "register_node isofmt now rq d r = (Reply 201 (JObj (node_response isofmt (revive rq old))),
        d\<lparr>nodes := update_where (\<lambda>n. n_node_id n = rn_node_id rq) (revive rq) (nodes d)\<rparr>,
        cache_delete READINGS_LATEST_KEY (cache_delete NODES_CACHE_KEY r))"
  | (taken) old where "select_one (\<lambda>n. n_node_id n = rn_node_id rq) (nodes d) = Some old" "n_is_active old"
      "register_node isofmt now rq d r = (problem_json 409 ''Conflict'' ''A node with this id is already registered'', d, r)"
proof (cases "rn_node_id rq \<in> set (map n_node_id (nodes d))")
  case False
  then show thesis by (intro new) (simp_all add: register_node_def insert_node_def node_of_def)
next
  case True
  then obtain old where old: "select_one (\<lambda>n. n_node_id n = rn_node_id rq) (nodes d) = Some old"
    by (cases "select_one (\<lambda>n. n_node_id n = rn_node_id rq) (nodes d)") (auto simp: select_one_None)
  have ins: "insert_node (node_of now rq) d = Inl (IntegrityError ''nodes_pkey'')"
    using True by (simp add: insert_node_def node_of_def)
  show thesis
  proof (cases "n_is_active old")
    case True
    with old ins show thesis by (intro taken [OF old]) (simp_all add: register_node_def)
  next
    case False
    with old ins show thesis by (intro revived [OF old]) (simp_all add: register_node_def)
  qed
qed

lemma register_nodes_ok:
  assumes "nodes_ok d" "node_id_ok (rn_node_id rq)" "1 \<le> rn_reading_interval rq" "rn_reading_interval rq \<le> 86400"
  shows "nodes_ok (fst (snd (register_node isofmt now rq d r)))"
proof (rule register_cases [of rq d isofmt now r], goal_cases)
  case 1
  then show ?thesis using assms by (auto simp: nodes_ok_def node_of_def node_row_ok_def)
next
  case (2 old)
  then show ?thesis using assms
    by (simp del: update_where_def) (intro update_nodes_ok, auto simp: revive_def node_row_ok_def)
qed (use assms in simp)

lemma apply_update_ok:
  assumes "node_row_ok n" "case un_reading_interval rq of None \<Rightarrow> True | Some i \<Rightarrow> 1 \<le> i \<and> i \<le> 86400"
  shows "node_row_ok (apply_update rq n)"
  using assms by (auto simp: node_row_ok_def apply_update_def overwrite_def split: option.splits)

lemma apply_update_id [simp]: "n_node_id (apply_update rq n) = n_node_id n"
  by (simp add: apply_update_def)

lemma update_node_db:
  "fst (snd (snd (update_node isofmt registry raises node_id rq d r))) =
     (if select_one (\<lambda>n. n_node_id n = node_id) (nodes d) = None then d
      else d\<lparr>nodes := update_where (\<lambda>n. n_node_id n = node_id) (apply_update rq) (nodes d)\<rparr>)"
  by (simp add: update_node_def Let_def split_def split: option.splits)

section \<open>Sequences of requests\<close>

text \<open>Requests with raw bodies, at their times; a body the schema refuses changes nothing.\<close>

datatype node_op = ListNodes timestamp | RegisterNode timestamp body | UpdateNode string body

fun node_step :: "schema_env \<Rightarrow> (timestamp \<Rightarrow> string) \<Rightarrow> node_op \<Rightarrow> db \<times> rval redis \<Rightarrow> db \<times> rval redis" where
  "node_step env isofmt (ListNodes now) (d, r) = (d, snd (list_nodes isofmt now d r))"
| "node_step env isofmt (RegisterNode now b) (d, r) =
     (case register_node_request_of env b of None \<Rightarrow> (d, r) | Some rq \<Rightarrow> snd (register_node isofmt now rq d r))"
| "node_step env isofmt (UpdateNode nid b) (d, r) =
     (case update_node_request_of env b of None \<Rightarrow> (d, r)
      | Some rq \<Rightarrow> snd (snd (update_node isofmt (None :: unit option) False nid rq d r)))"

text \<open>What the cache may hold: the list as it is in the table, or nothing.\<close>

definition nodes_doc :: "(timestamp \<Rightarrow> string) \<Rightarrow> db \<Rightarrow> json" where
  "nodes_doc isofmt d = JList (map (JObj \<circ> node_response isofmt) (sorted_nodes d))"

definition nodes_coherent :: "(timestamp \<Rightarrow> string) \<Rightarrow> db \<Rightarrow> rval redis \<Rightarrow> bool" where
  "nodes_coherent isofmt d r =
     ((\<exists>s. r = Client s []) \<and> (\<forall>t. holds t r NODES_CACHE_KEY \<in> {None, Some (RDoc (nodes_doc isofmt d))}))"

lemma cache_delete_up: "cache_delete k (Client s []) = Client (st_del k s) []"
  by (simp add: cache_delete_def redis_delete_def command_cases)

lemma cache_set_json_up: "cache_set_json now k j ttl (Client s []) = Client (st_setex now k ttl (RDoc j) s) []"
  by (simp add: cache_set_json_def cache_set_def redis_setex_def command_cases)

lemma cache_get_json_up: "snd (cache_get_json now k (Client s [])) = Client s []"
  by (simp add: cache_get_json_def cache_get_def redis_get_def command_cases split: option.splits rval.splits)

lemma coherent_dropped: "nodes_coherent isofmt d' (Client (st_del READINGS_LATEST_KEY (st_del NODES_CACHE_KEY s)) [])"
  "nodes_coherent isofmt d' (Client (st_del NODES_CACHE_KEY s) [])"
  by (simp_all add: nodes_coherent_def holds_def)

lemma list_nodes_answer:
  assumes "nodes_coherent isofmt d r"
  shows "fst (list_nodes isofmt now d r) = Reply 200 (JObj [(''nodes'', nodes_doc isofmt d)])"
    and "nodes_coherent isofmt d (snd (list_nodes isofmt now d r))"
proof -
  obtain s where s: "r = Client s []" "\<And>t. st_get t NODES_CACHE_KEY s \<in> {None, Some (RDoc (nodes_doc isofmt d))}"
    using assms by (auto simp: nodes_coherent_def holds_def)
  let ?rows = "nodes_doc isofmt d"
  have eq: "list_nodes isofmt now d r =
      (Reply 200 (JObj [(''nodes'', ?rows)]),
       if st_get now NODES_CACHE_KEY s = None then Client (st_setex now NODES_CACHE_KEY NODES_CACHE_TTL (RDoc ?rows) s) [] else r)"
  proof (cases "st_get now NODES_CACHE_KEY s")
    case None
    then have "cache_get_json now NODES_CACHE_KEY r = (None, r)"
      by (simp add: s(1) cache_get_json_def cache_get_def redis_get_def command_cases)
    then show ?thesis using None by (simp add: list_nodes_def s(1) cache_set_json_up nodes_doc_def Let_def)
  next
    case (Some v)
    then have "v = RDoc ?rows" using s(2) [of now] by simp
    then have "cache_get_json now NODES_CACHE_KEY r = (Some ?rows, r)"
      using Some by (simp add: s(1) cache_get_json_def cache_get_def redis_get_def command_cases json_loads_def nodes_doc_def)
    then show ?thesis using Some by (simp add: list_nodes_def)
  qed
  then show "fst (list_nodes isofmt now d r) = Reply 200 (JObj [(''nodes'', nodes_doc isofmt d)])" by simp
  have "holds t (Client (st_setex now NODES_CACHE_KEY NODES_CACHE_TTL (RDoc ?rows) s) []) NODES_CACHE_KEY \<in> {None, Some (RDoc ?rows)}" for t
    by (simp add: holds_def st_get_setex)
  then show "nodes_coherent isofmt d (snd (list_nodes isofmt now d r))"
    using assms by (simp add: eq nodes_coherent_def)
qed

lemma node_step_coherent:
  assumes "nodes_coherent isofmt (fst st) (snd st)"
  shows "nodes_coherent isofmt (fst (node_step env isofmt op st)) (snd (node_step env isofmt op st))"
proof (cases st)
  case (Pair d r)
  obtain s where s: "r = Client s []" using assms Pair by (auto simp: nodes_coherent_def)
  show ?thesis
  proof (cases op)
    case (ListNodes now)
    then show ?thesis using list_nodes_answer(2) [OF assms] Pair by simp
  next
    case (RegisterNode now b)
    show ?thesis
    proof (cases "register_node_request_of env b")
      case (Some rq)
      show ?thesis
        by (rule register_cases [of rq d isofmt now r])
          (use assms in \<open>simp_all add: RegisterNode Pair Some s cache_delete_up coherent_dropped\<close>)
    qed (use assms RegisterNode Pair in simp)
  next
    case (UpdateNode nid b)
    then show ?thesis using assms
      by (auto simp: Pair s update_node_def Let_def split_def cache_delete_up coherent_dropped split: option.split)
  qed
qed

section \<open>Properties\<close>

text \<open>
  C28: The cached node list is never stale while Redis is up: after any sequence of listings,
  registrations and updates, with any bodies and at any times, \<open>GET /nodes\<close> answers the table as it
  is, ordered by id, whether the answer comes from the cache or not.
\<close>

theorem nodes_cache_coherent:
  "case fold (node_step env isofmt) ops (d, Client [] []) of
     (d', r') \<Rightarrow> fst (list_nodes isofmt now d' r') =
       Reply 200 (JObj [(''nodes'', JList (map (JObj \<circ> node_response isofmt) (sort_key n_node_id (nodes d'))))])"
proof -
  have "nodes_coherent isofmt (fst (fold (node_step env isofmt) ops st)) (snd (fold (node_step env isofmt) ops st))"
    if "nodes_coherent isofmt (fst st) (snd st)" for st
    using that by (induction ops arbitrary: st) (simp_all add: node_step_coherent)
  moreover have "nodes_coherent isofmt d (Client [] [])" by (simp add: nodes_coherent_def holds_def st_get_def)
  ultimately show ?thesis
    using list_nodes_answer(1) [of isofmt _ _ now] by (auto simp: nodes_doc_def sorted_nodes_def split_def)
qed

text \<open>
  Requests keep the node table well formed, whatever the bodies and whatever Redis does: every id
  stays unique and safe inside a topic, and every interval stays one that devices accept.
\<close>

theorem nodes_invariant:
  assumes "nodes_ok d"
  shows "nodes_ok (fst (fold (node_step env isofmt) ops (d, r)))"
proof -
  have step: "nodes_ok (fst (node_step env isofmt op st))" if st: "nodes_ok (fst st)" for op st
  proof (cases st)
    case (Pair d r)
    show ?thesis
    proof (cases op)
      case (RegisterNode now b)
      then show ?thesis
        using st Pair register_nodes_ok [of d] register_node_request_ok [of env b]
        by (cases "register_node_request_of env b") auto
    next
      case (UpdateNode nid b)
      then show ?thesis
        using st Pair update_node_request_ok [of env b] update_nodes_ok [of d "apply_update _" nid] apply_update_ok
        by (cases "update_node_request_of env b") (auto simp: update_node_db)
    qed (use st Pair in simp)
  qed
  have "nodes_ok (fst st) \<Longrightarrow> nodes_ok (fst (fold (node_step env isofmt) ops st))" for st
    by (induction ops arbitrary: st) (simp_all add: step)
  then show ?thesis using assms by simp
qed

definition demo_node_ops :: "node_op list" where
  "demo_node_ops = [RegisterNode 1 demo_node_body, RegisterNode 2 demo_node_body, UpdateNode ''esp-01'' [(''is_active'', JBool False)],
     RegisterNode 3 [(''node_id'', JStr ''esp-01'')], RegisterNode 4 [(''node_id'', JStr ''esp/#'')]]"

theorem nodes_invariant_witness:
  "nodes_ok (fst (fold (node_step demo_schema_env (\<lambda>_. ''t'')) demo_node_ops (empty_db, NoClient))) \<and>
   map (\<lambda>n. (n_node_id n, n_reading_interval n, n_is_active n, n_registered_at n))
     (nodes (fst (fold (node_step demo_schema_env (\<lambda>_. ''t'')) demo_node_ops (empty_db, NoClient)))) = [(''esp-01'', 30, True, 1)]"
proof -
  have "nodes_ok empty_db" by (simp add: nodes_ok_def empty_db_def)
  moreover have "map (\<lambda>n. (n_node_id n, n_reading_interval n, n_is_active n, n_registered_at n))
      (nodes (fst (fold (node_step demo_schema_env (\<lambda>_. ''t'')) demo_node_ops (empty_db, NoClient)))) = [(''esp-01'', 30, True, 1)]"
    by code_simp
  ultimately show ?thesis using nodes_invariant by blast
qed

text \<open>
  Registration is an upsert of inactive ids only: it answers 201 exactly when no active node has the
  id, and then the table has one active row of that id with the fields of the request, which keeps the
  registration time of a row it revives, and every other row is as it was; otherwise it answers
  409 and changes nothing.
\<close>

theorem register_node_effect:
  assumes "nodes_ok d"
  shows "case register_node isofmt now rq d r of
    (resp, d', r') \<Rightarrow>
      (if list_ex (\<lambda>n. n_node_id n = rn_node_id rq \<and> n_is_active n) (nodes d) then status resp = 409 \<and> d' = d \<and> r' = r
       else status resp = 201 \<and>
         filter (\<lambda>n. n_node_id n \<noteq> rn_node_id rq) (nodes d') = filter (\<lambda>n. n_node_id n \<noteq> rn_node_id rq) (nodes d) \<and>
         filter (\<lambda>n. n_node_id n = rn_node_id rq) (nodes d') =
           (case filter (\<lambda>n. n_node_id n = rn_node_id rq) (nodes d) of [] \<Rightarrow> [node_of now rq] | old # _ \<Rightarrow> [revive rq old]))"
proof -
  have dist: "distinct (map n_node_id (nodes d))" using assms by (simp add: nodes_ok_def)
  have row: "filter (\<lambda>n. n_node_id n = rn_node_id rq) (nodes d) = [old]"
    if "select_one (\<lambda>n. n_node_id n = rn_node_id rq) (nodes d) = Some old" for old
    using select_node [OF that] filter_unique [OF dist, of old] by simp
  show ?thesis
  proof (rule register_cases [of rq d isofmt now r], goal_cases)
    case 1
    then have none: "list_all (\<lambda>n. n_node_id n \<noteq> rn_node_id rq) (nodes d)" by (auto simp: list_all_iff image_iff)
    then have "filter (\<lambda>n. n_node_id n = rn_node_id rq) (nodes d) = []"
      "\<not> list_ex (\<lambda>n. n_node_id n = rn_node_id rq \<and> n_is_active n) (nodes d)"
      by (auto simp: filter_empty_conv list_ex_iff list_all_iff)
    then show ?thesis using 1 by (simp add: node_of_def)
  next
    case (2 old)
    have "n_node_id (revive rq n) = n_node_id n" for n by (simp add: revive_def)
    note upd = filter_update_same [where k = n_node_id and f = "revive rq", OF this]
      filter_update_other [where k = n_node_id and f = "revive rq", OF this]
    have "n = old" if "n \<in> set (nodes d)" "n_node_id n = rn_node_id rq" for n
      using that select_node [OF 2(1)] by (intro distinct_map_eq [OF dist]) auto
    then have "\<not> list_ex (\<lambda>n. n_node_id n = rn_node_id rq \<and> n_is_active n) (nodes d)"
      using 2(2) by (auto simp: list_ex_iff)
    then show ?thesis using 2 row [OF 2(1)] by (simp add: upd)
  next
    case (3 old)
    then show ?thesis using select_node [OF 3(1)] by (auto simp: list_ex_iff)
  qed
qed

theorem register_node_effect_witness:
  "nodes_ok (empty_db\<lparr>nodes := [node_of 1 \<lparr>rn_node_id = ''a'', rn_name = None, rn_location_name = None, rn_lat = None, rn_lon = None,
      rn_firmware_version = None, rn_reading_interval = 30\<rparr>]\<rparr>) \<and>
   status (fst (register_node (\<lambda>_. ''t'') 5 \<lparr>rn_node_id = ''a'', rn_name = None, rn_location_name = None, rn_lat = None, rn_lon = None,
      rn_firmware_version = None, rn_reading_interval = 60\<rparr>
     (empty_db\<lparr>nodes := [node_of 1 \<lparr>rn_node_id = ''a'', rn_name = None, rn_location_name = None, rn_lat = None, rn_lon = None,
      rn_firmware_version = None, rn_reading_interval = 30\<rparr>]\<rparr>) NoClient)) = 409"
proof -
  let ?d = "empty_db\<lparr>nodes := [node_of 1 \<lparr>rn_node_id = ''a'', rn_name = None, rn_location_name = None, rn_lat = None, rn_lon = None,
      rn_firmware_version = None, rn_reading_interval = 30\<rparr>]\<rparr>"
  let ?rq = "\<lparr>rn_node_id = ''a'', rn_name = None, rn_location_name = None, rn_lat = None, rn_lon = None,
      rn_firmware_version = None, rn_reading_interval = 60\<rparr>"
  have ok: "nodes_ok ?d"
    by (simp add: nodes_ok_def node_of_def node_row_ok_def node_id_ok_def is_id_char_def is_alpha_def code_def)
  then show ?thesis using register_node_effect [OF ok, where isofmt = "\<lambda>_. ''t''" and now = 5 and rq = ?rq and r = NoClient] by (simp add: split_def node_of_def)
qed

text \<open>
  What is pushed to a device: an update publishes at most once, to that node's configuration topic,
  with the interval the row has after the update and, when the update sets the activation, that
  activation; an update of neither publishes nothing.
\<close>

theorem update_push_follows_row:
  assumes "nodes_ok d" "update_node_request_of env b = Some rq"
    and "update_node isofmt (Some client) False nid rq d r = (Reply 200 doc, sent, d', r')"
  shows "\<exists>row. filter (\<lambda>n. n_node_id n = nid) (nodes d') = [row] \<and>
    sent = (if un_is_active rq = None \<and> un_reading_interval rq = None then []
            else [(''air/node/'' @ nid @ ''/config'',
                   [(''interval_s'', JInt (n_reading_interval row)), (''fuzzy_enabled'', JBool True),
                    (''enabled'', JBool (case un_is_active rq of None \<Rightarrow> True | Some active \<Rightarrow> n_is_active row))])])"
proof -
  obtain old where old: "select_one (\<lambda>n. n_node_id n = nid) (nodes d) = Some old"
    using assms(3) by (cases "select_one (\<lambda>n. n_node_id n = nid) (nodes d)") (auto simp: update_node_def problem_json_def)
  let ?row = "apply_update rq old"
  have mem: "old \<in> set (nodes d)" "n_node_id old = nid" using select_node [OF old] by auto
  have row: "node_row_ok ?row"
    using assms(1) mem update_node_request_ok [OF assms(2)] by (intro apply_update_ok) (auto simp: nodes_ok_def list_all_iff)
  have "d' = d\<lparr>nodes := update_where (\<lambda>n. n_node_id n = nid) (apply_update rq) (nodes d)\<rparr>"
    using update_node_db [of isofmt "Some client" False nid rq d r] assms(3) old by simp
  then have one: "filter (\<lambda>n. n_node_id n = nid) (nodes d') = [?row]"
    using filter_update_same [of n_node_id "apply_update rq" nid "nodes d"] filter_unique [of n_node_id "nodes d" old] assms(1) mem
    by (simp add: nodes_ok_def)
  have push: "push_config (Some client) False nid (n_reading_interval ?row) a =
      (True, [(''air/node/'' @ nid @ ''/config'',
        [(''interval_s'', JInt (n_reading_interval ?row)), (''fuzzy_enabled'', JBool True), (''enabled'', JBool a)])])" for a
    using row mem(2) by (simp add: push_config_def get_registered_def publish_config_def config_topic_def node_row_ok_def)
  have "sent = (case un_is_active rq of
        Some active \<Rightarrow> snd (push_config (Some client) False nid (n_reading_interval ?row) active)
      | None \<Rightarrow> (case un_reading_interval rq of Some i \<Rightarrow> snd (push_config (Some client) False nid i True) | None \<Rightarrow> []))"
    using assms(3) old by (auto simp: update_node_def Let_def split_def split: option.splits)
  then show ?thesis
    using one push by (auto simp: apply_update_def overwrite_def split: option.splits)
qed

definition sleeping_node :: db where
  "sleeping_node = empty_db\<lparr>nodes := [\<lparr>n_node_id = ''a'', n_name = None, n_location_name = None, n_lat = None, n_lon = None,
     n_firmware_version = None, n_reading_interval = 30, n_is_active = False, n_registered_at = 0, n_last_seen = None\<rparr>]\<rparr>"

definition interval_patch :: update_node_request where
  "interval_patch = \<lparr>un_name = None, un_location_name = None, un_lat = None, un_lon = None, un_firmware_version = None,
     un_reading_interval = Some 60, un_is_active = None\<rparr>"

lemma sleeping_node_patched:
  "\<exists>doc d' r'. update_node (\<lambda>_. ''t'') (Some ()) False ''a'' interval_patch sleeping_node NoClient =
     (Reply 200 doc, [(''air/node/a/config'', [(''interval_s'', JInt 60), (''fuzzy_enabled'', JBool True), (''enabled'', JBool True)])], d', r') \<and>
     map n_is_active (nodes d') = [False]"
  by (simp add: update_node_def sleeping_node_def interval_patch_def select_one_def apply_update_def overwrite_def push_config_def
      get_registered_def publish_config_def config_topic_def node_id_ok_def is_id_char_def is_alpha_def code_def update_where_def)

theorem update_push_follows_row_witness:
  "\<exists>doc d' r' row. update_node (\<lambda>_. ''t'') (Some ()) False ''a'' interval_patch sleeping_node NoClient =
      (Reply 200 doc, [(''air/node/a/config'', [(''interval_s'', JInt 60), (''fuzzy_enabled'', JBool True), (''enabled'', JBool True)])], d', r') \<and>
    filter (\<lambda>n. n_node_id n = ''a'') (nodes d') = [row] \<and> n_reading_interval row = 60"
proof -
  obtain doc d' r' where u: "update_node (\<lambda>_. ''t'') (Some ()) False ''a'' interval_patch sleeping_node NoClient =
      (Reply 200 doc, [(''air/node/a/config'', [(''interval_s'', JInt 60), (''fuzzy_enabled'', JBool True), (''enabled'', JBool True)])], d', r')"
    using sleeping_node_patched by blast
  have ok: "nodes_ok sleeping_node"
    by (simp add: nodes_ok_def sleeping_node_def node_row_ok_def node_id_ok_def is_id_char_def is_alpha_def code_def)
  have "update_node_request_of demo_schema_env [(''reading_interval'', JInt 60)] = Some interval_patch" by code_simp
  from update_push_follows_row [OF ok this u] u show ?thesis by (auto simp: interval_patch_def)
qed

end
