(* ===== verification/Fleet.thy ===== *)
theory Fleet imports Nodes Readings begin

text \<open>
  Deactivating a node (\<open>src/api/nodes.py\<close>) as the other parts see it: the device
  (\<open>src/mqtt/config.py\<close>), the ingestion task (\<open>src/tasks/process_reading.py\<close>) and the readings API
  (\<open>src/api/readings.py\<close>).
\<close>

lemma find_filter: "find P xs = (case filter P xs of [] \<Rightarrow> None | x # ys \<Rightarrow> Some x)"
  by (induction xs) auto

lemma latest_cold:
  "st_get now LATEST_CACHE_KEY s = None \<Longrightarrow>
   fst (latest env now d (Client s [])) = Reply 200 (JObj [(''readings'', JList (map (JObj \<circ> latest_from_reading env) (latest_of d)))])"
  by (simp add: latest_def cache_get_json_def cache_get_def redis_get_def command_cases Let_def)

lemma update_node_200:
  assumes "update_node isofmt registry raises nid rq d (Client s []) = (Reply 200 doc, sent, d', r')"
  obtains old where "select_one (\<lambda>n. n_node_id n = nid) (nodes d) = Some old"
    "d' = d\<lparr>nodes := update_where (\<lambda>n. n_node_id n = nid) (apply_update rq) (nodes d)\<rparr>"
    "un_is_active rq \<noteq> None \<Longrightarrow> r' = Client (st_del READINGS_LATEST_KEY (st_del NODES_CACHE_KEY s)) []"
    "\<And>a. un_is_active rq = Some a \<Longrightarrow> sent = snd (push_config registry raises nid (n_reading_interval (apply_update rq old)) a)"
proof -
  obtain old where old: "select_one (\<lambda>n. n_node_id n = nid) (nodes d) = Some old"
    using assms by (cases "select_one (\<lambda>n. n_node_id n = nid) (nodes d)") (auto simp: update_node_def problem_json_def)
  show thesis
    by (rule that [OF old]) (use assms old in \<open>auto simp: update_node_def Let_def split_def cache_delete_up split: option.splits\<close>)
qed

lemma update_node_active:
  assumes "nodes_ok d" "update_node isofmt registry raises nid rq d (Client s []) = (Reply 200 doc, sent, d', r')"
    and "un_is_active rq = Some a"
  shows "active_node d' nid = a"
proof -
  obtain old where old: "select_one (\<lambda>n. n_node_id n = nid) (nodes d) = Some old"
    "d' = d\<lparr>nodes := update_where (\<lambda>n. n_node_id n = nid) (apply_update rq) (nodes d)\<rparr>"
    using update_node_200 [OF assms(2)] by metis
  have "filter (\<lambda>n. n_node_id n = nid) (nodes d') = [apply_update rq old]"
    using filter_update_same [of n_node_id "apply_update rq" nid "nodes d"] filter_unique [of n_node_id "nodes d" old]
      select_node [OF old(1)] assms(1)
    by (simp add: nodes_ok_def old(2))
  then show ?thesis by (simp add: active_node_def select_one_def find_filter apply_update_def overwrite_def assms(3))
qed

text \<open>
  C31: A deactivated node falls silent everywhere: when a PATCH that deactivates it answers 200 while Redis is up, the
  device is told to stop on its own topic (if the listener runs and the publish works), no delivery of its
  readings stores or caches anything any more, and the very next \<open>GET /readings/latest\<close> is
  computed from the table and does not show it.
\<close>

theorem deactivated_node_is_silent:
  assumes "nodes_ok d" "update_node_request_of senv b = Some rq" "un_is_active rq = Some False"
    and run: "update_node isofmt (Some client) False nid rq d (Client s []) = (Reply 200 doc, sent, d', r')"
  shows "(\<exists>interval. sent = [(''air/node/'' @ nid @ ''/config'',
        [(''interval_s'', JInt interval), (''fuzzy_enabled'', JBool True), (''enabled'', JBool False)])]) \<and>
    (get (p_fields payload) ''node_id'' = JStr nid \<longrightarrow> process_reading env t rf payload d' r' = (Inr [], d', r')) \<and>
    fst (latest qenv now d' r') = Reply 200 (JObj [(''readings'', JList (map (JObj \<circ> latest_from_reading qenv) (latest_of d')))]) \<and>
    nid \<notin> set (map s_node_id (latest_of d'))"
proof -
  obtain old where old: "select_one (\<lambda>n. n_node_id n = nid) (nodes d) = Some old"
    and r': "r' = Client (st_del READINGS_LATEST_KEY (st_del NODES_CACHE_KEY s)) []"
    and sent: "sent = snd (push_config (Some client) False nid (n_reading_interval (apply_update rq old)) False)"
    by (rule update_node_200 [OF run]) (use assms(3) in auto)
  have mem: "old \<in> set (nodes d)" "n_node_id old = nid" using select_node [OF old] by auto
  have "node_row_ok (apply_update rq old)"
    using assms(1) mem update_node_request_ok [OF assms(2)] by (intro apply_update_ok) (auto simp: nodes_ok_def list_all_iff)
  then have push: "\<exists>interval. sent = [(''air/node/'' @ nid @ ''/config'',
      [(''interval_s'', JInt interval), (''fuzzy_enabled'', JBool True), (''enabled'', JBool False)])]"
    using mem(2) by (simp add: sent push_config_def get_registered_def publish_config_def config_topic_def node_row_ok_def)
  have off: "\<not> active_node d' nid" using update_node_active [OF assms(1) run assms(3)] by simp
  have task: "process_reading env t rf payload d' r' = (Inr [], d', r')" if "get (p_fields payload) ''node_id'' = JStr nid"
    using that off by (simp add: process_reading_def get_sync_db_def process_body_cases)
  have "st_get now LATEST_CACHE_KEY (st_del READINGS_LATEST_KEY (st_del NODES_CACHE_KEY s)) = None"
    by (simp add: LATEST_CACHE_KEY_def READINGS_LATEST_KEY_def st_get_def map_of_st_del)
  then have fresh: "fst (latest qenv now d' r') = Reply 200 (JObj [(''readings'', JList (map (JObj \<circ> latest_from_reading qenv) (latest_of d')))])"
    unfolding r' by (rule latest_cold)
  have "nid \<notin> set (map s_node_id (latest_of d'))" using off latest_of_member by auto
  with push task fresh show ?thesis by blast
qed

definition off_patch :: update_node_request where
  "off_patch = \<lparr>un_name = None, un_location_name = None, un_lat = None, un_lon = None, un_firmware_version = None,
     un_reading_interval = None, un_is_active = Some False\<rparr>"

theorem deactivated_node_is_silent_witness:
  "\<exists>doc sent d' r'. update_node (\<lambda>_. ''t'') (Some ()) False ''ESP32-01'' off_patch sample_db (Client [] []) = (Reply 200 doc, sent, d', r') \<and>
     process_reading sample_env 5 False sample_payload d' r' = (Inr [], d', r') \<and> ''ESP32-01'' \<notin> set (map s_node_id (latest_of d')) \<and> length sent = 1"
proof -
  obtain doc sent d' r' where run: "update_node (\<lambda>_. ''t'') (Some ()) False ''ESP32-01'' off_patch sample_db (Client [] []) = (Reply 200 doc, sent, d', r')"
    by (simp add: update_node_def sample_defs select_one_def Let_def split_def)
  have ok: "nodes_ok sample_db"
    by (simp add: nodes_ok_def sample_defs node_row_ok_def node_id_ok_def is_id_char_def is_alpha_def is_digit_def code_def)
  have rq: "update_node_request_of demo_schema_env [(''is_active'', JBool False)] = Some off_patch" by code_simp
  have "get (p_fields sample_payload) ''node_id'' = JStr ''ESP32-01''" by (simp add: sample_defs get_def)
  then show ?thesis using run deactivated_node_is_silent [OF ok rq _ run, of sample_payload sample_env 5 False demo_query_env 0]
    by (auto simp: off_patch_def)
qed

end
