(* ===== verification/Websocket.thy ===== *)
theory Websocket imports Jwt Schemas Config begin

text \<open>
  \<open>src/api/ws/manager.py\<close> and \<open>src/api/ws/routes.py\<close>: the registry of open sockets with its broadcast,
  and the handler of \<open>/ws/alerts\<close>, which authenticates before it accepts and closes a socket that
  does not present a fresh token in time.  Sockets and event loops are numbers; \<open>json.loads\<close> and
  \<open>json.dumps\<close> are parameters, monotonic times are microseconds.
\<close>

section \<open>The connection manager\<close>

record manager =
  mg_connections :: "nat list"
  mg_loop :: "nat option"

definition new_manager :: manager where "new_manager = \<lparr>mg_connections = [], mg_loop = None\<rparr>"

text \<open>\<open>running\<close> tells which loops run; \<open>loop\<close> is the one the handler runs on.\<close>

definition ws_connect :: "(nat \<Rightarrow> bool) \<Rightarrow> nat \<Rightarrow> nat \<Rightarrow> manager \<Rightarrow> manager" where
  "ws_connect running loop sock m =
     (let m1 = (case mg_loop m of
                  None \<Rightarrow> m\<lparr>mg_loop := Some loop\<rparr>
                | Some l \<Rightarrow> if \<not> running l then m\<lparr>mg_loop := Some loop\<rparr> else m)
      in m1\<lparr>mg_connections := List.insert sock (mg_connections m1)\<rparr>)"

definition ws_disconnect :: "nat \<Rightarrow> manager \<Rightarrow> manager" where
  "ws_disconnect sock m = m\<lparr>mg_connections := removeAll sock (mg_connections m)\<rparr>"

definition connected_count :: "manager \<Rightarrow> nat" where "connected_count m = length (mg_connections m)"

text \<open>What a broadcast leaves to be sent on the loop.\<close>

record delivery =
  dl_payload :: string
  dl_targets :: "nat list"

definition broadcast :: "('m \<Rightarrow> string option) \<Rightarrow> (nat \<Rightarrow> bool) \<Rightarrow> 'm \<Rightarrow> manager \<Rightarrow> (bool \<times> nat) \<times> delivery option \<times> manager" where
  "broadcast dumps running message m =
     (let connections = mg_connections m in
      case mg_loop m of
        None \<Rightarrow> ((False, 0), None, m)
      | Some loop \<Rightarrow>
          (if connections = [] then ((False, 0), None, m)
           else case dumps message of
             None \<Rightarrow> ((False, length connections), None, m)
           | Some payload \<Rightarrow>
               (if running loop then ((True, length connections), Some \<lparr>dl_payload = payload, dl_targets = connections\<rparr>, m)
                else ((False, length connections), None, m\<lparr>mg_loop := None\<rparr>))))"

text \<open>\<open>sends\<close>: the sends that do not raise.  The answer is who got the payload.\<close>

definition send_all :: "(nat \<Rightarrow> bool) \<Rightarrow> delivery \<Rightarrow> manager \<Rightarrow> nat list \<times> manager" where
  "send_all sends dl m =
     (filter sends (dl_targets dl),
      m\<lparr>mg_connections := filter (\<lambda>ws. ws \<notin> set (filter (\<lambda>t. \<not> sends t) (dl_targets dl))) (mg_connections m)\<rparr>)"

section \<open>The handshake\<close>

definition MAX_WS_BODY :: nat where "MAX_WS_BODY = 4096"
definition REAUTH_INTERVAL :: int where "REAUTH_INTERVAL = minutes 15"

record handshake =
  hs_origin :: "string option"
  hs_authorization :: "string option"
  hs_token :: "string option"

definition ws_access_token :: "handshake \<Rightarrow> string option" where
  "ws_access_token hs =
     (let auth = (case hs_authorization hs of None \<Rightarrow> [] | Some a \<Rightarrow> a) in
      if is_bearer auth then Some (bearer_token auth)
      else case hs_token hs of None \<Rightarrow> None | Some t \<Rightarrow> if t = [] then None else Some t)"

definition is_origin_allowed :: "config_values \<Rightarrow> string option \<Rightarrow> bool" where
  "is_origin_allowed cfg origin =
     (case origin of None \<Rightarrow> True | Some s \<Rightarrow> s \<in> set (cors_origins_list (cf_cors_origins cfg)))"

text \<open>
  What both the handshake and a re-authentication frame do with a token; \<open>dbo\<close> is the database, if it
  answers.
\<close>

datatype verdict = Undecodable | Revoked | NoUser | Admitted

definition ws_check :: "auth_env \<Rightarrow> timestamp \<Rightarrow> db option \<Rightarrow> string \<Rightarrow> rval redis \<Rightarrow> verdict \<times> rval redis" where
  "ws_check env now dbo token r =
     (case decode_access_token env now token of
        Inl e \<Rightarrow> (Undecodable, r)
      | Inr p \<Rightarrow>
          (case is_token_revoked now (get p ''jti'') r of
             (True, r1) \<Rightarrow> (Revoked, r1)
           | (False, r1) \<Rightarrow>
               ((case dbo of
                   None \<Rightarrow> NoUser
                 | Some d \<Rightarrow> (case find_user d (subject p) of None \<Rightarrow> NoUser | Some u \<Rightarrow> if u_is_active u then Admitted else NoUser)), r1)))"

text \<open>The code the handshake is closed with, or \<open>None\<close> when the socket is accepted.\<close>

definition ws_open :: "auth_env \<Rightarrow> config_values \<Rightarrow> timestamp \<Rightarrow> db option \<Rightarrow> handshake \<Rightarrow> rval redis \<Rightarrow> nat option \<times> rval redis" where
  "ws_open env cfg now dbo hs r =
     (if \<not> is_origin_allowed cfg (hs_origin hs) then (Some 4403, r)
      else case ws_access_token hs of
        None \<Rightarrow> (Some 4401, r)
      | Some token \<Rightarrow>
          (case ws_check env now dbo token r of
             (Admitted, r1) \<Rightarrow> (None, r1)
           | (_, r1) \<Rightarrow> (Some 4401, r1)))"

section \<open>The receive loop\<close>

text \<open>\<open>Decoded\<close>: a frame that is neither text nor bytes, with the length of its JSON, if it has one.\<close>

datatype frame = Text string | Bytes nat | Decoded "nat option" | NoFrame | ReceiveRaises

definition frame_size :: "frame \<Rightarrow> nat" where
  "frame_size f =
     (case f of Text s \<Rightarrow> char_len s | Bytes n \<Rightarrow> n | Decoded (Some n) \<Rightarrow> n | Decoded None \<Rightarrow> MAX_WS_BODY + 1 | _ \<Rightarrow> 0)"

text \<open>
  One turn of the loop: the monotonic time when it starts, the frame that comes and when, the wall
  clock and the database the frame meets, and the monotonic time when it has been handled.
\<close>

record turn =
  tn_start :: int
  tn_frame :: "(int \<times> frame) option"
  tn_wall :: timestamp
  tn_db :: "db option"
  tn_done :: int

definition reauth_token :: "(string \<Rightarrow> json option) \<Rightarrow> string \<Rightarrow> string option" where
  "reauth_token loads s =
     (if take 1 (dropWhile is_space s) \<noteq> [CHR 123] then None
      else case loads s of
        None \<Rightarrow> None
      | Some (JObj kvs) \<Rightarrow> (case get kvs ''token'' of JStr t \<Rightarrow> Some t | v \<Rightarrow> if truthy v then None else Some [])
      | Some _ \<Rightarrow> Some [])"

definition reauth :: "auth_env \<Rightarrow> (string \<Rightarrow> json option) \<Rightarrow> turn \<Rightarrow> frame \<Rightarrow> rval redis \<Rightarrow> verdict \<times> rval redis" where
  "reauth env loads t f r =
     (case f of
        Text s \<Rightarrow> (case reauth_token loads s of None \<Rightarrow> (Undecodable, r) | Some token \<Rightarrow> ws_check env (tn_wall t) (tn_db t) token r)
      | _ \<Rightarrow> (Undecodable, r))"

datatype ws_end = ClosedWith nat | PeerLeft

text \<open>\<open>None\<close>: after these turns the socket is still open; the number is the last authentication.\<close>

fun ws_loop :: "auth_env \<Rightarrow> (string \<Rightarrow> json option) \<Rightarrow> int \<Rightarrow> turn list \<Rightarrow> rval redis \<Rightarrow> (ws_end option \<times> int) \<times> rval redis" where
  "ws_loop env loads last_auth [] r = ((None, last_auth), r)"
| "ws_loop env loads last_auth (t # ts) r =
     (let remaining = REAUTH_INTERVAL - (tn_start t - last_auth) in
      if remaining \<le> 0 then ((Some (ClosedWith 4401), last_auth), r)
      else case tn_frame t of
        None \<Rightarrow> ((Some (ClosedWith 4401), last_auth), r)
      | Some (arrival, f) \<Rightarrow>
          (if remaining \<le> arrival - tn_start t then ((Some (ClosedWith 4401), last_auth), r)
           else if f = NoFrame \<or> f = ReceiveRaises then ((Some PeerLeft, last_auth), r)
           else if MAX_WS_BODY < frame_size f then ((Some (ClosedWith 1009), last_auth), r)
           else case reauth env loads t f r of
             (Revoked, r1) \<Rightarrow> ((Some (ClosedWith 4401), last_auth), r1)
           | (Admitted, r1) \<Rightarrow> ws_loop env loads (tn_done t) ts r1
           | (_, r1) \<Rightarrow> ws_loop env loads last_auth ts r1))"

section \<open>The handler among the others\<close>

text \<open>
  The process as a sequence of events: a handshake, a turn of an open socket's loop, a broadcast from
  the MQTT worker, the sends of a delivery.  A session remembers its last authentication; what was
  delivered to whom is recorded.
\<close>

datatype 'm ws_event =
    Handshake nat handshake timestamp "db option" int
  | Turn nat turn
  | Broadcast 'm
  | Send "nat \<Rightarrow> bool"

record ws_process =
  wp_manager :: manager
  wp_sessions :: "(nat \<times> int) list"
  wp_pending :: "delivery list"
  wp_sent :: "(nat \<times> string) list"
  wp_redis :: "rval redis"

record 'm ws_env =
  we_auth :: auth_env
  we_config :: config_values
  we_loads :: "string \<Rightarrow> json option"
  we_dumps :: "'m \<Rightarrow> string option"
  we_running :: "nat \<Rightarrow> bool"
  we_loop :: nat

definition alerts_ws :: "'m ws_env \<Rightarrow> nat \<Rightarrow> handshake \<Rightarrow> timestamp \<Rightarrow> db option \<Rightarrow> int \<Rightarrow> ws_process \<Rightarrow> ws_process" where
  "alerts_ws env sock hs now dbo t0 st =
     (case ws_open (we_auth env) (we_config env) now dbo hs (wp_redis st) of
        (Some refusal, r) \<Rightarrow> st\<lparr>wp_redis := r\<rparr>
      | (None, r) \<Rightarrow>
          st\<lparr>wp_redis := r, wp_manager := ws_connect (we_running env) (we_loop env) sock (wp_manager st),
             wp_sessions := (sock, t0) # wp_sessions st\<rparr>)"

definition ws_turn :: "'m ws_env \<Rightarrow> nat \<Rightarrow> turn \<Rightarrow> ws_process \<Rightarrow> ws_process" where
  "ws_turn env sock t st =
     (case map_of (wp_sessions st) sock of
        None \<Rightarrow> st
      | Some last_auth \<Rightarrow>
          (case ws_loop (we_auth env) (we_loads env) last_auth [t] (wp_redis st) of
             ((None, last'), r) \<Rightarrow> st\<lparr>wp_redis := r, wp_sessions := (sock, last') # filter (\<lambda>p. fst p \<noteq> sock) (wp_sessions st)\<rparr>
           | ((Some e, last'), r) \<Rightarrow>
               st\<lparr>wp_redis := r, wp_manager := ws_disconnect sock (wp_manager st),
                  wp_sessions := filter (\<lambda>p. fst p \<noteq> sock) (wp_sessions st)\<rparr>))"

fun ws_step :: "'m ws_env \<Rightarrow> 'm ws_event \<Rightarrow> ws_process \<Rightarrow> ws_process" where
  "ws_step env (Handshake sock hs now dbo t0) st =
     (if sock \<in> set (map fst (wp_sessions st)) then st else alerts_ws env sock hs now dbo t0 st)"
| "ws_step env (Turn sock t) st = ws_turn env sock t st"
| "ws_step env (Broadcast message) st =
     (case broadcast (we_dumps env) (we_running env) message (wp_manager st) of
        (answer, None, m) \<Rightarrow> st\<lparr>wp_manager := m\<rparr>
      | (answer, Some dl, m) \<Rightarrow> st\<lparr>wp_manager := m, wp_pending := wp_pending st @ [dl]\<rparr>)"
| "ws_step env (Send sends) st =
     (case wp_pending st of
        [] \<Rightarrow> st
      | dl # dls \<Rightarrow>
          (let (got, m) = send_all sends dl (wp_manager st)
           in st\<lparr>wp_manager := m, wp_pending := dls, wp_sent := wp_sent st @ map (\<lambda>s. (s, dl_payload dl)) got\<rparr>))"

section \<open>What an admitted token is\<close>

definition good_token :: "auth_env \<Rightarrow> timestamp \<Rightarrow> db option \<Rightarrow> string \<Rightarrow> bool" where
  "good_token env now dbo token =
     (case (decode_access_token env now token, dbo) of
        (Inr p, Some d) \<Rightarrow> (case find_user d (subject p) of None \<Rightarrow> False | Some u \<Rightarrow> u_is_active u)
      | _ \<Rightarrow> False)"

lemma ws_check_Admitted:
  "ws_check env now dbo token r = (Admitted, r') \<Longrightarrow>
   good_token env now dbo token \<and>
   (\<exists>p. decode_access_token env now token = Inr p \<and> \<not> fst (is_token_revoked now (get p ''jti'') r))"
  by (auto simp: ws_check_def good_token_def split: sum.splits prod.splits bool.splits option.splits if_splits)

lemma ws_open_accepts:
  "ws_open env cfg now dbo hs r = (None, r') \<Longrightarrow>
   is_origin_allowed cfg (hs_origin hs) \<and> (\<exists>token. ws_access_token hs = Some token \<and> good_token env now dbo token)"
  by (auto simp: ws_open_def split: if_splits option.splits prod.splits verdict.splits dest: ws_check_Admitted)

definition renews :: "auth_env \<Rightarrow> (string \<Rightarrow> json option) \<Rightarrow> turn \<Rightarrow> bool" where
  "renews env loads t =
     (case tn_frame t of
        Some (arrival, Text s) \<Rightarrow> (case reauth_token loads s of None \<Rightarrow> False | Some token \<Rightarrow> good_token env (tn_wall t) (tn_db t) token)
      | _ \<Rightarrow> False)"

text \<open>One turn that leaves the socket open.\<close>

lemma ws_loop_open:
  assumes "ws_loop env loads a (t # ts) r = ((None, l), r')"
  obtains arrival f a' r1 where "tn_frame t = Some (arrival, f)" "arrival < a + REAUTH_INTERVAL" "frame_size f \<le> MAX_WS_BODY"
    "a' = a \<or> (a' = tn_done t \<and> renews env loads t)" "ws_loop env loads a' ts r1 = ((None, l), r')"
proof -
  obtain arrival f where f: "tn_frame t = Some (arrival, f)" "arrival < a + REAUTH_INTERVAL" "frame_size f \<le> MAX_WS_BODY"
    using assms by (auto simp: Let_def split: if_splits option.splits)
  obtain v r1 where v: "reauth env loads t f r = (v, r1)" by (cases "reauth env loads t f r")
  have rest: "ws_loop env loads a (t # ts) r = (case v of Revoked \<Rightarrow> ((Some (ClosedWith 4401), a), r1)
      | Admitted \<Rightarrow> ws_loop env loads (tn_done t) ts r1 | _ \<Rightarrow> ws_loop env loads a ts r1)"
    using assms f v by (auto simp: Let_def split: if_splits verdict.splits)
  have "renews env loads t" if "v = Admitted"
    using v that f(1) by (auto simp: reauth_def renews_def split: frame.splits option.splits dest: ws_check_Admitted)
  then show thesis using that [OF f, of "if v = Admitted then tn_done t else a" r1] assms rest
    by (cases v) (simp_all only: verdict.case verdict.simps if_True if_False, auto)
qed

section \<open>Properties\<close>

text \<open>
  C33: No socket outlives its authentication: in a socket that is still open every frame came less than
  fifteen minutes after the handshake or after the end of an earlier turn whose frame carried a token
  that decoded to an active account, and no other frame, whatever it held, moved that deadline; nor was
  any frame larger than the cap.
\<close>

theorem ws_deadline:
  assumes "ws_loop env loads opened (before_turns @ t # later) r = ((None, last_auth), r')"
  shows "\<exists>arrival f auth. tn_frame t = Some (arrival, f) \<and> arrival < auth + minutes 15 \<and> frame_size f \<le> 4096 \<and>
    (auth = opened \<or> (\<exists>t' \<in> set before_turns. auth = tn_done t' \<and> renews env loads t'))"
  using assms
proof (induction before_turns arbitrary: opened r)
  case Nil
  then have "ws_loop env loads opened (t # later) r = ((None, last_auth), r')" by simp
  then show ?case by (rule ws_loop_open) (auto simp: REAUTH_INTERVAL_def MAX_WS_BODY_def)
next
  case (Cons b bs)
  then have "ws_loop env loads opened (b # (bs @ t # later)) r = ((None, last_auth), r')" by simp
  then obtain a' r1 where a': "a' = opened \<or> (a' = tn_done b \<and> renews env loads b)"
    and "ws_loop env loads a' (bs @ t # later) r1 = ((None, last_auth), r')"
    by (rule ws_loop_open)
  from Cons.IH [OF this(2)] a' show ?case by fastforce
qed

definition demo_turns :: "turn list" where
  "demo_turns =
     [\<lparr>tn_start = 0, tn_frame = Some (minutes 10, Text ''{}''), tn_wall = 0, tn_db = Some demo_db, tn_done = minutes 10\<rparr>,
      \<lparr>tn_start = minutes 10, tn_frame = Some (minutes 24, Bytes 3), tn_wall = 0, tn_db = None, tn_done = minutes 24\<rparr>]"

theorem ws_deadline_witness:
  "fst (ws_loop demo_auth (\<lambda>_. Some (JObj [(''token'', JStr ''tok'')])) 0 demo_turns (Client [] [])) = (None, minutes 10) \<and>
   (\<exists>auth. minutes 24 < auth + minutes 15 \<and> auth = minutes 10)"
proof -
  let ?loads = "\<lambda>_. Some (JObj [(''token'', JStr ''tok'')])"
  let ?run = "ws_loop demo_auth ?loads 0 demo_turns (Client [] [])"
  have run: "fst ?run = (None, minutes 10)" by code_simp
  then obtain r' where "?run = ((None, minutes 10), r')" by (cases ?run) auto
  then have "ws_loop demo_auth ?loads 0 ([hd demo_turns] @ demo_turns ! 1 # []) (Client [] []) = ((None, minutes 10), r')"
    by (simp add: demo_turns_def)
  from ws_deadline [OF this] show ?thesis using run by (auto simp: demo_turns_def minutes_def seconds_def)
qed

text \<open>The invariant of a run: whoever is connected, targeted or served has opened a session in it.\<close>

definition admitted_in :: "'m ws_env \<Rightarrow> 'm ws_event list \<Rightarrow> nat \<Rightarrow> bool" where
  "admitted_in env evs sock =
     (\<exists>hs now dbo t0 token. Handshake sock hs now dbo t0 \<in> set evs \<and> is_origin_allowed (we_config env) (hs_origin hs) \<and>
        ws_access_token hs = Some token \<and> good_token (we_auth env) now dbo token)"

definition ws_ok :: "'m ws_env \<Rightarrow> 'm ws_event list \<Rightarrow> ws_process \<Rightarrow> bool" where
  "ws_ok env evs st \<longleftrightarrow>
     distinct (mg_connections (wp_manager st)) \<and>
     set (mg_connections (wp_manager st)) \<subseteq> set (map fst (wp_sessions st)) \<and>
     (\<forall>sock \<in> set (map fst (wp_sessions st)). admitted_in env evs sock) \<and>
     (\<forall>dl \<in> set (wp_pending st). \<forall>sock \<in> set (dl_targets dl). admitted_in env evs sock) \<and>
     (\<forall>x \<in> set (wp_sent st). admitted_in env evs (fst x))"

lemma admitted_in_mono: "admitted_in env evs sock \<Longrightarrow> admitted_in env (evs @ [e]) sock"
  by (auto simp: admitted_in_def)

lemma ws_ok_mono: "ws_ok env evs st \<Longrightarrow> ws_ok env (evs @ [e]) st"
  unfolding ws_ok_def using admitted_in_mono by blast

lemma ws_connect_connections [simp]: "mg_connections (ws_connect running l sock m) = List.insert sock (mg_connections m)"
  by (simp add: ws_connect_def Let_def split: option.splits)

lemma ws_connect_loop: "running l \<Longrightarrow> \<exists>l'. mg_loop (ws_connect running l sock m) = Some l' \<and> running l'"
  by (cases "mg_loop m") (auto simp: ws_connect_def Let_def)

lemma ws_step_Handshake:
  assumes "ws_ok env evs st"
  shows "ws_ok env (evs @ [Handshake sock hs now dbo t0]) (ws_step env (Handshake sock hs now dbo t0) st)"
proof (cases "ws_open (we_auth env) (we_config env) now dbo hs (wp_redis st)")
  case (Pair refusal r)
  note ok = ws_ok_mono [OF assms, of "Handshake sock hs now dbo t0"]
  have "admitted_in env (evs @ [Handshake sock hs now dbo t0]) sock" if "refusal = None"
    using ws_open_accepts Pair that unfolding admitted_in_def by fastforce
  then show ?thesis using ok Pair by (cases refusal) (auto simp: ws_ok_def alerts_ws_def)
qed

lemma ws_step_ok:
  assumes "ws_ok env evs st"
  shows "ws_ok env (evs @ [e]) (ws_step env e st)"
proof (cases e)
  case (Handshake sock hs now dbo t0)
  then show ?thesis using ws_step_Handshake [OF assms] by simp
next
  case (Turn sock t)
  have "admitted_in env (evs @ [e]) sock" if "map_of (wp_sessions st) sock = Some a" for a
    using ws_ok_mono [OF assms, of e] map_of_SomeD [OF that] by (force simp: ws_ok_def)
  then show ?thesis using Turn ws_ok_mono [OF assms, of e]
    by (auto simp: ws_ok_def ws_turn_def ws_disconnect_def distinct_removeAll simp del: ws_loop.simps dest: map_of_SomeD
        split: option.splits prod.splits)
next
  case (Broadcast message)
  then show ?thesis using ws_ok_mono [OF assms, of e]
    by (auto simp: ws_ok_def broadcast_def Let_def subset_iff split: option.splits if_splits)
next
  case (Send sends)
  then show ?thesis using ws_ok_mono [OF assms, of e]
    by (auto simp: ws_ok_def send_all_def Let_def subset_iff split: list.splits)
qed

definition fresh_process :: "rval redis \<Rightarrow> ws_process" where
  "fresh_process r = \<lparr>wp_manager = new_manager, wp_sessions = [], wp_pending = [], wp_sent = [], wp_redis = r\<rparr>"

lemma ws_run_ok: "ws_ok env evs (fold (ws_step env) evs (fresh_process r))"
proof (induction evs rule: rev_induct)
  case Nil
  then show ?case by (simp add: ws_ok_def fresh_process_def new_manager_def)
next
  case (snoc e evs)
  then show ?case using ws_step_ok by simp
qed

text \<open>
  C34: Alerts go to authenticated clients only, whatever the order of handshakes, frames, broadcasts,
  sends and failures: everyone a payload was delivered to has opened a socket in this run from an
  allowed origin, with a token that decoded to an active account; and the registry holds
  only open sockets, each once.
\<close>

theorem alerts_only_authenticated:
  "let st = fold (ws_step env) evs (fresh_process r) in
    list_all (\<lambda>(sock, payload). admitted_in env evs sock) (wp_sent st) \<and>
    distinct (mg_connections (wp_manager st)) \<and> set (mg_connections (wp_manager st)) \<subseteq> set (map fst (wp_sessions st))"
  using ws_run_ok [of env evs r] by (auto simp: ws_ok_def list_all_iff Let_def)

text \<open>
  A broadcast survives a dead event loop: whatever loop was recorded, after one broadcast (which may
  fail) and one client connecting on a running loop, a message that can be serialised is
  scheduled for every connected client; sending it serves exactly those whose send works, and
  exactly those stay registered.
\<close>

theorem broadcast_recovers:
  assumes "running l" "dumps message = Some payload"
  shows "let m = ws_connect running l sock (snd (snd (broadcast dumps running first m0)));
      dl = \<lparr>dl_payload = payload, dl_targets = mg_connections m\<rparr> in
    broadcast dumps running message m = ((True, connected_count m), Some dl, m) \<and> sock \<in> set (mg_connections m) \<and>
    fst (send_all sends dl m) = filter sends (mg_connections m) \<and> mg_connections (snd (send_all sends dl m)) = filter sends (mg_connections m)"
proof -
  define m where "m = ws_connect running l sock (snd (snd (broadcast dumps running first m0)))"
  obtain l' where l': "mg_loop m = Some l'" "running l'"
    unfolding m_def using ws_connect_loop [where running = running and l = l, OF assms(1)] by blast
  have sock: "sock \<in> set (mg_connections m)" by (simp add: m_def)
  then have "broadcast dumps running message m = ((True, connected_count m), Some \<lparr>dl_payload = payload, dl_targets = mg_connections m\<rparr>, m)"
    using l' assms(2) by (auto simp: broadcast_def connected_count_def Let_def)
  then show ?thesis unfolding m_def [symmetric] Let_def using sock by (auto simp: send_all_def intro!: filter_cong)
qed

theorem broadcast_recovers_witness:
  "let m = ws_connect (\<lambda>l. l = 2) 2 9 (snd (snd (broadcast Some (\<lambda>l. l = 2) ''lost'' \<lparr>mg_connections = [7, 8], mg_loop = Some 1\<rparr>))) in
    fst (broadcast Some (\<lambda>l. l = 2) ''alert'' m) = (True, 3) \<and>
    mg_connections (snd (send_all (\<lambda>s. s \<noteq> 8) \<lparr>dl_payload = ''alert'', dl_targets = mg_connections m\<rparr> m)) = [9, 7]"
proof -
  have "(\<lambda>l. l = 2) (2 :: nat)" "Some ''alert'' = Some ''alert''" by simp_all
  from broadcast_recovers [where running = "\<lambda>l. l = 2" and dumps = Some, OF this, of 9 "''lost''" "\<lparr>mg_connections = [7, 8], mg_loop = Some 1\<rparr>" "\<lambda>s. s \<noteq> 8"]
  show ?thesis by (simp add: Let_def broadcast_def ws_connect_def connected_count_def)
qed

end
