(* ===== verification/Lockout.thy ===== *)
theory Lockout imports Sessions Websocket begin

text \<open>
  Logout (\<open>src/api/auth.py\<close>) seen from every place that takes an access token: the route decorators of
  \<open>src/api/jwt.py\<close>, the handshake and the re-authentication frames of \<open>src/api/ws/routes.py\<close>.
\<close>

lemma logout_redis:
  assumes "logout env now auth token d r = (Reply n x, d', r')"
  shows "r' = revoke_presented env now auth r"
  using assms by (auto simp: logout_def unhandled_def problem_json_def Let_def split: sum.splits option.splits)

lemma ws_check_revoked:
  "decode_access_token env now token = Inr p \<Longrightarrow> is_token_revoked now (get p ''jti'') r = (True, r') \<Longrightarrow>
   ws_check env now dbo token r = (Revoked, r')"
  by (simp add: ws_check_def)

lemma ws_open_revoked:
  "ws_access_token hs = Some token \<Longrightarrow> ws_check env now dbo token r = (Revoked, r') \<Longrightarrow> fst (ws_open env cfg now dbo hs r) \<noteq> None"
  by (auto simp: ws_open_def)

lemma ws_loop_revoked:
  assumes "tn_frame t = Some (arrival, Text s)" "reauth_token loads s = Some token"
    and "ws_check env (tn_wall t) (tn_db t) token r = (Revoked, r')"
  shows "fst (fst (ws_loop env loads a (t # ts) r)) \<noteq> None"
  using assms by (simp add: Let_def reauth_def)



end
