(* ===== verification/Csv.thy ===== *)
theory Csv imports Main begin

text \<open>
  Rows of Python's \<open>csv.writer\<close> with its default quoting and CRLF line ends, and a reader of that
  format as the reference: a state machine over the characters.
\<close>

section \<open>Writing\<close>

definition dquote :: char where "dquote = CHR 0x22"
definition cr :: char where "cr = CHR 0x0D"
definition lf :: char where "lf = CHR 0x0A"

lemma special_chars [simp]: "dquote \<noteq> CHR '',''" "CHR '','' \<noteq> dquote" "dquote \<noteq> cr" "cr \<noteq> dquote" "dquote \<noteq> lf" "lf \<noteq> dquote"
  "cr \<noteq> CHR '',''" "CHR '','' \<noteq> cr" "lf \<noteq> CHR '',''" "CHR '','' \<noteq> lf" "cr \<noteq> lf" "lf \<noteq> cr"
  by (simp_all add: dquote_def cr_def lf_def)

definition needs_quotes :: "string \<Rightarrow> bool" where
  "needs_quotes s = list_ex (\<lambda>c. c = CHR '','' \<or> c = dquote \<or> c = cr \<or> c = lf) s"

definition doubled :: "string \<Rightarrow> string" where
  "doubled s = concat (map (\<lambda>c. if c = dquote then [dquote, dquote] else [c]) s)"

definition csv_field :: "string \<Rightarrow> string" where
  "csv_field s = (if needs_quotes s then [dquote] @ doubled s @ [dquote] else s)"

fun csv_cells :: "string list \<Rightarrow> string" where
  "csv_cells [] = []"
| "csv_cells [x] = csv_field x"
| "csv_cells (x # y # xs) = csv_field x @ CHR '','' # csv_cells (y # xs)"

text \<open>A row of one empty cell is written with quotes.\<close>

definition csv_row :: "string list \<Rightarrow> string" where
  "csv_row cells = (if cells = [[]] then [dquote, dquote] else csv_cells cells) @ [cr, lf]"

section \<open>Reading\<close>

datatype mode = Start | Plain | Quoted | Closing | Line_End

text \<open>The mode, the current field (reversed), the current row (reversed) and the rows (reversed).\<close>

type_synonym reader = "mode \<times> string \<times> string list \<times> string list list"

fun read_char :: "char \<Rightarrow> reader \<Rightarrow> reader" where
  "read_char c (Quoted, f, row, rows) = (if c = dquote then (Closing, f, row, rows) else (Quoted, c # f, row, rows))"
| "read_char c (Line_End, f, row, rows) = (Start, [], [], rev row # rows)"
| "read_char c (m, f, row, rows) =
     (if c = CHR '','' then (Start, [], rev f # row, rows)
      else if c = cr then (Line_End, [], rev f # row, rows)
      else if c = dquote then (Quoted, (if m = Closing then dquote # f else f), row, rows)
      else (Plain, c # f, row, rows))"

definition csv_parse :: "string \<Rightarrow> string list list" where
  "csv_parse s = (case fold read_char s (Start, [], [], []) of (m, f, row, rows) \<Rightarrow> rev rows)"

section \<open>Reading what was written\<close>

lemma fold_doubled: "fold read_char (doubled s) (Quoted, f, row, rows) = (Quoted, rev s @ f, row, rows)"
  by (induction s arbitrary: f) (auto simp: doubled_def)

lemma fold_plain:
  "\<not> needs_quotes s \<Longrightarrow> m \<in> {Start, Plain} \<Longrightarrow>
   fold read_char s (m, f, row, rows) = ((if s = [] then m else Plain), rev s @ f, row, rows)"
  by (induction s arbitrary: m f) (auto simp: needs_quotes_def)

lemma fold_field:
  "\<exists>m \<in> {Start, Plain, Closing}. fold read_char (csv_field s) (Start, [], row, rows) = (m, rev s, row, rows)"
proof (cases "needs_quotes s")
  case True
  then show ?thesis by (simp add: csv_field_def fold_doubled)
next
  case False
  then show ?thesis using fold_plain [OF False, of Start "[]" row rows] by (simp add: csv_field_def)
qed

lemma read_comma: "m \<in> {Start, Plain, Closing} \<Longrightarrow> read_char (CHR '','') (m, f, row, rows) = (Start, [], rev f # row, rows)"
  by auto

lemma read_cr: "m \<in> {Start, Plain, Closing} \<Longrightarrow> read_char cr (m, f, row, rows) = (Line_End, [], rev f # row, rows)"
  by auto

lemma fold_cells:
  "xs \<noteq> [] \<Longrightarrow> fold read_char (csv_cells xs @ [cr, lf]) (Start, [], row, rows) = (Start, [], [], (rev row @ xs) # rows)"
proof (induction xs arbitrary: row rule: csv_cells.induct)
  case (2 x)
  obtain m where "m \<in> {Start, Plain, Closing}" "fold read_char (csv_field x) (Start, [], row, rows) = (m, rev x, row, rows)"
    using fold_field by blast
  then show ?case by (simp add: read_cr)
next
  case (3 x y xs)
  obtain m where "m \<in> {Start, Plain, Closing}" "fold read_char (csv_field x) (Start, [], row, rows) = (m, rev x, row, rows)"
    using fold_field by blast
  then show ?case using "3.IH" [of "x # row"] by (simp add: read_comma)
qed simp

lemma fold_row: "xs \<noteq> [] \<Longrightarrow> fold read_char (csv_row xs) (Start, [], [], rows) = (Start, [], [], xs # rows)"
  using fold_cells [of xs "[]" rows] by (auto simp: csv_row_def)

lemma fold_rows: "[] \<notin> set rs \<Longrightarrow> fold read_char (concat (map csv_row rs)) (Start, [], [], rows) = (Start, [], [], rev rs @ rows)"
  by (induction rs arbitrary: rows) (auto simp: fold_row)

text \<open>The reader gives back every list of non-empty rows.\<close>

lemma csv_roundtrip: "[] \<notin> set rs \<Longrightarrow> csv_parse (concat (map csv_row rs)) = rs"
  by (simp add: csv_parse_def fold_rows)

end
