(* ===== verification/Export.thy ===== *)
theory Export imports Readings Csv begin

text \<open>
  \<open>src/api/export.py\<close>: the CSV export of raw readings, streamed in chunks under a time limit, behind a
  per-user cooldown in Redis.  \<open>xe_float\<close> is Python's \<open>str\<close> of a float, \<open>xe_stamp\<close> the time stamp of
  file names; the clock is the time passed at each row of the stream.
\<close>

definition MAX_EXPORT_SPAN :: int where "MAX_EXPORT_SPAN = days 365"
definition CHUNK_BYTES :: nat where "CHUNK_BYTES = 64 * 1024"

record export_env =
  xe_query :: query_env
  xe_cooldown :: int
  xe_timeout :: int
  xe_float :: "rat \<Rightarrow> string"
  xe_stamp :: "timestamp \<Rightarrow> string"

section \<open>The cooldown\<close>

text \<open>\<open>TTL\<close>: seconds left, rounded; -1 without an expiry, -2 without the key.\<close>

definition st_ttl :: "timestamp \<Rightarrow> string \<Rightarrow> 'v store \<Rightarrow> int" where
  "st_ttl now k s =
     (case map_of s k of
        None \<Rightarrow> - 2
      | Some (v, e) \<Rightarrow> if \<not> live now e then - 2 else (case e of None \<Rightarrow> - 1 | Some t \<Rightarrow> (t - now + 500000) div 1000000))"

definition redis_ttl :: "timestamp \<Rightarrow> string \<Rightarrow> 'v redis \<Rightarrow> (py_error + int) \<times> 'v redis" where
  "redis_ttl now k = command (\<lambda>s. (st_ttl now k s, s))"

definition export_cooldown_key :: "int \<Rightarrow> string" where
  "export_cooldown_key user_id = ''export:cooldown:'' @ string_of_int user_id"

text \<open>\<open>None\<close>: the export may proceed; otherwise the seconds to wait.\<close>

definition check_export_cooldown :: "int \<Rightarrow> timestamp \<Rightarrow> int \<Rightarrow> rval redis \<Rightarrow> int option \<times> rval redis" where
  "check_export_cooldown cooldown now user_id r =
     (if cooldown \<le> 0 then (None, r)
      else if r = NoClient then (None, r)
      else let key = export_cooldown_key user_id in
        case redis_setnx now key cooldown (RText ''1'') r of
          (Inl e, r1) \<Rightarrow> (None, r1)
        | (Inr True, r1) \<Rightarrow> (None, r1)
        | (Inr False, r1) \<Rightarrow>
            (case redis_ttl now key r1 of
               (Inl e, r2) \<Rightarrow> (None, r2)
             | (Inr ttl, r2) \<Rightarrow> (Some (max ttl 1), r2)))"

section \<open>Rows\<close>

definition CSV_COLUMNS :: "string list" where
  "CSV_COLUMNS =
     [''time'', ''node_id'', ''temperature'', ''humidity'', ''pressure'', ''voc_ohm'', ''mq135_ppm'', ''pm1'', ''pm25'', ''pm10'',
      ''battery_v'', ''fuzzy_score'', ''aqi'', ''aqi_category'', ''is_anomaly'']"

definition opt_cell :: "('a \<Rightarrow> string) \<Rightarrow> 'a option \<Rightarrow> string" where
  "opt_cell f x = (case x of None \<Rightarrow> [] | Some v \<Rightarrow> f v)"

definition bool_cell :: "bool \<Rightarrow> string" where
  "bool_cell b = (if b then ''true'' else ''false'')"

definition format_row :: "export_env \<Rightarrow> reading \<Rightarrow> string list" where
  "format_row env r =
     [qe_iso (xe_query env) (s_time r), s_node_id r, opt_cell (xe_float env) (s_temperature r), opt_cell (xe_float env) (s_humidity r),
      opt_cell (xe_float env) (s_pressure r), opt_cell (xe_float env) (s_voc_ohm r), opt_cell (xe_float env) (s_mq135_ppm r),
      opt_cell (xe_float env) (s_pm1 r), opt_cell (xe_float env) (s_pm25 r), opt_cell (xe_float env) (s_pm10 r),
      opt_cell (xe_float env) (s_battery_v r), opt_cell (xe_float env) (s_fuzzy_score r), opt_cell string_of_int (s_aqi r),
      opt_cell (\<lambda>s. s) (s_aqi_category r), bool_cell (s_is_anomaly r)]"

definition CSV_HEADER :: string where "CSV_HEADER = csv_row CSV_COLUMNS"

definition TRUNCATED_SENTINEL :: string where
  "TRUNCATED_SENTINEL = ''# TRUNCATED: export exceeded the server timeout '' @ emdash @ '' data is INCOMPLETE''"

section \<open>Chunks\<close>

text \<open>The rows still to come, each with the time passed when it arrives; \<open>buf\<close> is what is buffered.\<close>

fun csv_loop :: "export_env \<Rightarrow> string \<Rightarrow> (reading \<times> int) list \<Rightarrow> string list" where
  "csv_loop env buf [] = (if buf = [] then [] else [buf])"
| "csv_loop env buf ((r, elapsed) # rs) =
     (if seconds (xe_timeout env) < elapsed then [buf, csv_row [TRUNCATED_SENTINEL]]
      else let buf' = buf @ csv_row (format_row env r) in
        if CHUNK_BYTES \<le> length buf' then buf' # csv_loop env [] rs else csv_loop env buf' rs)"

definition csv_chunks :: "export_env \<Rightarrow> (nat \<Rightarrow> int) \<Rightarrow> reading list \<Rightarrow> string list" where
  "csv_chunks env clock rows = csv_loop env CSV_HEADER (zip rows (map clock [0..<length rows]))"

definition stream_rows :: "timestamp \<Rightarrow> timestamp \<Rightarrow> string option \<Rightarrow> db \<Rightarrow> reading list" where
  "stream_rows from_dt to_dt node_id d =
     sort_key (\<lambda>r. (s_time r, s_node_id r)) (select_where (matches_query from_dt to_dt node_id) (readings d))"

section \<open>The route\<close>

record export_args =
  xa_from :: "string option"
  xa_to :: "string option"
  xa_node_id :: "string option"

definition export :: "export_env \<Rightarrow> timestamp \<Rightarrow> (nat \<Rightarrow> int) \<Rightarrow> int option \<Rightarrow> export_args \<Rightarrow> db \<Rightarrow> rval redis
    \<Rightarrow> string list answer \<times> rval redis" where
  "export env now clock user_id args d r =
     (case parse_range (xe_query env) now (xa_from args) (xa_to args) of
        Inl detail \<Rightarrow> ((unprocessable detail, []), r)
      | Inr (from_dt, to_dt) \<Rightarrow>
          (if to_dt \<le> from_dt then ((unprocessable (quoted ''from'' @ '' must be earlier than '' @ quoted ''to''), []), r)
           else if MAX_EXPORT_SPAN < to_dt - from_dt then ((unprocessable ''range exceeds the maximum export span of 365 days'', []), r)
           else if blank (xa_node_id args) then ((blank_node, []), r)
           else case (case user_id of None \<Rightarrow> (None, r) | Some u \<Rightarrow> check_export_cooldown (xe_cooldown env) now u r) of
             (Some retry_after, r1) \<Rightarrow>
               ((problem_json 429 ''Too Many Requests'' (''Export already requested '' @ emdash @ '' retry in '' @ string_of_int retry_after @ '' seconds''), []), r1)
           | (None, r1) \<Rightarrow>
               ((Reply 200 (csv_chunks env clock (stream_rows from_dt to_dt (xa_node_id args) d)),
                 [(''Content-Disposition'', ''attachment; filename='' @ [dquote] @ ''readings_export_'' @ xe_stamp env from_dt @ ''_'' @
                     xe_stamp env to_dt @ ''.csv'' @ [dquote]),
                  (''Cache-Control'', ''no-store'')]), r1)))"

section \<open>What the chunks add up to\<close>

definition in_time :: "export_env \<Rightarrow> reading \<times> int \<Rightarrow> bool" where
  "in_time env x = (snd x \<le> seconds (xe_timeout env))"

lemma csv_loop_concat:
  "concat (csv_loop env buf rs) =
     buf @ concat (map csv_row (map (format_row env \<circ> fst) (takeWhile (in_time env) rs) @
       (if list_all (in_time env) rs then [] else [[TRUNCATED_SENTINEL]])))"
  by (induction env buf rs rule: csv_loop.induct) (auto simp: in_time_def Let_def)

lemma format_row_nonempty [simp]: "format_row env r \<noteq> []" "[] \<noteq> format_row env r"
  by (simp_all add: format_row_def)

lemma csv_chunks_parse:
  "csv_parse (concat (csv_chunks env clock rows)) =
     CSV_COLUMNS # map (format_row env \<circ> fst) (takeWhile (in_time env) (zip rows (map clock [0..<length rows]))) @
       (if list_all (in_time env) (zip rows (map clock [0..<length rows])) then [] else [[TRUNCATED_SENTINEL]])"
proof -
  let ?z = "zip rows (map clock [0..<length rows])"
  let ?rs = "CSV_COLUMNS # map (format_row env \<circ> fst) (takeWhile (in_time env) ?z) @ (if list_all (in_time env) ?z then [] else [[TRUNCATED_SENTINEL]])"
  have "[] \<notin> set ?rs" by (auto simp: CSV_COLUMNS_def)
  moreover have "concat (csv_chunks env clock rows) = concat (map csv_row ?rs)"
    by (simp add: csv_chunks_def csv_loop_concat CSV_HEADER_def)
  ultimately show ?thesis using csv_roundtrip by metis
qed

text \<open>A claimed slot, seen later.\<close>

lemma cooldown_claim:
  assumes "0 < c" "check_export_cooldown c t u (Client s []) = (None, r)"
  shows "\<exists>s'. r = Client s' [] \<and> map_of s' (export_cooldown_key u) = Some (RText ''1'', Some (t + seconds c)) \<and>
    (\<forall>k. k \<noteq> export_cooldown_key u \<longrightarrow> map_of s' k = map_of s k)"
proof -
  have free: "st_get t (export_cooldown_key u) s = None"
  proof (rule ccontr)
    assume "st_get t (export_cooldown_key u) s \<noteq> None"
    then have "redis_setnx t (export_cooldown_key u) c (RText ''1'') (Client s []) = (Inr False, Client s [])"
      by (simp add: redis_setnx_def command_cases st_setnx_def)
    then show False using assms by (simp add: check_export_cooldown_def redis_ttl_def command_cases Let_def)
  qed
  let ?s = "st_setex t (export_cooldown_key u) c (RText ''1'') s"
  have "r = Client ?s []"
    using assms free by (simp add: check_export_cooldown_def redis_setnx_def command_cases st_setnx_def Let_def)
  then show ?thesis by (auto simp: st_setex_def st_set_def map_of_st_del)
qed

lemma cooldown_key_inj: "export_cooldown_key u = export_cooldown_key v \<longleftrightarrow> u = v"
  using string_of_int_inj by (auto simp: export_cooldown_key_def)

lemma cooldown_held:
  assumes "0 < c" "map_of s (export_cooldown_key u) = Some (RText ''1'', Some (t + seconds c))" "t \<le> now" "now < t + seconds c"
  shows "\<exists>wait. check_export_cooldown c now u (Client s []) = (Some wait, Client s []) \<and> 1 \<le> wait \<and> wait \<le> c"
proof -
  have "st_get now (export_cooldown_key u) s \<noteq> None" using assms by (simp add: st_get_def live_def)
  then have nx: "redis_setnx now (export_cooldown_key u) c (RText ''1'') (Client s []) = (Inr False, Client s [])"
    by (simp add: redis_setnx_def command_cases st_setnx_def)
  let ?ttl = "(t + seconds c - now + 500000) div 1000000"
  have "st_ttl now (export_cooldown_key u) s = ?ttl" using assms by (simp add: st_ttl_def live_def)
  then have "check_export_cooldown c now u (Client s []) = (Some (max ?ttl 1), Client s [])"
    using assms(1) nx by (simp add: check_export_cooldown_def redis_ttl_def command_cases Let_def)
  moreover have "?ttl \<le> c" using assms(3) by (simp add: seconds_def)
  ultimately show ?thesis using assms(1) by auto
qed

section \<open>Properties\<close>

text \<open>
  C23: An export is complete or says that it is not: the chunks of a 200, joined and read as CSV, are the
  column names and then the matching readings in the order of time and node, one row each, up
  to the first that arrived after the time limit; if there was one, a single-cell row that
  no reading can produce ends the file, otherwise every matching reading is there.
\<close>

theorem export_complete_or_marked:
  assumes "export env now clock user_id args d r = ((Reply 200 chunks, hdrs), r')"
  shows "\<exists>from_dt to_dt rows. parse_range (xe_query env) now (xa_from args) (xa_to args) = Inr (from_dt, to_dt) \<and>
    0 < to_dt - from_dt \<and> to_dt - from_dt \<le> days 365 \<and>
    rows = sort_key (\<lambda>r. (s_time r, s_node_id r)) (select_where (matches_query from_dt to_dt (xa_node_id args)) (readings d)) \<and>
    csv_parse (concat chunks) =
      (if list_all (\<lambda>i. clock i \<le> seconds (xe_timeout env)) [0..<length rows] then CSV_COLUMNS # map (format_row env) rows
       else CSV_COLUMNS # map (format_row env) (take (length (takeWhile (\<lambda>i. clock i \<le> seconds (xe_timeout env)) [0..<length rows])) rows) @
         [[TRUNCATED_SENTINEL]]) \<and>
    length (format_row env any) = 15"
proof -
  from assms obtain from_dt to_dt where rng: "parse_range (xe_query env) now (xa_from args) (xa_to args) = Inr (from_dt, to_dt)"
    and span: "from_dt < to_dt" "to_dt - from_dt \<le> MAX_EXPORT_SPAN"
    and chunks: "chunks = csv_chunks env clock (stream_rows from_dt to_dt (xa_node_id args) d)"
    by (auto simp: export_def unprocessable_def problem_json_def blank_node_def
        split: sum.splits if_splits prod.splits option.splits)
  let ?rows = "stream_rows from_dt to_dt (xa_node_id args) d"
  let ?idx = "[0..<length ?rows]" and ?ok = "\<lambda>i. clock i \<le> seconds (xe_timeout env)"
  let ?z = "zip ?rows (map clock ?idx)"
  have "list_all (in_time env) (zip xs (map clock ys)) = list_all ?ok ys" if "length xs = length ys" for xs :: "reading list" and ys
    using that by (induction xs ys rule: list_induct2) (auto simp: in_time_def)
  then have all: "list_all (in_time env) ?z = list_all ?ok ?idx" by simp
  have "takeWhile (in_time env) (zip xs (map clock ys)) = take (length (takeWhile ?ok ys)) (zip xs (map clock ys))"
    if "length xs = length ys" for xs :: "reading list" and ys
    using that by (induction xs ys rule: list_induct2) (auto simp: in_time_def)
  then have tw: "takeWhile (in_time env) ?z = take (length (takeWhile ?ok ?idx)) ?z" by simp
  have "map (format_row env \<circ> fst) (takeWhile (in_time env) ?z) = map (format_row env) (take (length (takeWhile ?ok ?idx)) ?rows)"
    unfolding tw by (simp add: take_map [symmetric] map_map [symmetric] del: map_map)
  moreover have "take (length (takeWhile ?ok ?idx)) ?rows = ?rows" if "list_all ?ok ?idx"
  proof -
    have "takeWhile ?ok ?idx = ?idx" using that by (simp only: takeWhile_eq_all_conv list_all_iff)
    then show ?thesis by (simp only: length_upt take_all)
  qed
  ultimately have "csv_parse (concat chunks) =
      (if list_all ?ok ?idx then CSV_COLUMNS # map (format_row env) ?rows
       else CSV_COLUMNS # map (format_row env) (take (length (takeWhile ?ok ?idx)) ?rows) @ [[TRUNCATED_SENTINEL]])"
    unfolding chunks csv_chunks_parse all by (cases "list_all ?ok ?idx") (simp_all only: if_True if_False append_Nil2 simp_thms)
  then show ?thesis using rng span
    by (intro exI [of _ from_dt] exI [of _ to_dt] exI [of _ ?rows]) (simp add: MAX_EXPORT_SPAN_def stream_rows_def format_row_def)
qed

definition demo_export_env :: export_env where
  "demo_export_env = \<lparr>xe_query = demo_query_env, xe_cooldown = 60, xe_timeout = 10, xe_float = (\<lambda>_. ''12.0''), xe_stamp = (\<lambda>_. ''s'')\<rparr>"

theorem export_complete_or_marked_witness:
  "\<exists>chunks hdrs row. export demo_export_env (hours 3) (\<lambda>i. seconds (11 * int i)) None \<lparr>xa_from = None, xa_to = None, xa_node_id = None\<rparr> demo_rows_db NoClient =
      ((Reply 200 chunks, hdrs), NoClient) \<and> csv_parse (concat chunks) = [CSV_COLUMNS, row, [TRUNCATED_SENTINEL]]"
proof -
  let ?args = "\<lparr>xa_from = None, xa_to = None, xa_node_id = None\<rparr>" and ?clock = "\<lambda>i. seconds (11 * int i)"
  let ?x = "export demo_export_env (hours 3) ?clock None ?args demo_rows_db NoClient"
  let ?P = "matches_query (hours 3 - hours 24) (hours 3) None"
  have rng: "parse_range (xe_query demo_export_env) (hours 3) None None = Inr (hours 3 - hours 24, hours 3)"
    by (simp add: parse_range_def parse_iso_datetime_def)
  have "\<exists>chunks hdrs. ?x = ((Reply 200 chunks, hdrs), NoClient)"
    using rng by (simp add: export_def MAX_EXPORT_SPAN_def time_units blank_def)
  then obtain chunks hdrs where x: "?x = ((Reply 200 chunks, hdrs), NoClient)" by blast
  have n: "length (select_where ?P (readings demo_rows_db)) = 3"
    by (simp add: select_where_def demo_rows_db_def matches_query_def time_units)
  have upt: "[0..<3] = [0, 1, 2::nat]" by (simp add: upt_rec)
  have late: "seconds (11 * int i) \<le> seconds 10 \<longleftrightarrow> i = 0" for i by (auto simp: seconds_def)
  obtain row where "csv_parse (concat chunks) = [CSV_COLUMNS, row, [TRUNCATED_SENTINEL]]"
  proof -
    let ?rows = "sort_key (\<lambda>r. (s_time r, s_node_id r)) (select_where ?P (readings demo_rows_db))"
    have "csv_parse (concat chunks) = CSV_COLUMNS # map (format_row demo_export_env) (take 1 ?rows) @ [[TRUNCATED_SENTINEL]]"
      using export_complete_or_marked [OF x] rng n
      by (auto simp: upt late demo_export_env_def)
    moreover have "take 1 ?rows = [hd ?rows]" 
    proof -
      have "length ?rows = 3" using n by (simp only: length_sort)
      then show ?thesis by (cases ?rows) auto
    qed
    ultimately show ?thesis by (intro that) simp
  qed
  then show ?thesis using x by blast
qed

text \<open>
  The cooldown throttles one user and only that user: with Redis up, after an export of a user was let
  through, every further one within the cooldown is refused and told to wait between one second
  and the cooldown, while what is asked for any other user is decided as if the first had not
  happened.
\<close>

theorem export_cooldown_throttles:
  assumes c: "0 < c" and first: "check_export_cooldown c t u (Client s []) = (None, r)"
    and later: "t \<le> now" "now < t + seconds c" and other: "v \<noteq> u"
  shows "(\<exists>wait. fst (check_export_cooldown c now u r) = Some wait \<and> 1 \<le> wait \<and> wait \<le> c) \<and>
    fst (check_export_cooldown c now v r) = fst (check_export_cooldown c now v (Client s []))"
proof -
  obtain s' where s': "r = Client s' []" "map_of s' (export_cooldown_key u) = Some (RText ''1'', Some (t + seconds c))"
    "\<And>k. k \<noteq> export_cooldown_key u \<Longrightarrow> map_of s' k = map_of s k"
    using cooldown_claim [OF c first] by blast
  have same: "map_of s' (export_cooldown_key v) = map_of s (export_cooldown_key v)"
    using s'(3) other by (simp add: cooldown_key_inj)
  have "fst (check_export_cooldown c now v (Client s' [])) = fst (check_export_cooldown c now v (Client s []))"
    by (simp add: check_export_cooldown_def redis_setnx_def redis_ttl_def command_cases st_setnx_def st_get_def st_ttl_def same Let_def)
  then show ?thesis using cooldown_held [OF c s'(2) later] s'(1) by auto
qed

theorem export_cooldown_throttles_witness:
  "fst (check_export_cooldown 60 5 7 (Client [] [])) = None \<and>
   (\<exists>wait. fst (check_export_cooldown 60 (seconds 30) 7 (snd (check_export_cooldown 60 5 7 (Client [] [])))) = Some wait \<and> wait \<le> 60) \<and>
   fst (check_export_cooldown 60 (seconds 30) 8 (snd (check_export_cooldown 60 5 7 (Client [] [])))) =
     fst (check_export_cooldown 60 (seconds 30) 8 (Client [] []))"
proof -
  have first: "fst (check_export_cooldown 60 5 7 (Client [] [])) = None" by code_simp
  then have "check_export_cooldown 60 5 7 (Client [] []) = (None, snd (check_export_cooldown 60 5 7 (Client [] [])))"
    by (metis prod.collapse)
  from export_cooldown_throttles [OF _ this, of "seconds 30" 8] first show ?thesis by (auto simp: seconds_def)
qed

end
