(* ===== verification/Export_Pool.thy ===== *)
theory Export_Pool imports Export begin

text \<open>
  Concurrent exports of \<open>src/api/export.py\<close>: \<open>_csv_chunks\<close> and \<open>_stream_rows\<close> as the two nested generators they
  are, under the semaphore \<open>_exports_semaphore\<close>.  One process, one event loop: every event below is
  what happens between two suspension points.  The semaphore is \<open>asyncio.Semaphore\<close> of Python 3.12,
  which wakes waiters in the order they came.
\<close>

section \<open>The semaphore\<close>

text \<open>A waiter and whether its future is already resolved.  A cancelled future counts for nothing, so it
  leaves the list when it is cancelled.\<close>

record semaphore =
  sm_value :: nat
  sm_waiters :: "(nat \<times> bool) list"

fun wake_first :: "(nat \<times> bool) list \<Rightarrow> (nat \<times> bool) list option" where
  "wake_first [] = None"
| "wake_first ((i, woken) # ws) = (if woken then map_option (Cons (i, woken)) (wake_first ws) else Some ((i, True) # ws))"

definition wake_next :: "semaphore \<Rightarrow> semaphore option" where
  "wake_next s = map_option (\<lambda>ws. s\<lparr>sm_value := sm_value s - 1, sm_waiters := ws\<rparr>) (wake_first (sm_waiters s))"

text \<open>\<open>while self._value > 0: if not self._wake_up_next(): break\<close>\<close>

function wake_all :: "semaphore \<Rightarrow> semaphore" where
  "wake_all s = (if sm_value s = 0 then s else case wake_next s of None \<Rightarrow> s | Some s' \<Rightarrow> wake_all s')"
  by pat_completeness auto
termination by (relation "measure sm_value") (auto simp: wake_next_def)

declare wake_all.simps [simp del]

text \<open>The fast path of \<open>acquire\<close>, or a place at the end of the queue.\<close>

definition sem_acquire :: "nat \<Rightarrow> semaphore \<Rightarrow> bool \<times> semaphore" where
  "sem_acquire i s =
     (if sm_value s = 0 \<or> sm_waiters s \<noteq> [] then (False, s\<lparr>sm_waiters := sm_waiters s @ [(i, False)]\<rparr>)
      else (True, s\<lparr>sm_value := sm_value s - 1\<rparr>))"

definition sem_release :: "semaphore \<Rightarrow> semaphore" where
  "sem_release s = (let s1 = s\<lparr>sm_value := sm_value s + 1\<rparr> in case wake_next s1 of None \<Rightarrow> s1 | Some s2 \<Rightarrow> s2)"

definition drop_waiter :: "nat \<Rightarrow> semaphore \<Rightarrow> semaphore" where
  "drop_waiter i s = s\<lparr>sm_waiters := filter (\<lambda>w. fst w \<noteq> i) (sm_waiters s)\<rparr>"

text \<open>\<open>acquire\<close> going on after its future was resolved, and being cancelled while it waits.\<close>

definition sem_resume :: "nat \<Rightarrow> semaphore \<Rightarrow> semaphore" where
  "sem_resume i s = wake_all (drop_waiter i s)"

definition sem_cancel :: "nat \<Rightarrow> semaphore \<Rightarrow> semaphore" where
  "sem_cancel i s =
     (let s1 = drop_waiter i s
      in wake_all (if (i, True) \<in> set (sm_waiters s) then s1\<lparr>sm_value := sm_value s1 + 1\<rparr> else s1))"

section \<open>One export\<close>

datatype export_outcome = Delivered | Cut_off | Abandoned

text \<open>
  \<open>Queued\<close>: in \<open>async with _exports_semaphore\<close>.  \<open>Producing\<close>: waiting for the next row of the cursor.
  \<open>Suspended\<close>: a chunk was yielded and the client has not taken it.  \<open>Closing\<close>: the outer generator is
  gone, the inner one, still inside its \<open>async with\<close>, waits for the event loop to close it.
\<close>

datatype phase = Queued | Producing | Suspended | Closing export_outcome | Ended export_outcome

text \<open>\<open>es_due\<close>: what is yielded before the next row is asked for.  \<open>es_seen\<close> is history: each row with the
  time passed when it arrived.\<close>

record stream =
  es_query :: "timestamp \<times> timestamp \<times> string option"
  es_start :: timestamp
  es_phase :: phase
  es_rows :: "reading list"
  es_buf :: string
  es_due :: "string list"
  es_cut :: bool
  es_sent :: "string list"
  es_seen :: "(reading \<times> int) list"

definition new_stream :: "timestamp \<Rightarrow> timestamp \<times> timestamp \<times> string option \<Rightarrow> stream" where
  "new_stream now q =
     \<lparr>es_query = q, es_start = now, es_phase = Queued, es_rows = [], es_buf = CSV_HEADER, es_due = [], es_cut = False,
      es_sent = [], es_seen = []\<rparr>"

text \<open>The session is opened and the query sent once the semaphore is held.\<close>

definition open_cursor :: "db \<Rightarrow> stream \<Rightarrow> stream" where
  "open_cursor d st =
     (case es_query st of (from_dt, to_dt, node_id) \<Rightarrow> st\<lparr>es_phase := Producing, es_rows := stream_rows from_dt to_dt node_id d\<rparr>)"

text \<open>The body of the loop of \<open>_csv_chunks\<close>.\<close>

definition row_arrives :: "export_env \<Rightarrow> timestamp \<Rightarrow> reading \<Rightarrow> reading list \<Rightarrow> stream \<Rightarrow> stream" where
  "row_arrives env now r rs st =
     (let elapsed = now - es_start st; st1 = st\<lparr>es_rows := rs, es_seen := es_seen st @ [(r, elapsed)]\<rparr> in
      if seconds (xe_timeout env) < elapsed then
        st1\<lparr>es_phase := Suspended, es_cut := True, es_sent := es_sent st @ [es_buf st], es_buf := [],
            es_due := [csv_row [TRUNCATED_SENTINEL]]\<rparr>
      else let buf = es_buf st @ csv_row (format_row env r) in
        if CHUNK_BYTES \<le> length buf then st1\<lparr>es_phase := Suspended, es_sent := es_sent st @ [buf], es_buf := []\<rparr>
        else st1\<lparr>es_buf := buf\<rparr>)"

text \<open>The end of the rows: the inner generator has left its \<open>async with\<close>; what is buffered is yielded.\<close>

definition rows_end :: "stream \<Rightarrow> stream" where
  "rows_end st = st\<lparr>es_phase := Ended Delivered, es_sent := es_sent st @ (if es_buf st = [] then [] else [es_buf st]), es_buf := []\<rparr>"

text \<open>The client has taken the chunk, the generator goes on.\<close>

definition chunk_taken :: "stream \<Rightarrow> stream" where
  "chunk_taken st =
     (case es_due st of
        c # cs \<Rightarrow> st\<lparr>es_sent := es_sent st @ [c], es_due := cs\<rparr>
      | [] \<Rightarrow> st\<lparr>es_phase := (if es_cut st then Closing Cut_off else Producing)\<rparr>)"

section \<open>All exports of a process\<close>

definition MAX_CONCURRENT_EXPORTS :: nat where "MAX_CONCURRENT_EXPORTS = 4"

record pool =
  xp_now :: timestamp
  xp_sem :: semaphore
  xp_streams :: "nat \<Rightarrow> stream option"

definition idle_pool :: pool where
  "idle_pool = \<lparr>xp_now = 0, xp_sem = \<lparr>sm_value = MAX_CONCURRENT_EXPORTS, sm_waiters = []\<rparr>, xp_streams = (\<lambda>_. None)\<rparr>"

datatype event =
    Begin nat "timestamp \<times> timestamp \<times> string option" db
  | Resume nat db
  | Arrive nat
  | Exhaust nat
  | Fail nat
  | Take nat
  | Leave nat
  | Finalise nat
  | Pass nat

definition put :: "nat \<Rightarrow> stream \<Rightarrow> semaphore \<Rightarrow> pool \<Rightarrow> pool" where
  "put i st s p = p\<lparr>xp_sem := s, xp_streams := (xp_streams p)(i \<mapsto> st)\<rparr>"

text \<open>\<open>None\<close>: the event cannot happen in this state.\<close>

fun pool_step :: "export_env \<Rightarrow> event \<Rightarrow> pool \<Rightarrow> pool option" where
  "pool_step env (Pass dt) p = Some (p\<lparr>xp_now := xp_now p + int dt\<rparr>)"
| "pool_step env (Begin i q d) p =
     (case xp_streams p i of
        Some st \<Rightarrow> None
      | None \<Rightarrow>
          (let st = new_stream (xp_now p) q; (held, s) = sem_acquire i (xp_sem p)
           in Some (put i (if held then open_cursor d st else st) s p)))"
| "pool_step env (Resume i d) p =
     (case xp_streams p i of
        Some st \<Rightarrow>
          (if es_phase st = Queued \<and> (i, True) \<in> set (sm_waiters (xp_sem p))
           then Some (put i (open_cursor d st) (sem_resume i (xp_sem p)) p) else None)
      | None \<Rightarrow> None)"
| "pool_step env (Arrive i) p =
     (case xp_streams p i of
        Some st \<Rightarrow>
          (case (es_phase st, es_rows st) of
             (Producing, r # rs) \<Rightarrow> Some (put i (row_arrives env (xp_now p) r rs st) (xp_sem p) p)
           | _ \<Rightarrow> None)
      | None \<Rightarrow> None)"
| "pool_step env (Exhaust i) p =
     (case xp_streams p i of
        Some st \<Rightarrow>
          (if es_phase st = Producing \<and> es_rows st = [] then Some (put i (rows_end st) (sem_release (xp_sem p)) p) else None)
      | None \<Rightarrow> None)"
| "pool_step env (Fail i) p =
     (case xp_streams p i of
        Some st \<Rightarrow>
          (if es_phase st = Producing then Some (put i (st\<lparr>es_phase := Ended Abandoned\<rparr>) (sem_release (xp_sem p)) p) else None)
      | None \<Rightarrow> None)"
| "pool_step env (Take i) p =
     (case xp_streams p i of
        Some st \<Rightarrow> (if es_phase st = Suspended then Some (put i (chunk_taken st) (xp_sem p) p) else None)
      | None \<Rightarrow> None)"
| "pool_step env (Leave i) p =
     (case xp_streams p i of
        Some st \<Rightarrow>
          (case es_phase st of
             Queued \<Rightarrow> Some (put i (st\<lparr>es_phase := Ended Abandoned\<rparr>) (sem_cancel i (xp_sem p)) p)
           | Producing \<Rightarrow> Some (put i (st\<lparr>es_phase := Ended Abandoned\<rparr>) (sem_release (xp_sem p)) p)
           | Suspended \<Rightarrow> Some (put i (st\<lparr>es_phase := Closing Abandoned\<rparr>) (xp_sem p) p)
           | _ \<Rightarrow> None)
      | None \<Rightarrow> None)"
| "pool_step env (Finalise i) p =
     (case xp_streams p i of
        Some st \<Rightarrow>
          (case es_phase st of
             Closing out \<Rightarrow> Some (put i (st\<lparr>es_phase := Ended out\<rparr>) (sem_release (xp_sem p)) p)
           | _ \<Rightarrow> None)
      | None \<Rightarrow> None)"

fun pool_run :: "export_env \<Rightarrow> event list \<Rightarrow> pool \<Rightarrow> pool option" where
  "pool_run env [] p = Some p"
| "pool_run env (e # es) p = (case pool_step env e p of None \<Rightarrow> None | Some p' \<Rightarrow> pool_run env es p')"

text \<open>Who holds a slot of the semaphore and, with it, a connection of the database pool.\<close>

definition holding :: "phase \<Rightarrow> bool" where
  "holding ph = (case ph of Producing \<Rightarrow> True | Suspended \<Rightarrow> True | Closing out \<Rightarrow> True | _ \<Rightarrow> False)"

definition holds_slot :: "pool \<Rightarrow> nat \<Rightarrow> bool" where
  "holds_slot p i = (case xp_streams p i of None \<Rightarrow> False | Some st \<Rightarrow> holding (es_phase st))"

section \<open>The semaphore's laws\<close>

text \<open>Slots not held by anyone: free, or promised to a waiter whose future is resolved.\<close>

definition sem_credit :: "semaphore \<Rightarrow> nat" where
  "sem_credit s = sm_value s + length (filter snd (sm_waiters s))"

text \<open>A free slot is never overlooked: if somebody waits, a waiter that can run will hand it on.\<close>

definition sem_ok :: "semaphore \<Rightarrow> bool" where
  "sem_ok s = (distinct (map fst (sm_waiters s)) \<and> (0 < sm_value s \<longrightarrow> sm_waiters s = [] \<or> list_ex snd (sm_waiters s)))"

lemma all_woken: "list_all snd ws \<Longrightarrow> ws = [] \<or> list_ex snd ws"
  by (cases ws) auto

lemma wake_first_None: "wake_first ws = None \<longleftrightarrow> list_all snd ws"
  by (induction ws rule: wake_first.induct) auto

lemma wake_first_Some:
  "wake_first ws = Some ws' \<Longrightarrow> map fst ws' = map fst ws \<and> length (filter snd ws') = Suc (length (filter snd ws))"
  by (induction ws arbitrary: ws' rule: wake_first.induct) (auto split: if_splits)

lemma wake_next_credit:
  assumes "wake_next s = Some s'" "0 < sm_value s"
  shows "sem_credit s' = sem_credit s" "map fst (sm_waiters s') = map fst (sm_waiters s)" "sm_value s' = sm_value s - 1"
  using assms wake_first_Some by (auto simp: wake_next_def sem_credit_def)

lemma wake_all_stop: "sm_value s = 0 \<or> wake_next s = None \<Longrightarrow> wake_all s = s"
  by (subst wake_all.simps) auto

lemma wake_all_go: "0 < sm_value s \<Longrightarrow> wake_next s = Some s' \<Longrightarrow> wake_all s = wake_all s'"
  by (subst wake_all.simps) simp

lemma wake_all_induct [case_names stop go]:
  assumes "\<And>s. sm_value s = 0 \<or> wake_next s = None \<Longrightarrow> wake_all s = s \<Longrightarrow> P s"
    and "\<And>s s'. 0 < sm_value s \<Longrightarrow> wake_next s = Some s' \<Longrightarrow> wake_all s = wake_all s' \<Longrightarrow> P s' \<Longrightarrow> P s"
  shows "P s"
proof (induction s rule: wake_all.induct)
  case (1 s)
  show ?case
  proof (cases "sm_value s = 0 \<or> wake_next s = None")
    case True
    then show ?thesis by (intro assms(1) wake_all_stop)
  next
    case False
    then obtain s' where "0 < sm_value s" "wake_next s = Some s'" by auto
    then show ?thesis using 1 by (intro assms(2) [of s s'] wake_all_go) auto
  qed
qed

lemma wake_all_credit: "sem_credit (wake_all s) = sem_credit s \<and> map fst (sm_waiters (wake_all s)) = map fst (sm_waiters s)"
  by (induction s rule: wake_all_induct) (simp_all add: wake_next_credit)

lemma wake_all_wakes: "0 < sm_value (wake_all s) \<Longrightarrow> list_all snd (sm_waiters (wake_all s))"
  by (induction s rule: wake_all_induct) (auto simp: wake_next_def wake_first_None)

lemma wake_all_ok: "distinct (map fst (sm_waiters s)) \<Longrightarrow> sem_ok (wake_all s)"
  using all_woken [OF wake_all_wakes] by (simp add: sem_ok_def wake_all_credit)

lemma drop_waiter_names: "map fst (sm_waiters (drop_waiter i s)) = filter (\<lambda>j. j \<noteq> i) (map fst (sm_waiters s))"
  by (simp add: drop_waiter_def filter_map comp_def)

lemma drop_waiter_credit:
  assumes "distinct (map fst (sm_waiters s))"
  shows "sem_credit (drop_waiter i s) + (if (i, True) \<in> set (sm_waiters s) then 1 else 0) = sem_credit s"
proof -
  have "length (filter snd (filter (\<lambda>w. fst w \<noteq> i) ws)) + (if (i, True) \<in> set ws then 1 else 0) = length (filter snd ws)"
    if "distinct (map fst ws)" for ws :: "(nat \<times> bool) list"
    using that
  proof (induction ws)
    case (Cons w ws)
    have "(i, b) \<in> set ws \<Longrightarrow> i \<in> fst ` set ws" for b by force
    moreover have "i \<notin> fst ` set ws \<Longrightarrow> filter (\<lambda>w. fst w \<noteq> i) ws = ws" by (induction ws) auto
    ultimately show ?case using Cons by (cases w) auto
  qed simp
  then show ?thesis using assms by (simp add: sem_credit_def drop_waiter_def)
qed

text \<open>What each operation does to the slots not held and to the names in the queue.\<close>

lemma sem_acquire_law:
  assumes "sem_ok s" "sem_acquire i s = (held, s')" "i \<notin> fst ` set (sm_waiters s)"
  shows "sem_ok s'" "sem_credit s = sem_credit s' + (if held then 1 else 0)"
    "map fst (sm_waiters s') = map fst (sm_waiters s) @ (if held then [] else [i])"
  using assms by (auto simp: sem_acquire_def sem_ok_def sem_credit_def split: if_splits)

lemma sem_release_law:
  assumes "sem_ok s"
  shows "sem_ok (sem_release s)" "sem_credit (sem_release s) = sem_credit s + 1"
    "map fst (sm_waiters (sem_release s)) = map fst (sm_waiters s)"
proof -
  let ?s = "s\<lparr>sm_value := sm_value s + 1\<rparr>"
  have c: "sem_credit ?s = sem_credit s + 1" by (simp add: sem_credit_def)
  have "sem_ok (sem_release s) \<and> sem_credit (sem_release s) = sem_credit s + 1 \<and> map fst (sm_waiters (sem_release s)) = map fst (sm_waiters s)"
  proof (cases "wake_next ?s")
    case None
    then have "sem_release s = ?s" by (simp add: sem_release_def)
    moreover have "list_all snd (sm_waiters s)" using None by (simp add: wake_next_def wake_first_None)
    ultimately show ?thesis using assms c all_woken [of "sm_waiters s"] by (simp add: sem_ok_def)
  next
    case (Some s2)
    then have r: "sem_release s = s2" by (simp add: sem_release_def)
    note w = wake_next_credit [OF Some]
    obtain ws where ws: "wake_first (sm_waiters s) = Some ws" "s2 = s\<lparr>sm_value := sm_value s, sm_waiters := ws\<rparr>"
      using Some by (auto simp: wake_next_def)
    then have "filter snd ws \<noteq> []" using wake_first_Some [OF ws(1)] by auto
    then have "list_ex snd (sm_waiters s2)" using ws(2) by (auto simp: list_ex_iff filter_empty_conv)
    then show ?thesis unfolding r using w c assms by (simp add: sem_ok_def)
  qed
  then show "sem_ok (sem_release s)" "sem_credit (sem_release s) = sem_credit s + 1"
    "map fst (sm_waiters (sem_release s)) = map fst (sm_waiters s)" by blast+
qed

lemma sem_resume_law:
  assumes "sem_ok s" "(i, True) \<in> set (sm_waiters s)"
  shows "sem_ok (sem_resume i s)" "sem_credit (sem_resume i s) + 1 = sem_credit s"
    "map fst (sm_waiters (sem_resume i s)) = filter (\<lambda>j. j \<noteq> i) (map fst (sm_waiters s))"
  using assms drop_waiter_credit [of s i]
  by (simp_all add: sem_resume_def wake_all_credit drop_waiter_names wake_all_ok sem_ok_def [of s])

lemma sem_cancel_law:
  assumes "sem_ok s"
  shows "sem_ok (sem_cancel i s)" "sem_credit (sem_cancel i s) = sem_credit s"
    "map fst (sm_waiters (sem_cancel i s)) = filter (\<lambda>j. j \<noteq> i) (map fst (sm_waiters s))"
proof -
  have d: "distinct (map fst (sm_waiters s))" using assms by (simp add: sem_ok_def)
  have "sem_credit (s1\<lparr>sm_value := sm_value s1 + 1\<rparr>) = sem_credit s1 + 1" for s1 by (simp add: sem_credit_def)
  then show "sem_credit (sem_cancel i s) = sem_credit s"
    using drop_waiter_credit [OF d, of i] by (simp add: sem_cancel_def Let_def wake_all_credit split: if_splits)
  show "sem_ok (sem_cancel i s)" "map fst (sm_waiters (sem_cancel i s)) = filter (\<lambda>j. j \<noteq> i) (map fst (sm_waiters s))"
    using d by (simp_all add: sem_cancel_def Let_def wake_all_credit drop_waiter_names wake_all_ok)
qed

section \<open>The invariant of the pool\<close>

definition awaits_slot :: "pool \<Rightarrow> nat \<Rightarrow> bool" where
  "awaits_slot p i = (case xp_streams p i of None \<Rightarrow> False | Some st \<Rightarrow> es_phase st = Queued)"

definition pool_ok :: "pool \<Rightarrow> bool" where
  "pool_ok p =
     (sem_ok (xp_sem p) \<and> fst ` set (sm_waiters (xp_sem p)) = Collect (awaits_slot p) \<and> finite (Collect (holds_slot p)) \<and>
      sem_credit (xp_sem p) + card (Collect (holds_slot p)) = MAX_CONCURRENT_EXPORTS)"

lemma put_simps [simp]:
  "xp_now (put i st s p) = xp_now p" "xp_sem (put i st s p) = s" "xp_streams (put i st s p) = (xp_streams p)(i \<mapsto> st)"
  by (simp_all add: put_def)

lemma holders_put:
  "Collect (holds_slot (put i st s p)) = (if holding (es_phase st) then insert i (Collect (holds_slot p)) else Collect (holds_slot p) - {i})"
  by (auto simp: holds_slot_def split: if_splits)

lemma queued_put:
  "Collect (awaits_slot (put i st s p)) = (if es_phase st = Queued then insert i (Collect (awaits_slot p)) else Collect (awaits_slot p) - {i})"
  by (auto simp: awaits_slot_def split: if_splits)

lemma pool_ok_put:
  assumes "pool_ok p" "sem_ok s"
    and "fst ` set (sm_waiters s) = (if es_phase st = Queued then insert i (fst ` set (sm_waiters (xp_sem p))) else fst ` set (sm_waiters (xp_sem p)) - {i})"
    and "sem_credit s + (if holding (es_phase st) then 1 else 0) = sem_credit (xp_sem p) + (if holds_slot p i then 1 else 0)"
  shows "pool_ok (put i st s p)"
proof -
  let ?H = "Collect (holds_slot p)"
  have f: "finite ?H" using assms(1) by (simp add: pool_ok_def)
  have "card (Collect (holds_slot (put i st s p))) + (if holds_slot p i then 1 else 0) = card ?H + (if holding (es_phase st) then 1 else 0)"
    unfolding holders_put using f card_Suc_Diff1 [OF f, of i] by (auto simp: card_insert_if)
  then show ?thesis using assms f by (auto simp: pool_ok_def holders_put queued_put split: if_splits)
qed

lemma phase_simps [simp]:
  "es_phase (new_stream now q) = Queued" "es_phase (open_cursor d st) = Producing" "es_phase (rows_end st) = Ended Delivered"
  "holding Producing" "holding Suspended" "holding (Closing out)" "\<not> holding Queued" "\<not> holding (Ended out)"
  by (simp_all add: new_stream_def open_cursor_def rows_end_def holding_def split: prod.splits)

lemma working_phases: "holding (es_phase (row_arrives env now r rs st)) \<longleftrightarrow> holding (es_phase st)"
    "es_phase (row_arrives env now r rs st) = Queued \<longleftrightarrow> es_phase st = Queued" if "es_phase st = Producing"
  using that by (auto simp: row_arrives_def Let_def)

lemma taken_phases: "holding (es_phase (chunk_taken st))" "es_phase (chunk_taken st) \<noteq> Queued" if "es_phase st = Suspended"
  using that by (auto simp: chunk_taken_def split: list.splits)

lemma set_names: "fst ` set ws = set (map fst ws)" by simp

lemma pass_frame [simp]: "holds_slot (p\<lparr>xp_now := t\<rparr>) = holds_slot p" "awaits_slot (p\<lparr>xp_now := t\<rparr>) = awaits_slot p"
  by (simp_all add: holds_slot_def awaits_slot_def fun_eq_iff)

lemma holder_not_queued: "xp_streams p i = Some st \<Longrightarrow> holding (es_phase st) \<Longrightarrow> \<not> awaits_slot p i \<and> holds_slot p i"
  by (auto simp: awaits_slot_def holds_slot_def holding_def)

text \<open>The three ways in which an event touches a stream that is in the pool.\<close>

lemma work_ok:
  assumes "pool_ok p" "xp_streams p i = Some st0" "holding (es_phase st0)" "holding (es_phase st)" "es_phase st \<noteq> Queued"
  shows "pool_ok (put i st (xp_sem p) p)"
  using assms holder_not_queued [OF assms(2,3)] by (intro pool_ok_put) (auto simp: pool_ok_def)

lemma release_ok:
  assumes "pool_ok p" "xp_streams p i = Some st0" "holding (es_phase st0)" "es_phase st = Ended out"
  shows "pool_ok (put i st (sem_release (xp_sem p)) p)"
proof -
  have s: "sem_ok (xp_sem p)" using assms(1) by (simp add: pool_ok_def)
  note l = sem_release_law [OF s] and n = holder_not_queued [OF assms(2,3)]
  have "fst ` set (sm_waiters (sem_release (xp_sem p))) = Collect (awaits_slot p)"
    using l(3) assms(1) by (simp only: set_names pool_ok_def)
  then show ?thesis using assms l n by (intro pool_ok_put) (auto simp: pool_ok_def)
qed

lemma unqueue_ok:
  assumes "pool_ok p" "sem_ok s" "map fst (sm_waiters s) = filter (\<lambda>j. j \<noteq> i) (map fst (sm_waiters (xp_sem p)))"
    and "xp_streams p i = Some st0" "es_phase st0 = Queued" "es_phase st \<noteq> Queued"
    and "sem_credit s + (if holding (es_phase st) then 1 else 0) = sem_credit (xp_sem p)"
  shows "pool_ok (put i st s p)"
proof -
  have "fst ` set (sm_waiters s) = fst ` set (sm_waiters (xp_sem p)) - {i}" using assms(3) by (simp only: set_names) auto
  moreover have "\<not> holds_slot p i" using assms(4,5) by (simp add: holds_slot_def)
  ultimately show ?thesis using assms by (intro pool_ok_put) auto
qed

lemma begin_ok:
  assumes "pool_ok p" "xp_streams p i = None" "sem_acquire i (xp_sem p) = (held, s)"
  shows "pool_ok (put i (if held then open_cursor d (new_stream now q) else new_stream now q) s p)"
proof -
  have "i \<notin> fst ` set (sm_waiters (xp_sem p))" and s: "sem_ok (xp_sem p)"
    using assms(1,2) by (simp_all add: pool_ok_def awaits_slot_def)
  note l = sem_acquire_law [OF s assms(3) this(1)]
  have "fst ` set (sm_waiters s) = fst ` set (sm_waiters (xp_sem p)) \<union> (if held then {} else {i})"
    using l(3) by (simp only: set_names) simp
  then show ?thesis using l assms(1,2) \<open>i \<notin> _\<close> by (intro pool_ok_put) (auto simp: holds_slot_def)
qed

lemma pool_step_ok:
  assumes "pool_step env e p = Some p'" "pool_ok p"
  shows "pool_ok p'"
proof -
  have s: "sem_ok (xp_sem p)" using assms(2) by (simp add: pool_ok_def)
  show ?thesis
  proof (cases e)
    case (Pass dt)
    then have "p' = p\<lparr>xp_now := xp_now p + int dt\<rparr>" using assms(1) by simp
    then have "pool_ok p' = pool_ok p" by (simp add: pool_ok_def)
    then show ?thesis using assms(2) by simp
  next
    case (Begin i q d)
    then obtain held s' where a: "xp_streams p i = None" "sem_acquire i (xp_sem p) = (held, s')"
      "p' = put i (if held then open_cursor d (new_stream (xp_now p) q) else new_stream (xp_now p) q) s' p"
      using assms(1) by (auto simp: Let_def split: option.splits prod.splits)
    show ?thesis unfolding a(3) by (rule begin_ok [OF assms(2) a(1,2)])
  next
    case (Resume i d)
    then show ?thesis using assms sem_resume_law [OF s] by (auto split: option.splits if_splits intro!: unqueue_ok)
  next
    case (Arrive i)
    then show ?thesis using assms
      by (auto simp: working_phases split: option.splits phase.splits list.splits intro!: work_ok)
  next
    case (Take i)
    then show ?thesis using assms by (auto simp: taken_phases split: option.splits if_splits intro!: work_ok)
  next
    case (Leave i)
    then show ?thesis using assms sem_cancel_law [OF s]
      by (auto split: option.splits phase.splits intro!: unqueue_ok work_ok release_ok)
  next
    case (Exhaust i)
    then show ?thesis using assms by (auto split: option.splits if_splits intro!: release_ok)
  next
    case (Fail i)
    then show ?thesis using assms by (auto split: option.splits if_splits intro!: release_ok)
  next
    case (Finalise i)
    then show ?thesis using assms by (auto split: option.splits phase.splits intro!: release_ok)
  qed
qed

lemma idle_pool_ok: "pool_ok idle_pool"
proof -
  have "holds_slot idle_pool = (\<lambda>_. False)" "awaits_slot idle_pool = (\<lambda>_. False)"
    by (simp_all add: fun_eq_iff holds_slot_def awaits_slot_def idle_pool_def)
  then show ?thesis by (simp add: pool_ok_def) (simp add: idle_pool_def sem_ok_def sem_credit_def)
qed

lemma pool_run_append: "pool_run env (xs @ ys) p = (case pool_run env xs p of None \<Rightarrow> None | Some p' \<Rightarrow> pool_run env ys p')"
  by (induction xs arbitrary: p) (auto split: option.splits)

lemma pool_run_ok: "pool_run env es p = Some p' \<Longrightarrow> pool_ok p \<Longrightarrow> pool_ok p'"
  by (induction es arbitrary: p) (auto split: option.splits intro: pool_step_ok)

section \<open>What an export delivers\<close>

text \<open>What was handed over, what is buffered and what is still to come make up the chunks of \<open>csv_loop\<close>, whenever
  the remaining rows arrive; after the cut nothing is to come.\<close>

definition rows_known :: "stream \<Rightarrow> bool" where
  "rows_known st = (\<exists>d. map fst (es_seen st) @ es_rows st = (case es_query st of (a, b, n) \<Rightarrow> stream_rows a b n d))"

definition going_on :: "export_env \<Rightarrow> stream \<Rightarrow> bool" where
  "going_on env st =
     (\<not> es_cut st \<and> es_due st = [] \<and> list_all (in_time env) (es_seen st) \<and>
      (\<forall>xs. csv_loop env CSV_HEADER (es_seen st @ xs) = es_sent st @ csv_loop env (es_buf st) xs))"

definition stream_settled :: "export_env \<Rightarrow> stream \<Rightarrow> bool" where
  "stream_settled env st =
     ((\<forall>xs. csv_loop env CSV_HEADER (es_seen st @ zip (es_rows st) xs) = es_sent st @ es_due st) \<and>
      (if es_cut st then es_seen st \<noteq> [] \<and> list_all (in_time env) (butlast (es_seen st)) \<and> \<not> in_time env (last (es_seen st))
       else list_all (in_time env) (es_seen st) \<and> es_rows st = []))"

definition stream_ok :: "export_env \<Rightarrow> stream \<Rightarrow> bool" where
  "stream_ok env st =
     (case es_phase st of
        Queued \<Rightarrow> es_seen st = [] \<and> es_sent st = [] \<and> es_buf st = CSV_HEADER \<and> es_due st = [] \<and> \<not> es_cut st
      | Producing \<Rightarrow> rows_known st \<and> going_on env st
      | Suspended \<Rightarrow> rows_known st \<and> (if es_cut st then stream_settled env st else going_on env st)
      | Closing out \<Rightarrow> out \<noteq> Abandoned \<longrightarrow> rows_known st \<and> stream_settled env st \<and> es_due st = [] \<and> (es_cut st \<longleftrightarrow> out = Cut_off)
      | Ended out \<Rightarrow> out \<noteq> Abandoned \<longrightarrow> rows_known st \<and> stream_settled env st \<and> es_due st = [] \<and> (es_cut st \<longleftrightarrow> out = Cut_off))"

lemmas stream_ok_defs = stream_ok_def rows_known_def going_on_def stream_settled_def

lemma stream_ok_new: "stream_ok env (new_stream now q)"
  by (simp add: stream_ok_def new_stream_def)

lemma stream_ok_open: "es_phase st = Queued \<Longrightarrow> stream_ok env st \<Longrightarrow> stream_ok env (open_cursor d st)"
  by (cases "es_query st") (auto simp: stream_ok_defs open_cursor_def)

lemma stream_ok_arrives:
  assumes "stream_ok env st" "es_phase st = Producing" "es_rows st = r # rs"
  shows "stream_ok env (row_arrives env now r rs st)"
  using assms by (auto simp: stream_ok_defs row_arrives_def in_time_def Let_def split: prod.splits)

lemma stream_ok_end:
  assumes "stream_ok env st" "es_phase st = Producing" "es_rows st = []"
  shows "stream_ok env (rows_end st)"
proof -
  have g: "going_on env st" and r: "rows_known st" using assms by (simp_all add: stream_ok_def)
  then have "csv_loop env CSV_HEADER (es_seen st @ []) = es_sent st @ csv_loop env (es_buf st) []" by (simp only: going_on_def)
  then show ?thesis using g r assms(3) by (simp add: stream_ok_def rows_end_def stream_settled_def rows_known_def going_on_def)
qed

lemma stream_ok_taken:
  assumes "stream_ok env st" "es_phase st = Suspended"
  shows "stream_ok env (chunk_taken st)"
  using assms by (cases "es_cut st") (auto simp: stream_ok_defs chunk_taken_def split: list.splits prod.splits)

definition streams_ok :: "export_env \<Rightarrow> pool \<Rightarrow> bool" where
  "streams_ok env p = (\<forall>i st. xp_streams p i = Some st \<longrightarrow> stream_ok env st)"

lemma streams_ok_put: "streams_ok env p \<Longrightarrow> stream_ok env st \<Longrightarrow> streams_ok env (put i st s p)"
  by (simp add: streams_ok_def)

lemma streams_okD: "streams_ok env p \<Longrightarrow> xp_streams p i = Some st \<Longrightarrow> stream_ok env st"
  by (simp add: streams_ok_def)

lemma stream_ok_abandoned: "stream_ok env (st\<lparr>es_phase := Ended Abandoned\<rparr>)" "stream_ok env (st\<lparr>es_phase := Closing Abandoned\<rparr>)"
  by (simp_all add: stream_ok_def)

lemma stream_ok_finalised: "stream_ok env st \<Longrightarrow> es_phase st = Closing out \<Longrightarrow> stream_ok env (st\<lparr>es_phase := Ended out\<rparr>)"
  by (auto simp: stream_ok_defs)

lemma streams_step_ok:
  assumes "pool_step env e p = Some p'" "streams_ok env p"
  shows "streams_ok env p'"
  using assms
  by (cases e)
    (auto simp: Let_def split: option.splits prod.splits phase.splits list.splits if_splits
      intro!: streams_ok_put stream_ok_new stream_ok_open stream_ok_arrives stream_ok_end stream_ok_taken stream_ok_abandoned
        stream_ok_finalised dest: streams_okD, simp add: streams_ok_def)

lemma streams_run_ok: "pool_run env es p = Some p' \<Longrightarrow> streams_ok env p \<Longrightarrow> streams_ok env p'"
  by (induction es arbitrary: p) (auto split: option.splits intro: streams_step_ok)

lemma idle_streams_ok: "streams_ok env idle_pool"
  by (simp add: streams_ok_def idle_pool_def)

lemma takeWhile_cut: "list_all P (butlast xs) \<Longrightarrow> \<not> P (last xs) \<Longrightarrow> xs \<noteq> [] \<Longrightarrow> takeWhile P (xs @ ys) = butlast xs"
  by (induction xs) (auto split: if_splits)

lemma settled_parse:
  assumes "stream_settled env st" "es_due st = []"
  shows "csv_parse (concat (es_sent st)) =
    CSV_COLUMNS # map (format_row env) (map fst (if es_cut st then butlast (es_seen st) else es_seen st)) @
      (if es_cut st then [[TRUNCATED_SENTINEL]] else [])"
proof -
  let ?rows = "map fst (es_seen st) @ es_rows st" and ?n = "length (es_seen st)"
  let ?clock = "\<lambda>k. if k < ?n then snd (es_seen st ! k) else 0"
  let ?later = "zip (es_rows st) (map ?clock [?n..<?n + length (es_rows st)])"
  have "map ?clock [0..<?n] = map snd (es_seen st)" by (rule nth_equalityI) simp_all
  then have z: "zip ?rows (map ?clock [0..<length ?rows]) = es_seen st @ ?later"
  proof -
    have "[0..<length ?rows] = [0..<?n] @ [?n..<?n + length (es_rows st)]"
      using upt_add_eq_append [of 0 ?n "length (es_rows st)"] by simp
    then have "map ?clock [0..<length ?rows] = map snd (es_seen st) @ map ?clock [?n..<?n + length (es_rows st)]"
      using \<open>map ?clock [0..<?n] = _\<close> by (simp only: map_append)
    then show ?thesis by (simp only: zip_append length_map zip_map_fst_snd)
  qed
  have "es_sent st = csv_chunks env ?clock ?rows"
    unfolding csv_chunks_def z using assms by (simp add: stream_settled_def)
  then have parse: "csv_parse (concat (es_sent st)) = CSV_COLUMNS # map (format_row env \<circ> fst) (takeWhile (in_time env) (es_seen st @ ?later)) @
      (if list_all (in_time env) (es_seen st @ ?later) then [] else [[TRUNCATED_SENTINEL]])"
    unfolding z [symmetric] by (simp only: csv_chunks_parse)
  show ?thesis
  proof (cases "es_cut st")
    case True
    then have late: "es_seen st \<noteq> []" "list_all (in_time env) (butlast (es_seen st))" "\<not> in_time env (last (es_seen st))"
      using assms(1) by (simp_all add: stream_settled_def)
    then have "\<not> list_all (in_time env) (es_seen st @ ?later)" by (auto simp: list_all_iff)
    then show ?thesis unfolding parse takeWhile_cut [OF late(2,3,1)] using True by simp
  next
    case False
    then have "list_all (in_time env) (es_seen st)" "es_rows st = []" using assms(1) by (simp_all add: stream_settled_def)
    moreover from this have "takeWhile (in_time env) (es_seen st) = es_seen st" by (simp only: takeWhile_eq_all_conv list_all_iff)
    ultimately have "takeWhile (in_time env) (es_seen st @ ?later) = es_seen st" by (simp del: takeWhile_eq_all_conv)
    then show ?thesis unfolding parse using False \<open>es_rows st = []\<close> \<open>list_all (in_time env) (es_seen st)\<close>
      by (simp del: takeWhile_eq_all_conv)
  qed
qed

section \<open>Order of service\<close>

text \<open>How many sleeping waiters are in front of \<open>i\<close>, and the slots an event and a run give back.\<close>

definition ahead :: "nat \<Rightarrow> semaphore \<Rightarrow> nat" where
  "ahead i s = length (filter (\<lambda>w. \<not> snd w) (takeWhile (\<lambda>w. fst w \<noteq> i) (sm_waiters s)))"

definition asleep :: "nat \<Rightarrow> semaphore \<Rightarrow> bool" where "asleep i s = ((i, False) \<in> set (sm_waiters s))"

fun frees :: "event \<Rightarrow> pool \<Rightarrow> bool" where
  "frees (Exhaust i) p = True"
| "frees (Fail i) p = True"
| "frees (Finalise i) p = True"
| "frees (Leave i) p = (map_option es_phase (xp_streams p i) = Some Producing)"
| "frees e p = False"

fun freed :: "export_env \<Rightarrow> event list \<Rightarrow> pool \<Rightarrow> nat" where
  "freed env [] p = 0"
| "freed env (e # es) p =
     (if frees e p then 1 else 0) + (case pool_step env e p of None \<Rightarrow> 0 | Some p' \<Rightarrow> freed env es p')"

lemma wake_first_order:
  "wake_first ws = Some ws' \<Longrightarrow> distinct (map fst ws) \<Longrightarrow> (i, False) \<in> set ws' \<Longrightarrow>
   (i, False) \<in> set ws \<and>
   Suc (length (filter (\<lambda>w. \<not> snd w) (takeWhile (\<lambda>w. fst w \<noteq> i) ws'))) = length (filter (\<lambda>w. \<not> snd w) (takeWhile (\<lambda>w. fst w \<noteq> i) ws))"
proof (induction ws arbitrary: ws' rule: wake_first.induct)
  case (2 j woken ws)
  have "(i, b) \<in> set xs \<Longrightarrow> i \<in> fst ` set xs" for b and xs :: "(nat \<times> bool) list" by force
  then show ?case using 2 wake_first_Some by (fastforce split: if_splits)
qed simp

lemma wake_first_sleeper: "(i, False) \<in> set ws \<Longrightarrow> wake_first ws \<noteq> None"
  by (induction ws rule: wake_first.induct) auto

lemma wake_next_order:
  assumes "wake_next s = Some s'" "distinct (map fst (sm_waiters s))" "asleep i s'"
  shows "asleep i s" "Suc (ahead i s') = ahead i s"
  using assms wake_first_order by (auto simp: wake_next_def asleep_def ahead_def)

lemma wake_all_order: "distinct (map fst (sm_waiters s)) \<Longrightarrow> asleep i (wake_all s) \<Longrightarrow> asleep i s \<and> ahead i (wake_all s) \<le> ahead i s"
proof (induction s rule: wake_all_induct)
  case (go s s')
  then show ?case using wake_next_order [OF go(2)] wake_next_credit(2) [OF go(2,1)] by fastforce
qed simp

lemma drop_waiter_order:
  assumes "asleep i (drop_waiter j s)"
  shows "asleep i s" "ahead i (drop_waiter j s) \<le> ahead i s"
proof -
  have "length (filter (\<lambda>w. \<not> snd w) (takeWhile (\<lambda>w. fst w \<noteq> i) (filter (\<lambda>w. fst w \<noteq> j) ws)))
      \<le> length (filter (\<lambda>w. \<not> snd w) (takeWhile (\<lambda>w. fst w \<noteq> i) ws))" if "i \<noteq> j" for ws :: "(nat \<times> bool) list"
    using that by (induction ws) auto
  moreover have "i \<noteq> j" using assms by (auto simp: asleep_def drop_waiter_def)
  ultimately show "asleep i s" "ahead i (drop_waiter j s) \<le> ahead i s"
    using assms by (auto simp: asleep_def ahead_def drop_waiter_def)
qed

lemma release_order:
  assumes "distinct (map fst (sm_waiters s))" "asleep i (sem_release s)"
  shows "asleep i s" "Suc (ahead i (sem_release s)) = ahead i s"
proof -
  let ?s = "s\<lparr>sm_value := sm_value s + 1\<rparr>"
  have sleep: "asleep i s"
  proof (cases "wake_next ?s")
    case None
    then show ?thesis using assms(2) by (simp add: sem_release_def asleep_def)
  next
    case (Some s2)
    then show ?thesis using wake_next_order(1) [OF Some, of i] assms by (simp add: sem_release_def asleep_def)
  qed
  then obtain s2 where some: "wake_next ?s = Some s2"
    using wake_first_sleeper [of i "sm_waiters s"] by (auto simp: asleep_def wake_next_def)
  then have r: "sem_release s = s2" by (simp add: sem_release_def)
  show "asleep i s" by (rule sleep)
  show "Suc (ahead i (sem_release s)) = ahead i s"
    using wake_next_order(2) [OF some, of i] assms unfolding r by (simp add: ahead_def)
qed

lemma resume_order:
  assumes "distinct (map fst (sm_waiters s))" "asleep i (sem_resume j s)"
  shows "asleep i s" "ahead i (sem_resume j s) \<le> ahead i s"
proof -
  have "distinct (map fst (sm_waiters (drop_waiter j s)))" using assms(1) by (simp add: drop_waiter_names)
  note w = wake_all_order [OF this, of i]
  have "asleep i (drop_waiter j s)" using w assms(2) by (simp add: sem_resume_def)
  note d = drop_waiter_order [OF this]
  show "asleep i s" by (rule d)
  show "ahead i (sem_resume j s) \<le> ahead i s" using w d assms(2) by (simp add: sem_resume_def)
qed

lemma cancel_order:
  assumes "distinct (map fst (sm_waiters s))" "asleep i (sem_cancel j s)"
  shows "asleep i s" "ahead i (sem_cancel j s) \<le> ahead i s"
proof -
  let ?s = "(drop_waiter j s)\<lparr>sm_value := (if (j, True) \<in> set (sm_waiters s) then 1 else 0) + sm_value (drop_waiter j s)\<rparr>"
  have c: "sem_cancel j s = wake_all ?s" by (simp add: sem_cancel_def Let_def)
  have "distinct (map fst (sm_waiters ?s))" using assms(1) by (simp add: drop_waiter_names)
  note w = wake_all_order [OF this, of i]
  have "asleep i (drop_waiter j s)" using w assms(2) unfolding c by (simp add: asleep_def)
  note d = drop_waiter_order [OF this]
  show "asleep i s" by (rule d)
  show "ahead i (sem_cancel j s) \<le> ahead i s" using w d assms(2) unfolding c by (simp add: ahead_def)
qed

lemma acquire_order:
  assumes "sem_acquire j s = (held, s')" "asleep i s'" "i \<noteq> j" 
  shows "asleep i s" "ahead i s' \<le> ahead i s"
proof -
  have m: "(i, False) \<in> set (sm_waiters s)" using assms by (auto simp: sem_acquire_def asleep_def split: if_splits)
  have "takeWhile (\<lambda>w. fst w \<noteq> i) (sm_waiters s @ ws) = takeWhile (\<lambda>w. fst w \<noteq> i) (sm_waiters s)" for ws
    using m by (intro takeWhile_append1 [of "(i, False)"]) auto
  then show "ahead i s' \<le> ahead i s" using assms(1) by (auto simp: sem_acquire_def ahead_def split: if_splits)
  show "asleep i s" using m by (simp add: asleep_def)
qed

lemma step_order:
  assumes "pool_step env e p = Some p'" "pool_ok p" "xp_streams p i \<noteq> None" "asleep i (xp_sem p')"
  shows "asleep i (xp_sem p) \<and> ahead i (xp_sem p') + (if frees e p then 1 else 0) \<le> ahead i (xp_sem p) \<and> xp_streams p' i \<noteq> None"
proof -
  have d: "distinct (map fst (sm_waiters (xp_sem p)))" using assms(2) by (simp add: pool_ok_def sem_ok_def)
  note release = release_order [OF d, of i] and resume = resume_order [OF d, of i] and cancel = cancel_order [OF d, of i]
  show ?thesis
  proof (cases e)
    case (Begin j q db)
    then obtain held s' where a: "xp_streams p j = None" "sem_acquire j (xp_sem p) = (held, s')" "xp_sem p' = s'"
      "xp_streams p' i = (if i = j then xp_streams p' j else xp_streams p i)"
      using assms(1) by (auto simp: Let_def split: option.splits prod.splits)
    then have "i \<noteq> j" using assms(3) by auto
    then show ?thesis using acquire_order [OF a(2), of i] a assms(3,4) Begin by simp
  next
    case (Resume j db)
    then show ?thesis using assms resume [of j] by (auto split: option.splits if_splits)
  next
    case (Leave j)
    then show ?thesis using assms release cancel [of j] by (auto split: option.splits phase.splits if_splits)
  next
    case (Exhaust j)
    then show ?thesis using assms release by (auto split: option.splits if_splits)
  next
    case (Fail j)
    then show ?thesis using assms release by (auto split: option.splits if_splits)
  next
    case (Finalise j)
    then show ?thesis using assms release by (auto split: option.splits phase.splits)
  qed (use assms in \<open>auto split: option.splits phase.splits list.splits if_splits\<close>)
qed

lemma run_order:
  assumes "pool_run env es p = Some p'" "pool_ok p" "xp_streams p i \<noteq> None" "asleep i (xp_sem p')"
  shows "asleep i (xp_sem p) \<and> ahead i (xp_sem p') + freed env es p \<le> ahead i (xp_sem p)"
  using assms
proof (induction es arbitrary: p)
  case (Cons e es)
  then obtain p1 where s: "pool_step env e p = Some p1" "pool_run env es p1 = Some p'" by (auto split: option.splits)
  note ok = pool_step_ok [OF s(1) Cons.prems(2)]
  have some: "xp_streams p1 i \<noteq> None"
    using s(1) Cons.prems(3) by (cases e) (auto simp: Let_def split: option.splits prod.splits phase.splits list.splits if_splits)
  note ih = Cons.IH [OF s(2) ok some Cons.prems(4)]
  then show ?case using step_order [OF s(1) Cons.prems(2,3)] s(1) by fastforce
qed simp

section \<open>Stalled clients\<close>

fun actor :: "event \<Rightarrow> nat option" where
  "actor (Begin i q d) = Some i"
| "actor (Resume i d) = Some i"
| "actor (Arrive i) = Some i"
| "actor (Exhaust i) = Some i"
| "actor (Fail i) = Some i"
| "actor (Take i) = Some i"
| "actor (Leave i) = Some i"
| "actor (Finalise i) = Some i"
| "actor (Pass dt) = None"

lemma step_frame: "pool_step env e p = Some p' \<Longrightarrow> actor e \<noteq> Some i \<Longrightarrow> xp_streams p' i = xp_streams p i"
  by (cases e) (auto simp: Let_def split: option.splits prod.splits phase.splits list.splits if_splits)

lemma run_frame: "pool_run env es p = Some p' \<Longrightarrow> Some i \<notin> actor ` set es \<Longrightarrow> xp_streams p' i = xp_streams p i"
proof (induction es arbitrary: p)
  case (Cons e es)
  then obtain p1 where "pool_step env e p = Some p1" "pool_run env es p1 = Some p'" by (auto split: option.splits)
  then show ?case using Cons step_frame [of env e p p1 i] by auto
qed simp

text \<open>An export that has delivered nothing, and will not as long as it gets no slot.\<close>

definition unserved :: "pool \<Rightarrow> nat \<Rightarrow> bool" where
  "unserved p i =
     (case xp_streams p i of
        None \<Rightarrow> True
      | Some st \<Rightarrow> es_phase st \<in> {Queued, Ended Abandoned} \<and> es_sent st = [])"

lemma unserved_step:
  assumes "pool_step env e p = Some p'" "unserved p i" "\<not> holds_slot p' i" "streams_ok env p"
  shows "unserved p' i"
proof (cases "actor e = Some i")
  case False
  then show ?thesis using step_frame [OF assms(1)] assms(2) by (simp add: unserved_def)
next
  case True
  then show ?thesis using assms
    by (cases e)
      (auto simp: unserved_def holds_slot_def Let_def new_stream_def split: option.splits prod.splits phase.splits list.splits if_splits)
qed

lemma full_pool:
  assumes "pool_ok p" "finite S" "card S = MAX_CONCURRENT_EXPORTS" "\<forall>i \<in> S. holds_slot p i"
  shows "Collect (holds_slot p) = S"
proof -
  have f: "finite (Collect (holds_slot p))" and c: "card (Collect (holds_slot p)) \<le> card S"
    using assms(1,3) by (simp_all add: pool_ok_def)
  have "S \<subseteq> Collect (holds_slot p)" using assms(4) by auto
  then show ?thesis using card_seteq [OF f] c by auto
qed

lemma stalled_run:
  assumes "pool_run env es p = Some p'" "pool_ok p" "streams_ok env p" "finite S" "card S = MAX_CONCURRENT_EXPORTS"
    "\<forall>i \<in> S. holds_slot p i" "\<forall>i \<in> S. Some i \<notin> actor ` set es" "i \<notin> S" "unserved p i"
  shows "unserved p' i"
  using assms
proof (induction es arbitrary: p)
  case (Cons e es)
  then obtain p1 where s: "pool_step env e p = Some p1" "pool_run env es p1 = Some p'" by (auto split: option.splits)
  have hold: "\<forall>j \<in> S. holds_slot p1 j"
    using Cons.prems(6,7) step_frame [OF s(1)] by (auto simp: holds_slot_def)
  have ok: "pool_ok p1" "streams_ok env p1"
    using pool_step_ok [OF s(1) Cons.prems(2)] streams_step_ok [OF s(1) Cons.prems(3)] by blast+
  have "\<not> holds_slot p1 i" using full_pool [OF ok(1) Cons.prems(4,5) hold] Cons.prems(8) by auto
  then have "unserved p1 i" by (rule unserved_step [OF s(1) Cons.prems(9) _ Cons.prems(3)])
  then show ?case using Cons.IH [OF s(2) ok Cons.prems(4,5) hold] Cons.prems(7,8) by auto
qed simp

section \<open>A small run\<close>

definition demo_query :: "timestamp \<times> timestamp \<times> string option" where "demo_query = (hours 2, hours 3, None)"

definition demo_row :: reading where "demo_row = readings demo_rows_db ! 2"

lemma demo_open: "open_cursor demo_rows_db (new_stream now demo_query) =
    (new_stream now demo_query)\<lparr>es_phase := Producing, es_rows := [demo_row]\<rparr>"
  by (simp add: open_cursor_def demo_query_def new_stream_def stream_rows_def select_where_def demo_rows_db_def demo_row_def
      matches_query_def time_units)

text \<open>Five exports, the row of the first four after the time limit.\<close>

definition demo_events :: "event list" where
  "demo_events = map (\<lambda>i. Begin i demo_query demo_rows_db) [0, 1, 2, 3, 4] @ [Pass 11000000, Arrive 0, Arrive 1, Arrive 2, Arrive 3]"

lemma demo_arrives: "row_arrives demo_export_env 11000000 demo_row [] ((new_stream 0 demo_query)\<lparr>es_phase := Producing, es_rows := [demo_row]\<rparr>) =
    (new_stream 0 demo_query)\<lparr>es_phase := Suspended, es_seen := [(demo_row, 11000000)], es_cut := True, es_sent := [CSV_HEADER], es_buf := [],
       es_due := [csv_row [TRUNCATED_SENTINEL]]\<rparr>"
  by (simp add: row_arrives_def new_stream_def demo_export_env_def seconds_def)

lemmas pool_eval = demo_open demo_arrives sem_acquire_def sem_release_def wake_next_def sem_resume_def sem_cancel_def drop_waiter_def
  chunk_taken_def MAX_CONCURRENT_EXPORTS_def put_def Let_def

text \<open>Then the first client takes both chunks and its generator is closed.\<close>

definition demo_takes :: "event list" where "demo_takes = [Take 0, Take 0, Finalise 0]"

lemma demo_run:
  "\<exists>p p' st. pool_run demo_export_env demo_events idle_pool = Some p \<and>
     (\<forall>i \<in> {0, 1, 2, 3}. map_option es_phase (xp_streams p i) = Some Suspended) \<and> unserved p 4 \<and> unserved p 5 \<and>
     xp_streams p 4 \<noteq> None \<and> ahead 4 (xp_sem p) = 0 \<and> asleep 4 (xp_sem p) \<and>
     pool_run demo_export_env demo_takes p = Some p' \<and> freed demo_export_env demo_takes p = 1 \<and>
     xp_streams p' 0 = Some st \<and> es_query st = demo_query \<and> es_phase st = Ended Cut_off \<and>
     pool_run demo_export_env [Pass (10 ^ 15), Begin 5 demo_query demo_rows_db] p \<noteq> None"
proof -
  have n: "es_start (new_stream t q) = t" "es_rows (new_stream t q) = []" "es_sent (new_stream t q) = []" "es_query (new_stream t q) = q" for t q
    by (simp_all add: new_stream_def)
  show ?thesis
    by (simp add: demo_events_def demo_takes_def idle_pool_def pool_eval n unserved_def ahead_def asleep_def)
qed

section \<open>Properties\<close>

text \<open>
  C24: Exports take turns.  Whatever clients, database and clock do, at most four exports of a process hold a
  slot and with it a pooled connection, every slot is held, free or promised, and a free slot with a queue
  in front of it is about to be handed on.  Nobody is overtaken: an export that waits behind \<open>k\<close>
  others has its slot, or is gone, as soon as \<open>k + 1\<close> slots were given back, however many came after it.
\<close>

theorem exports_take_turns:
  assumes "pool_run env before idle_pool = Some p" "pool_run env later p = Some p'" "xp_streams p i \<noteq> None"
  shows "finite {j. holds_slot p' j} \<and> card {j. holds_slot p' j} + sem_credit (xp_sem p') = 4 \<and>
    (0 < sm_value (xp_sem p') \<longrightarrow> sm_waiters (xp_sem p') = [] \<or> (\<exists>j. (j, True) \<in> set (sm_waiters (xp_sem p')))) \<and>
    (ahead i (xp_sem p) < freed env later p \<longrightarrow> \<not> asleep i (xp_sem p'))"
proof -
  have p: "pool_ok p" by (rule pool_run_ok [OF assms(1) idle_pool_ok])
  then have p': "pool_ok p'" by (rule pool_run_ok [OF assms(2)])
  then have "0 < sm_value (xp_sem p') \<longrightarrow> sm_waiters (xp_sem p') = [] \<or> (\<exists>j. (j, True) \<in> set (sm_waiters (xp_sem p')))"
    by (auto simp: pool_ok_def sem_ok_def list_ex_iff)
  then show ?thesis using p' run_order [OF assms(2) p assms(3)] by (auto simp: pool_ok_def MAX_CONCURRENT_EXPORTS_def)
qed

theorem exports_take_turns_witness:
  "\<exists>p p'. pool_run demo_export_env demo_events idle_pool = Some p \<and> asleep 4 (xp_sem p) \<and>
     pool_run demo_export_env demo_takes p = Some p' \<and> \<not> asleep 4 (xp_sem p') \<and> card {j. holds_slot p' j} + sem_credit (xp_sem p') = 4"
proof -
  obtain p p' where p: "pool_run demo_export_env demo_events idle_pool = Some p" "pool_run demo_export_env demo_takes p = Some p'"
    "xp_streams p 4 \<noteq> None" "ahead 4 (xp_sem p) = 0" "asleep 4 (xp_sem p)" "freed demo_export_env demo_takes p = 1"
    using demo_run by blast
  show ?thesis using exports_take_turns [OF p(1-3)] p by auto
qed



text \<open>
  C26: The time limit does not protect the slots from clients that stop reading.  Once four clients have a
  chunk they do not take, they keep the four slots and nobody else is served one byte, however much time
  passes and whatever else happens: the limit is only looked at when a row arrives, and no row
  arrives in a suspended generator.
\<close>

theorem stalled_clients_block:
  assumes "pool_run env before idle_pool = Some p" "pool_run env later p = Some p'"
    and S: "finite S" "card S = 4" "\<forall>i \<in> S. map_option es_phase (xp_streams p i) = Some Suspended"
    and away: "\<forall>i \<in> S. Some i \<notin> actor ` set later"
  shows "{i. holds_slot p' i} = S \<and> (\<forall>i. i \<notin> S \<and> unserved p i \<longrightarrow> unserved p' i)"
proof -
  have ok: "pool_ok p" "streams_ok env p"
    using pool_run_ok [OF assms(1) idle_pool_ok] streams_run_ok [OF assms(1) idle_streams_ok] by blast+
  have card: "card S = MAX_CONCURRENT_EXPORTS" using S(2) by (simp add: MAX_CONCURRENT_EXPORTS_def)
  have hold: "\<forall>i \<in> S. holds_slot p i" using S(3) by (auto simp: holds_slot_def)
  then have "\<forall>i \<in> S. holds_slot p' i" using run_frame [OF assms(2)] away by (simp add: holds_slot_def)
  then have "{i. holds_slot p' i} = S" using full_pool [OF pool_run_ok [OF assms(2) ok(1)] S(1) card] by simp
  moreover have "unserved p' i" if "i \<notin> S" "unserved p i" for i
    by (rule stalled_run [OF assms(2) ok S(1) card hold away that])
  ultimately show ?thesis by blast
qed

theorem stalled_clients_block_witness:
  "\<exists>p p'. pool_run demo_export_env demo_events idle_pool = Some p \<and>
     pool_run demo_export_env [Pass (10 ^ 15), Begin 5 demo_query demo_rows_db] p = Some p' \<and>
     {i. holds_slot p' i} = {0, 1, 2, 3} \<and> unserved p' 4 \<and> unserved p' 5"
proof -
  obtain p p' where p: "pool_run demo_export_env demo_events idle_pool = Some p"
    "\<forall>i \<in> {0, 1, 2, 3}. map_option es_phase (xp_streams p i) = Some Suspended" "unserved p 4" "unserved p 5"
    "pool_run demo_export_env [Pass (10 ^ 15), Begin 5 demo_query demo_rows_db] p = Some p'"
    using demo_run by blast
  show ?thesis using stalled_clients_block [OF p(1) p(5) _ _ p(2)] p by simp
qed

end
