(* ===== verification/Admin_Health.thy ===== *)
theory Admin_Health imports Alerts Cache begin

text \<open>
  The public health report of \<open>src/api/admin.py\<close>: one fail-soft check per component, the sizes and the
  counters.  What the probed services answer is a parameter; each probe may raise with a text.
\<close>

datatype 'a probe = Raises string | Answers 'a

text \<open>A check: its status and its detail.\<close>

type_synonym check = "string \<times> string"

definition good :: "string \<Rightarrow> check" where "good detail = (''ok'', detail)"
definition degraded :: "string \<Rightarrow> check" where "degraded detail = (''degraded'', detail)"

section \<open>The checks\<close>

text \<open>The registered MQTT client, and whether it is connected.\<close>

definition check_mqtt :: "bool option \<Rightarrow> check" where
  "check_mqtt client =
     (case client of
        None \<Rightarrow> degraded ''ingestion client not running (MQTT_ENABLED unset or startup failed)''
      | Some True \<Rightarrow> good ''connected to broker''
      | Some False \<Rightarrow> degraded ''ingestion client not connected'')"

text \<open>The client, and what \<open>PING\<close>, \<open>DBSIZE\<close> and \<open>INFO memory\<close> give: the key count and the used memory.\<close>

definition check_redis :: "(int \<times> int option) probe option \<Rightarrow> check \<times> int option \<times> int option" where
  "check_redis client =
     (case client of
        None \<Rightarrow> (degraded ''Redis client not available'', None, None)
      | Some (Answers (keys, used)) \<Rightarrow>
          (good (''PING ok, '' @ string_of_int keys @ '' keys''), Some keys, Some (case used of None \<Rightarrow> 0 | Some m \<Rightarrow> m))
      | Some (Raises e) \<Rightarrow> (degraded (''Redis unreachable: '' @ e), None, None))"

definition check_celery_worker :: "nat probe \<Rightarrow> check" where
  "check_celery_worker replies =
     (case replies of
        Answers n \<Rightarrow> if 0 < n then good (string_of_nat n @ '' worker(s) online'') else degraded ''no worker responded to ping''
      | Raises e \<Rightarrow> degraded (''celery control error: '' @ e))"

definition BEAT_HEARTBEAT_KEY :: string where "BEAT_HEARTBEAT_KEY = ''celery:heartbeat:beat''"

text \<open>\<open>error_text\<close> is the text of an exception; subtracting a naive stamp from an aware time raises.\<close>

definition check_celery_beat :: "fmt \<Rightarrow> (string \<Rightarrow> datetime option) \<Rightarrow> (py_error \<Rightarrow> string) \<Rightarrow> timestamp \<Rightarrow> rval redis \<Rightarrow> check \<times> rval redis" where
  "check_celery_beat f fromiso error_text now r =
     (if r = NoClient then (degraded ''Redis unavailable for beat check'', r)
      else let failed = (\<lambda>e. degraded (''failed to check beat heartbeat: '' @ error_text e)) in
        case redis_get now BEAT_HEARTBEAT_KEY r of
          (Inl e, r') \<Rightarrow> (failed e, r')
        | (Inr None, r') \<Rightarrow> (degraded (''no heartbeat yet '' @ emdash @ '' beat has not ticked since startup''), r')
        | (Inr (Some (RText stamp)), r') \<Rightarrow>
            (if stamp = [] then (degraded (''no heartbeat yet '' @ emdash @ '' beat has not ticked since startup''), r')
             else (case fromiso (replace_z stamp) of
                None \<Rightarrow> failed ValueError
              | Some (Naive t) \<Rightarrow> failed TypeError
              | Some (Aware t) \<Rightarrow>
                  (let age = fmt0 f (to_float (of_int (now - t) / 1000000)) in
                   if now - t \<le> seconds 180 then good (''heartbeat fresh ('' @ age @ ''s ago)'')
                   else degraded (''heartbeat stale ('' @ age @ ''s ago > 180s)'')), r'))
        | (Inr (Some v), r') \<Rightarrow> (failed TypeError, r'))"

definition check_timescaledb :: "bool \<Rightarrow> bool probe \<Rightarrow> bool probe \<Rightarrow> check" where
  "check_timescaledb db_up view_query catalog_query =
     (if \<not> db_up then degraded ''skipped (database connection failed)''
      else case view_query of
        Answers True \<Rightarrow> good ''sensor_readings is a hypertable''
      | Answers False \<Rightarrow> degraded ''sensor_readings is not a hypertable''
      | Raises e \<Rightarrow>
          (if catalog_query = Answers True then good ''sensor_readings is a hypertable''
           else degraded ''timescaledb extension absent or unconfigured''))"

definition db_info :: "int option probe \<Rightarrow> check \<times> int option \<times> bool" where
  "db_info answer =
     (case answer of
        Answers size_bytes \<Rightarrow> (good ''PostgreSQL reachable'', size_bytes, True)
      | Raises e \<Rightarrow> ((''error'', ''PostgreSQL error: '' @ e), None, False))"

text \<open>
  The counters, block by block; a block that raises leaves the others alone.
\<close>

definition observability_counters :: "(nat \<times> nat) probe \<Rightarrow> json probe \<Rightarrow> (bool \<times> nat) probe \<Rightarrow> (string \<times> json) list" where
  "observability_counters mqtt publisher limiter =
     (case mqtt of Raises e \<Rightarrow> []
      | Answers (dropped, overflows) \<Rightarrow>
          [(''mqtt_dropped_readings'', JInt (int dropped)), (''mqtt_queue_overflows'', JInt (int overflows))]) @
     (case publisher of Raises e \<Rightarrow> [] | Answers stats \<Rightarrow> [(''alert_publisher'', stats)]) @
     (case limiter of Raises e \<Rightarrow> []
      | Answers (available, bypassed) \<Rightarrow>
          [(''rate_limit_available'', JBool available), (''rate_limit_bypass_total'', JInt (int bypassed))])"

section \<open>The report\<close>

record health_probes =
  hp_database :: "int option probe"
  hp_view_query :: "bool probe"
  hp_catalog_query :: "bool probe"
  hp_redis :: "(int \<times> int option) probe option"
  hp_mqtt :: "bool option"
  hp_workers :: "nat probe"
  hp_counters :: "(string \<times> json) list"

record health_report =
  hr_status :: string
  hr_checks :: "(string \<times> check) list"
  hr_sizes :: "(string \<times> int option) list"
  hr_counters :: "(string \<times> json) list"

definition health :: "fmt \<Rightarrow> (string \<Rightarrow> datetime option) \<Rightarrow> (py_error \<Rightarrow> string) \<Rightarrow> timestamp \<Rightarrow> health_probes \<Rightarrow> rval redis
    \<Rightarrow> health_report response \<times> rval redis" where
  "health f fromiso error_text now p r =
     (let (db_check, db_bytes, db_up) = db_info (hp_database p);
          timescale_check = check_timescaledb db_up (hp_view_query p) (hp_catalog_query p);
          (redis_check, redis_keys, redis_used_mem) = check_redis (hp_redis p);
          mqtt_check = check_mqtt (hp_mqtt p);
          worker_check = check_celery_worker (hp_workers p);
          (beat_check, r') = check_celery_beat f fromiso error_text now r;
          checks = [(''database'', db_check), (''timescaledb'', timescale_check), (''redis'', redis_check),
                    (''mqtt'', mqtt_check), (''celery_worker'', worker_check), (''celery_beat'', beat_check)];
          all_ok = list_all (\<lambda>(name, c). fst c = ''ok'') checks
      in (Reply 200 \<lparr>hr_status = (if all_ok then ''ok'' else ''degraded''), hr_checks = checks,
            hr_sizes = [(''database_bytes'', db_bytes), (''redis_keys'', redis_keys), (''redis_used_memory_bytes'', redis_used_mem)],
            hr_counters = hp_counters p\<rparr>, r'))"

lemmas check_defs = check_mqtt_def check_redis_def check_celery_worker_def check_timescaledb_def db_info_def good_def degraded_def

text \<open>What the beat check sees after the alert task has stamped its heartbeat.\<close>

lemma check_beat_after_stamp:
  assumes iso: "isofmt f t \<noteq> []" "fromiso (replace_z (isofmt f t)) = Some (Aware t)"
  shows "fst (fst (check_celery_beat f fromiso error_text now (stamp_beat_heartbeat f t (Client s [])))) =
    (if now < t + seconds 3600 then if now - t \<le> seconds 180 then ''ok'' else ''degraded'' else ''degraded'')"
proof -
  have stamp: "stamp_beat_heartbeat f t (Client s []) = Client (st_setex t BEAT_HEARTBEAT_KEY 3600 (RText (isofmt f t)) s) []"
    by (simp add: stamp_beat_heartbeat_def redis_setex_def command_cases BEAT_HEARTBEAT_KEY_def)
  show ?thesis
    by (simp add: stamp check_celery_beat_def redis_get_def command_cases st_get_setex Let_def iso good_def degraded_def)
qed

lemma check_thresholds_stamps: "snd (snd (check_thresholds f cfg tr now d r)) = stamp_beat_heartbeat f now r"
  by (simp add: check_thresholds_def Let_def)

section \<open>Properties\<close>

text \<open>
  The report never fails and never flatters: whatever the services answer it is a 200, and it says
  "ok" exactly when the database answers, the readings are a hypertable, Redis answers, the MQTT
  client is connected, a worker answers, and the last run of the alert task lies at most 180 seconds
  back; otherwise it says "degraded" and names a component that is not ok.
\<close>

theorem health_never_flatters:
  assumes run: "snd (snd (check_thresholds f cfg tr t d (Client s []))) = r"
    and iso: "isofmt f t \<noteq> []" "fromiso (replace_z (isofmt f t)) = Some (Aware t)"
    and rep: "health f fromiso error_text now p r = (resp, r')"
  shows "\<exists>report. resp = Reply 200 report \<and> hr_status report \<in> {''ok'', ''degraded''} \<and>
    (hr_status report = ''ok'' \<longleftrightarrow>
      (\<exists>size_bytes. hp_database p = Answers size_bytes) \<and>
      (hp_view_query p = Answers True \<or> (\<exists>e. hp_view_query p = Raises e) \<and> hp_catalog_query p = Answers True) \<and>
      (\<exists>keys used. hp_redis p = Some (Answers (keys, used))) \<and> hp_mqtt p = Some True \<and>
      (\<exists>n > 0. hp_workers p = Answers n) \<and> now - t \<le> seconds 180) \<and>
    (hr_status report = ''degraded'' \<longleftrightarrow> list_ex (\<lambda>(name, c). fst c \<noteq> ''ok'') (hr_checks report))"
proof -
  have r: "r = stamp_beat_heartbeat f t (Client s [])" using run by (simp add: check_thresholds_stamps)
  obtain beat where beat: "check_celery_beat f fromiso error_text now r = (beat, r')"
    using rep by (auto simp: health_def Let_def split: prod.splits)
  have fresh: "fst beat = ''ok'' \<longleftrightarrow> now - t \<le> seconds 180"
  proof -
    have "now - t \<le> seconds 180 \<Longrightarrow> now < t + seconds 3600" by (simp add: seconds_def)
    then show ?thesis using check_beat_after_stamp [where f = f and t = t and fromiso = fromiso, OF iso, of error_text now s] beat by (auto simp: r)
  qed
  have db: "fst (fst (db_info (hp_database p))) = ''ok'' \<longleftrightarrow> (\<exists>size_bytes. hp_database p = Answers size_bytes)"
    "snd (snd (db_info (hp_database p))) \<longleftrightarrow> (\<exists>size_bytes. hp_database p = Answers size_bytes)"
    by (cases "hp_database p"; simp add: check_defs)+
  have ts: "fst (check_timescaledb up v c) = ''ok'' \<longleftrightarrow> up \<and> (v = Answers True \<or> (\<exists>e. v = Raises e) \<and> c = Answers True)" for up v c
    by (auto simp: check_defs split: probe.splits bool.splits)
  have rd: "fst (fst (check_redis q)) = ''ok'' \<longleftrightarrow> (\<exists>keys used. q = Some (Answers (keys, used)))" for q
    by (auto simp: check_defs split: option.splits probe.splits)
  have mq: "fst (check_mqtt q) = ''ok'' \<longleftrightarrow> q = Some True" for q
    by (auto simp: check_defs split: option.splits bool.splits)
  have wk: "fst (check_celery_worker q) = ''ok'' \<longleftrightarrow> (\<exists>n > 0. q = Answers n)" for q
    by (auto simp: check_defs split: probe.splits)
  show ?thesis
    using rep beat fresh db ts rd mq wk
    by (auto simp: health_def Let_def split_def)
qed

definition demo_probes :: health_probes where
  "demo_probes = \<lparr>hp_database = Answers (Some 1000), hp_view_query = Raises ''no extension'', hp_catalog_query = Answers True,
     hp_redis = Some (Answers (3, None)), hp_mqtt = Some True, hp_workers = Answers 2, hp_counters = []\<rparr>"

definition fixed_fmt :: fmt where
  "fixed_fmt = \<lparr>fmt0 = (\<lambda>_. ''100''), isofmt = (\<lambda>_. ''2026-01-01T00:00:00+00:00'')\<rparr>"

theorem health_never_flatters_witness:
  "\<exists>report r'. health fixed_fmt (\<lambda>_. Some (Aware 0)) (\<lambda>_. []) (seconds 100) demo_probes
       (snd (snd (check_thresholds fixed_fmt demo_alert_config demo_transport 0 empty_db (Client [] [])))) = (Reply 200 report, r') \<and>
     hr_status report = ''ok''"
proof -
  let ?r = "snd (snd (check_thresholds fixed_fmt demo_alert_config demo_transport 0 empty_db (Client [] [])))"
  obtain resp r' where rep: "health fixed_fmt (\<lambda>_. Some (Aware 0)) (\<lambda>_. []) (seconds 100) demo_probes ?r = (resp, r')"
    by (metis prod.exhaust)
  have iso: "isofmt fixed_fmt 0 \<noteq> []" "(\<lambda>_. Some (Aware 0)) (replace_z (isofmt fixed_fmt 0)) = Some (Aware 0)"
    by (simp_all add: fixed_fmt_def)
  from health_never_flatters [OF refl iso rep] rep show ?thesis by (auto simp: demo_probes_def seconds_def)
qed

end
