(* ===== verification/Iso_Time.thy ===== *)
theory Iso_Time imports Http Admin_Health begin

text \<open>
  The ISO-8601 texts of the API: what \<open>datetime.isoformat()\<close> makes of a UTC time from 1970 on, the
  \<open>Z\<close> form the response models of \<open>src/api/schemas.py\<close> give it, and \<open>datetime.fromisoformat\<close> on the texts of
  that form, through the query-parameter parser of \<open>src/api/_time.py\<close>.
\<close>

section \<open>Printing\<close>

definition iso_local :: "timestamp \<Rightarrow> string" where
  "iso_local t =
     (let us = nat (t mod 1000000); s = nat (t div 1000000); (y, m, d) = civil (s div 86400); r = s mod 86400
      in padded 4 y @ CHR ''-'' # padded 2 m @ CHR ''-'' # padded 2 d @ CHR ''T'' # padded 2 (r div 3600) @
         CHR '':'' # padded 2 (r div 60 mod 60) @ CHR '':'' # padded 2 (r mod 60) @
         (if us = 0 then [] else CHR ''.'' # padded 6 us))"

definition py_isoformat :: "timestamp \<Rightarrow> string" where "py_isoformat t = iso_local t @ ''+00:00''"

text \<open>\<open>s.replace("+00:00", "Z")\<close>\<close>

function replace_utc :: "string \<Rightarrow> string" where
  "replace_utc [] = []"
| "replace_utc (c # cs) =
     (if take 6 (c # cs) = ''+00:00'' then CHR ''Z'' # replace_utc (drop 5 cs) else c # replace_utc cs)"
  by pat_completeness auto
termination by (relation "measure length") auto

definition iso_z :: "timestamp \<Rightarrow> string" where "iso_z t = replace_utc (py_isoformat t)"

text \<open>\<open>datetime | None\<close>\<close>

definition iso_z_opt :: "timestamp option \<Rightarrow> json" where
  "iso_z_opt t = (case t of None \<Rightarrow> JNull | Some x \<Rightarrow> JStr (iso_z x))"

section \<open>Reading\<close>

definition number :: "string \<Rightarrow> nat option" where
  "number s = (if s \<noteq> [] \<and> list_all is_digit s then Some (foldl (\<lambda>n c. 10 * n + nat (code c - 48)) 0 s) else None)"

definition slice :: "nat \<Rightarrow> nat \<Rightarrow> string \<Rightarrow> string" where "slice i w s = take w (drop i s)"

text \<open>Days from the first of January 1970, also before it.\<close>

definition days_before_year :: "int \<Rightarrow> int" where
  "days_before_year y = (let p = y - 1 in 365 * p + p div 4 - p div 100 + p div 400)"

definition day_number :: "nat \<Rightarrow> nat \<Rightarrow> nat \<Rightarrow> int" where
  "day_number y m d =
     days_before_year (int y) - days_before_year 1970 + int (sum_list (take (m - 1) (month_lengths y))) + (int d - 1)"

definition valid_date :: "nat \<Rightarrow> nat \<Rightarrow> nat \<Rightarrow> bool" where
  "valid_date y m d = (1 \<le> y \<and> 1 \<le> m \<and> m \<le> 12 \<and> 1 \<le> d \<and> d \<le> month_lengths y ! (m - 1))"

text \<open>The offset after the time: none, \<open>Z\<close>, or a sign with hours and minutes.\<close>

definition offset_of :: "string \<Rightarrow> int option option" where
  "offset_of s =
     (if s = [] then Some None
      else if s = ''Z'' then Some (Some 0)
      else if length s = 6 \<and> (s ! 0 = CHR ''+'' \<or> s ! 0 = CHR ''-'') \<and> s ! 3 = CHR '':'' then
        (case (number (slice 1 2 s), number (slice 4 2 s)) of
           (Some h, Some m) \<Rightarrow>
             (if h \<le> 23 \<and> m \<le> 59
              then Some (Some ((if s ! 0 = CHR ''-'' then - 1 else 1) * (3600 * int h + 60 * int m))) else None)
         | _ \<Rightarrow> None)
      else None)"

text \<open>The fraction of a second in microseconds, six digits, and what follows.\<close>

definition fraction_of :: "string \<Rightarrow> (nat \<times> string) option" where
  "fraction_of s =
     (case s of
        c # cs \<Rightarrow> (if c = CHR ''.'' then map_option (\<lambda>us. (us, drop 6 cs)) (if length cs < 6 then None else number (take 6 cs))
                  else Some (0, s))
      | [] \<Rightarrow> Some (0, []))"

text \<open>\<open>YYYY-MM-DD?HH:MM:SS\<close> with any separator, an optional fraction and an optional offset.\<close>

definition iso_extended :: "string \<Rightarrow> datetime option" where
  "iso_extended s =
     (if length s < 19 \<or> s ! 4 \<noteq> CHR ''-'' \<or> s ! 7 \<noteq> CHR ''-'' \<or> s ! 13 \<noteq> CHR '':'' \<or> s ! 16 \<noteq> CHR '':'' then None
      else case (number (slice 0 4 s), number (slice 5 2 s), number (slice 8 2 s)) of
        (Some y, Some m, Some d) \<Rightarrow>
          (case (number (slice 11 2 s), number (slice 14 2 s), number (slice 17 2 s), fraction_of (drop 19 s)) of
             (Some h, Some mi, Some sec, Some (us, rest)) \<Rightarrow>
               (if valid_date y m d \<and> h \<le> 23 \<and> mi \<le> 59 \<and> sec \<le> 59 then
                  let t = seconds (86400 * day_number y m d + 3600 * int h + 60 * int mi + int sec) + int us in
                  (case offset_of rest of
                     None \<Rightarrow> None
                   | Some None \<Rightarrow> Some (Naive t)
                   | Some (Some off) \<Rightarrow> Some (Aware (t - seconds off)))
                else None)
           | _ \<Rightarrow> None)
      | _ \<Rightarrow> None)"

text \<open>\<open>other\<close> decides the forms beside the extended one (basic format, week dates, shortened times).\<close>

definition py_fromisoformat :: "(string \<Rightarrow> datetime option) \<Rightarrow> string \<Rightarrow> datetime option" where
  "py_fromisoformat other s = (case iso_extended s of Some dt \<Rightarrow> Some dt | None \<Rightarrow> other s)"

section \<open>Numbers\<close>

lemma number_padded:
  assumes "0 < w" "n < 10 ^ w"
  shows "number (padded w n) = Some n"
proof -
  have "foldl (\<lambda>k c. 10 * k + nat (code c - 48)) 0 (padded w n) = n mod 10 ^ w" for w n
  proof (induction w arbitrary: n)
    case (Suc w)
    have "nat (code (char_of (48 + n mod 10)) - 48) = n mod 10" by (simp add: code_digit)
    then show ?case using Suc by (simp add: mod_mult2_eq)
  qed simp
  moreover have "padded w n \<noteq> []" using assms(1) length_padded [of w n] by (metis length_greater_0_conv)
  ultimately show ?thesis using assms(2) by (simp add: number_def padded_digits)
qed

lemma div_step: "int y div int k - (int y - 1) div int k = (if k dvd y then 1 else 0)" if "0 < k"
proof (cases "k dvd y")
  case True
  then obtain q where "y = k * q" by auto
  moreover have "(int k * int q - 1) div int k = int q - 1"
    using that by (intro int_div_pos_eq [where r = "int k - 1"]) (auto simp: algebra_simps)
  ultimately show ?thesis using that by simp
next
  case False
  then have "y mod k \<noteq> 0" by (simp add: mod_eq_0_iff_dvd)
  then have "1 \<le> int y mod int k" by (simp only: zmod_int [symmetric])
  moreover have "int y mod int k < int k" using that by simp
  ultimately have "(int y - 1) div int k = int y div int k"
    by (intro int_div_pos_eq [where r = "int y mod int k - 1"]) (simp_all add: minus_mod_eq_mult_div [symmetric])
  then show ?thesis using False by simp
qed

lemma year_step: "int (year_length y) = days_before_year (int y + 1) - days_before_year (int y)"
proof -
  define f where "f k = int y div k - (int y - 1) div k" for k
  have f: "f 4 = (if 4 dvd y then 1 else 0)" "f 100 = (if 100 dvd y then 1 else 0)" "f 400 = (if 400 dvd y then 1 else 0)"
    using div_step [of 4 y] div_step [of 100 y] div_step [of 400 y] by (simp_all add: f_def)
  have "days_before_year (int y + 1) - days_before_year (int y) = 365 + f 4 - f 100 + f 400"
    unfolding days_before_year_def Let_def add_diff_cancel_right' f_def by (simp only: algebra_simps)
  then have e: "days_before_year (int y + 1) - days_before_year (int y) =
      365 + (if 4 dvd y then 1 else 0) - (if 100 dvd y then 1 else 0) + (if 400 dvd y then 1 else 0)"
    by (simp only: f)
  have "4 dvd y" if "100 dvd y" using that by (rule dvd_trans [rotated]) simp
  moreover have "100 dvd y" if "400 dvd y" using that by (rule dvd_trans [rotated]) simp
  ultimately show ?thesis unfolding e year_length_def leap_def by (cases "4 dvd y"; cases "100 dvd y"; cases "400 dvd y") simp_all
qed

lemma years_sum: "1970 \<le> y \<Longrightarrow> int (sum_list (map year_length [1970..<y])) = days_before_year (int y) - days_before_year 1970"
proof (induction y rule: dec_induct)
  case (step y)
  then have "[1970..<Suc y] = [1970..<y] @ [y]" by simp
  then have "int (sum_list (map year_length [1970..<Suc y])) = int (sum_list (map year_length [1970..<y])) + int (year_length y)"
    by (simp only: map_append sum_list.append of_nat_add list.map sum_list.Cons sum_list.Nil add_0_right)
  moreover have "int (Suc y) = int y + 1" by simp
  ultimately show ?case unfolding step.IH year_step by (simp only: algebra_simps)
qed simp

lemma civil_day_number:
  assumes "civil n = (y, m, d)"
  shows "day_number y m d = int n" "valid_date y m d"
proof -
  note c = civil_spec [OF assms]
  show "day_number y m d = int n"
    using c years_sum [of y] by (simp add: day_number_def of_nat_diff)
  obtain e where y: "year_of 1970 n = (y, e)" and m: "month_of 1 (month_lengths y) e = (m, d - 1)"
    using assms by (auto simp: civil_def split: prod.splits)
  have "e < sum_list (month_lengths y)" using year_of_spec [OF y] by (simp add: sum_month_lengths)
  with month_of_spec [OF m] have "d - 1 < month_lengths y ! (m - 1)" by simp
  then show "valid_date y m d" using c by (auto simp: valid_date_def)
qed

section \<open>Round trip\<close>

text \<open>A text of the extended form is read field by field.\<close>

lemma iso_extended_fields:
  assumes len: "length yy = 4" "length mm = 2" "length dd = 2" "length hh = 2" "length nn = 2" "length ss = 2"
    and num: "number yy = Some y" "number mm = Some m" "number dd = Some d" "number hh = Some h" "number nn = Some n" "number ss = Some sec"
    and frac: "fraction_of rest = Some (us, off)" and off: "offset_of off = Some (Some 0)"
    and ok: "valid_date y m d" "h \<le> 23" "n \<le> 59" "sec \<le> 59"
  shows "iso_extended (yy @ CHR ''-'' # mm @ CHR ''-'' # dd @ CHR ''T'' # hh @ CHR '':'' # nn @ CHR '':'' # ss @ rest) =
    Some (Aware (seconds (86400 * day_number y m d + 3600 * int h + 60 * int n + int sec) + int us))"
  (is "iso_extended ?s = _")
proof -
  have nth: "?s ! 4 = CHR ''-''" "?s ! 7 = CHR ''-''" "?s ! 13 = CHR '':''" "?s ! 16 = CHR '':''" and l: "\<not> length ?s < 19"
    using len by (simp_all add: nth_append)
  have sl: "slice 0 4 ?s = yy" "slice 5 2 ?s = mm" "slice 8 2 ?s = dd" "slice 11 2 ?s = hh" "slice 14 2 ?s = nn"
    "slice 17 2 ?s = ss" "drop 19 ?s = rest"
    using len by (simp_all add: slice_def)
  show ?thesis unfolding iso_extended_def nth sl num frac using l ok off by (simp add: seconds_def)
qed

lemma offset_utc: "offset_of ''+00:00'' = Some (Some 0)"
  by code_simp

lemma fraction_cases:
  assumes "us < 1000000"
  shows "fraction_of ((if us = 0 then [] else CHR ''.'' # padded 6 us) @ ''+00:00'') = Some (us, ''+00:00'')"
  using assms number_padded [of 6 us] by (simp add: fraction_of_def)

lemma replace_utc_end:
  assumes "CHR ''+'' \<notin> set p"
  shows "replace_utc (p @ ''+00:00'') = p @ ''Z''"
  using assms by (induction p) auto

lemma replace_z_end:
  assumes "CHR ''Z'' \<notin> set p"
  shows "replace_z (p @ ''Z'') = p @ ''+00:00''"
  using assms by (induction p) auto

lemma padded_numeral: "padded (numeral k) n = padded (pred_numeral k) (n div 10) @ [char_of (48 + n mod 10)]"
  by (simp only: numeral_eq_Suc [of k] padded.simps)

lemma padded_chars: "\<not> is_digit c \<Longrightarrow> c \<notin> set (padded w n)"
  using padded_digits [of w n] by (auto simp: list_all_iff)

lemma replace_z_none: "CHR ''Z'' \<notin> set p \<Longrightarrow> replace_z p = p"
  by (induction p) auto

lemma upt_split:
  assumes "a \<le> b" "b \<le> c"
  shows "[a..<c] = [a..<b] @ [b..<c]"
proof -
  obtain k where "c = b + k" using le_Suc_ex [OF assms(2)] by auto
  then show ?thesis by (simp only: upt_add_eq_append [OF assms(1)])
qed

lemma clock_split:
  fixes s :: nat
  defines "r \<equiv> s mod 86400"
  shows "int s = 86400 * int (s div 86400) + 3600 * int (r div 3600) + 60 * int (r div 60 mod 60) + int (r mod 60)"
proof -
  define q D H M S where "q = r div 60" and "D = s div 86400" and "H = q div 60" and "M = q mod 60" and "S = r mod 60"
  have "r div 3600 = H" unfolding q_def H_def by (simp add: div_mult2_eq [of r 60 60, simplified])
  moreover have "60 * q + S = r" "60 * H + M = q" "86400 * D + r = s" by (simp_all add: q_def D_def H_def M_def S_def r_def)
  ultimately show ?thesis unfolding q_def [symmetric] D_def [symmetric] M_def [symmetric] S_def [symmetric] by linarith
qed

lemma civil_four_digits:
  assumes "civil n = (y, m, d)" "n < 2932897"
  shows "y < 10000"
proof (rule ccontr)
  assume "\<not> y < 10000"
  then have "[1970..<y] = [1970..<10000] @ [10000..<y]" by (intro upt_split) simp_all
  then have "sum_list (map year_length [1970..<10000]) \<le> n"
    using civil_spec [OF assms(1)] by (simp only: map_append sum_list.append)
  moreover have "int (sum_list (map year_length [1970..<10000])) = 2932897"
    by (rule trans [OF years_sum]) (simp_all add: days_before_year_def)
  ultimately show False using assms(2) by (simp only: of_nat_le_iff [symmetric] flip: of_nat_less_iff)
qed

lemma iso_local_chars: "CHR ''+'' \<notin> set (iso_local t)" "CHR ''Z'' \<notin> set (iso_local t)"
  by (auto simp: iso_local_def Let_def padded_chars is_digit_def code_def split: prod.splits)

lemma iso_z_local: "iso_z t = iso_local t @ ''Z''"
  unfolding iso_z_def py_isoformat_def by (rule replace_utc_end [OF iso_local_chars(1)])

lemma iso_extended_isoformat:
  assumes "0 \<le> t" "t < seconds 253402300800"
  shows "iso_extended (py_isoformat t) = Some (Aware t)"
proof -
  define us s where "us = nat (t mod 1000000)" and "s = nat (t div 1000000)"
  define r where "r = s mod 86400"
  obtain y m d where c: "civil (s div 86400) = (y, m, d)" by (cases "civil (s div 86400)")
  have "s < 253402300800" using assms by (simp add: s_def seconds_def)
  then have "y < 10000" by (intro civil_four_digits [OF c]) simp
  moreover have "m < 100" "d < 100" using civil_spec [OF c] by auto
  ultimately have num: "number (padded 4 y) = Some y" "number (padded 2 m) = Some m" "number (padded 2 d) = Some d"
    by (simp_all add: number_padded)
  have r: "r < 86400" "r div 3600 \<le> 23" "r div 60 mod 60 \<le> 59" "r mod 60 \<le> 59" by (simp_all add: r_def)
  then have num2: "number (padded 2 (r div 3600)) = Some (r div 3600)" "number (padded 2 (r div 60 mod 60)) = Some (r div 60 mod 60)"
    "number (padded 2 (r mod 60)) = Some (r mod 60)"
    by (intro number_padded; simp)+
  have us: "us < 1000000" by (simp add: us_def)
  have "t = int s * 1000000 + int us" using assms(1) by (simp add: s_def us_def pos_imp_zdiv_nonneg_iff)
  then have "t = seconds (86400 * day_number y m d + 3600 * int (r div 3600) + 60 * int (r div 60 mod 60) + int (r mod 60)) + int us"
    unfolding civil_day_number(1) [OF c] seconds_def r_def clock_split [of s, symmetric] .
  moreover have "py_isoformat t = padded 4 y @ CHR ''-'' # padded 2 m @ CHR ''-'' # padded 2 d @ CHR ''T'' # padded 2 (r div 3600) @
      CHR '':'' # padded 2 (r div 60 mod 60) @ CHR '':'' # padded 2 (r mod 60) @
      (if us = 0 then [] else CHR ''.'' # padded 6 us) @ ''+00:00''"
    using c by (simp add: py_isoformat_def iso_local_def us_def s_def r_def Let_def)
  ultimately show ?thesis
    using iso_extended_fields [OF _ _ _ _ _ _ num num2 fraction_cases [OF us] offset_utc civil_day_number(2) [OF c] r(2-4)] by simp
qed

text \<open>So the law the health check relies on holds of the real printer and reader.\<close>

lemma isoformat_read:
  assumes "0 \<le> t" "t < seconds 253402300800"
  shows "py_fromisoformat other (replace_z (py_isoformat t)) = Some (Aware t)"
    "py_fromisoformat other (replace_z (iso_z t)) = Some (Aware t)"
  using iso_extended_isoformat [OF assms]
  by (simp_all add: iso_z_local py_isoformat_def replace_z_end iso_local_chars replace_z_none py_fromisoformat_def)

corollary heartbeat_read_back:
  assumes "0 \<le> t" "t < seconds 253402300800" "isofmt f = py_isoformat"
  shows "fst (fst (check_celery_beat f (py_fromisoformat other) error_text now (stamp_beat_heartbeat f t (Client s [])))) =
    (if now < t + seconds 3600 then if now - t \<le> seconds 180 then ''ok'' else ''degraded'' else ''degraded'')"
  using isoformat_read(1) [OF assms(1,2)] by (intro check_beat_after_stamp) (simp_all add: assms(3) py_isoformat_def)

text \<open>C38: A time the API prints, with \<open>Z\<close> as its response models do or with \<open>+00:00\<close> as \<open>isoformat()\<close> does,
  is read back by the query parameters as the same microsecond, for every time from 1970 to the end of
  year 9999, whatever the default and whatever the reader makes of other forms.\<close>

theorem iso_roundtrip:
  assumes "0 \<le> t" "t < seconds 253402300800"
  shows "parse_iso_datetime (py_fromisoformat other) (Some (iso_z t)) dflt = Inr t \<and>
    parse_iso_datetime (py_fromisoformat other) (Some (py_isoformat t)) dflt = Inr t"
  using isoformat_read [OF assms] by (simp add: parse_iso_datetime_def to_utc_def)

theorem iso_roundtrip_witness:
  "iso_z 68214896000042 = ''1972-02-29T12:34:56.000042Z'' \<and>
   parse_iso_datetime (py_fromisoformat (\<lambda>s. None)) (Some ''1972-02-29T12:34:56.000042Z'') 0 = Inr 68214896000042"
proof -
  have "iso_z 68214896000042 = ''1972-02-29T12:34:56.000042Z''"
    by (simp add: iso_z_local iso_local_def civil_def year_of.simps leap_def year_length_def month_lengths_def padded_numeral)
      code_simp
  then show ?thesis using iso_roundtrip [of 68214896000042 "\<lambda>s. None" 0] by (simp add: seconds_def)
qed

end
