(* ===== verification/Forecast.thy ===== *)
theory Forecast imports Models Cache begin

text \<open>
  \<open>src/tasks/forecast.py\<close> and \<open>src/api/forecast.py\<close>: training points, model validation, retraining,
  the sixty predictions, the versioned cache keys and the endpoint.  Parameters: \<open>fe_fit\<close> (the
  regression), \<open>fe_fromiso\<close>, \<open>fe_isofmt\<close>, \<open>fe_strftime\<close> (times), \<open>fe_str\<close> (\<open>str()\<close> of a JSON value that is
  not a string), \<open>fe_points_ok\<close> (the response schema).
\<close>

definition FORECAST_HORIZON_MINUTES :: nat where "FORECAST_HORIZON_MINUTES = 60"
definition MIN_TRAIN_SAMPLES :: nat where "MIN_TRAIN_SAMPLES = 30"
definition TRAIN_WINDOW_DAYS :: int where "TRAIN_WINDOW_DAYS = 7"
definition MODEL_MAX_AGE_HOURS :: int where "MODEL_MAX_AGE_HOURS = 48"
definition MODEL_KEY_TTL :: int where "MODEL_KEY_TTL = 3600"
definition FORECAST_KEY_TTL :: int where "FORECAST_KEY_TTL = 3600"

text \<open>What the regression does: unavailable, raising, or a slope and an intercept.\<close>

datatype fit = NoSklearn | FitRaises | Fitted pyfloat pyfloat

record forecast_env =
  fe_fit :: "(rat \<times> rat) list \<Rightarrow> fit"
  fe_fromiso :: "string \<Rightarrow> datetime option"
  fe_isofmt :: "timestamp \<Rightarrow> string"
  fe_strftime :: "timestamp \<Rightarrow> string"
  fe_str :: "json \<Rightarrow> string"
  fe_points_ok :: "json list \<Rightarrow> bool"

section \<open>Keys\<close>

definition model_cache_key :: "string \<Rightarrow> string" where
  "model_cache_key node_id = ''forecast:model:'' @ node_id"

definition forecast_cache_key :: "string \<Rightarrow> string \<Rightarrow> string" where
  "forecast_cache_key node_id version = ''celery:forecast:'' @ node_id @ '':'' @ version"

definition legacy_forecast_key :: "string \<Rightarrow> string" where
  "legacy_forecast_key node_id = ''celery:forecast:'' @ node_id"

type_synonym model = "(string \<times> json) list"

definition py_str :: "forecast_env \<Rightarrow> json \<Rightarrow> string" where
  "py_str env v = (case v of JStr s \<Rightarrow> s | _ \<Rightarrow> fe_str env v)"

definition model_version :: "forecast_env \<Rightarrow> model \<Rightarrow> string" where
  "model_version env m =
     (let v = get m ''trained_at'' in if truthy v then py_str env v else ''legacy'')"

section \<open>Training data\<close>

text \<open>\<open>timestamp()\<close> divides the microseconds; \<open>float(aqi)\<close> is exact.\<close>

definition to_point :: "reading \<Rightarrow> rat \<times> rat" where
  "to_point r = (fdiv (of_int (s_time r)) 1000000, of_int (the (s_aqi r)))"

definition in_training :: "timestamp \<Rightarrow> reading \<Rightarrow> bool" where
  "in_training now r = (now - days TRAIN_WINDOW_DAYS \<le> s_time r \<and> s_aqi r \<noteq> None)"

definition training_points :: "timestamp \<Rightarrow> reading list \<Rightarrow> string \<Rightarrow> (rat \<times> rat) list" where
  "training_points now rows node_id =
     map to_point (sort_key s_time (select_where (\<lambda>r. s_node_id r = node_id \<and> in_training now r) rows))"

text \<open>\<open>points[nid].append(...)\<close> over the rows ordered by time, into the dict of the given nodes.\<close>

definition add_point :: "string list \<Rightarrow> (string \<Rightarrow> (rat \<times> rat) list) \<Rightarrow> reading \<Rightarrow> (string \<Rightarrow> (rat \<times> rat) list)" where
  "add_point node_ids pts r = (if s_node_id r \<in> set node_ids then pts(s_node_id r := pts (s_node_id r) @ [to_point r]) else pts)"

definition training_points_bulk :: "timestamp \<Rightarrow> reading list \<Rightarrow> string list \<Rightarrow> string \<Rightarrow> (rat \<times> rat) list" where
  "training_points_bulk now rows node_ids =
     (if node_ids = [] then (\<lambda>_. [])
      else foldl (add_point node_ids) (\<lambda>_. [])
        (sort_key s_time (select_where (\<lambda>r. s_node_id r \<in> set node_ids \<and> in_training now r) rows)))"

section \<open>Models\<close>

definition fit_model :: "forecast_env \<Rightarrow> timestamp \<Rightarrow> (rat \<times> rat) list \<Rightarrow> model option" where
  "fit_model env now points =
     (if length points < MIN_TRAIN_SAMPLES then None
      else case fe_fit env points of
        Fitted slope intercept \<Rightarrow>
          (if isfinite slope \<and> isfinite intercept then
             Some [(''slope'', JFloat slope), (''intercept'', JFloat intercept),
                   (''trained_at'', JStr (fe_isofmt env now))]
           else None)
      | _ \<Rightarrow> None)"

definition trained_at_is_fresh :: "forecast_env \<Rightarrow> timestamp \<Rightarrow> json \<Rightarrow> bool" where
  "trained_at_is_fresh env now v =
     (case fe_fromiso env (replace_z (py_str env v)) of
        None \<Rightarrow> False
      | Some dt \<Rightarrow> \<bar>now - to_utc dt\<bar> \<le> hours MODEL_MAX_AGE_HOURS)"

text \<open>\<open>math.isfinite\<close> of an \<open>int\<close> beyond the range of a double raises; the caller catches it.\<close>

definition number_of :: "json \<Rightarrow> pyfloat option" where
  "number_of v = (case v of JInt i \<Rightarrow> Some (to_float (of_int i)) | JFloat x \<Rightarrow> Some x | _ \<Rightarrow> None)"

definition valid_model :: "forecast_env \<Rightarrow> timestamp \<Rightarrow> json \<Rightarrow> bool" where
  "valid_model env now data =
     (case data of
        JObj m \<Rightarrow>
          (case (number_of (get m ''slope''), number_of (get m ''intercept'')) of
             (Some a, Some b) \<Rightarrow> isfinite a \<and> isfinite b \<and>
               (get m ''trained_at'' = JNull \<or> trained_at_is_fresh env now (get m ''trained_at''))
           | _ \<Rightarrow> False)
      | _ \<Rightarrow> False)"

definition get_model :: "forecast_env \<Rightarrow> timestamp \<Rightarrow> string \<Rightarrow> rval redis \<Rightarrow> model option \<times> rval redis" where
  "get_model env now node_id r =
     (if r = NoClient then (None, r)
      else case redis_get now (model_cache_key node_id) r of
        (Inr (Some v), r') \<Rightarrow>
          ((case json_loads v of Some (JObj m) \<Rightarrow> if valid_model env now (JObj m) then Some m else None | _ \<Rightarrow> None), r')
      | (_, r') \<Rightarrow> (None, r'))"

definition cache_model :: "timestamp \<Rightarrow> string \<Rightarrow> model \<Rightarrow> rval redis \<Rightarrow> rval redis" where
  "cache_model now node_id m r =
     (if r = NoClient then r
      else snd (redis_setex now (model_cache_key node_id) MODEL_KEY_TTL (RDoc (JObj m)) r))"

section \<open>Retraining\<close>

definition store_model :: "timestamp \<Rightarrow> string \<Rightarrow> model \<Rightarrow> rval redis \<Rightarrow> rval redis" where
  "store_model now node_id m r =
     (if r = NoClient then r
      else case redis_setex now (model_cache_key node_id) MODEL_KEY_TTL (RDoc (JObj m)) r of
        (Inl e, r') \<Rightarrow> r'
      | (Inr _, r') \<Rightarrow> snd (redis_delete (legacy_forecast_key node_id) r'))"

fun retrain_loop :: "forecast_env \<Rightarrow> timestamp \<Rightarrow> (string \<Rightarrow> (rat \<times> rat) list) \<Rightarrow> string list \<Rightarrow> nat \<times> rval redis
    \<Rightarrow> nat \<times> rval redis" where
  "retrain_loop env now pts [] st = st"
| "retrain_loop env now pts (n # ns) (count, r) =
     (if length (pts n) < MIN_TRAIN_SAMPLES then retrain_loop env now pts ns (count, r)
      else case fit_model env now (pts n) of
        None \<Rightarrow> retrain_loop env now pts ns (count, r)
      | Some m \<Rightarrow> retrain_loop env now pts ns (count + 1, store_model now n m r))"

definition retrain_model :: "forecast_env \<Rightarrow> timestamp \<Rightarrow> bool \<Rightarrow> db \<Rightarrow> rval redis \<Rightarrow> nat \<times> rval redis" where
  "retrain_model env now load_fails d r =
     (if load_fails then (0, r)
      else let ids = map n_node_id (select_where n_is_active (nodes d)) in
        retrain_loop env now (training_points_bulk now (readings d) ids) ids (0, r))"

section \<open>Predictions\<close>

definition fmul_float :: "pyfloat \<Rightarrow> rat \<Rightarrow> pyfloat" where
  "fmul_float x t = (case x of Fin a \<Rightarrow> to_float (a * t) | _ \<Rightarrow> NaN)"

definition fadd_float :: "pyfloat \<Rightarrow> pyfloat \<Rightarrow> pyfloat" where
  "fadd_float x y = (case (x, y) of (Fin a, Fin b) \<Rightarrow> to_float (a + b) | (PInf, Fin _) \<Rightarrow> PInf | (NInf, Fin _) \<Rightarrow> NInf | _ \<Rightarrow> NaN)"

text \<open>\<open>max(0.0, min(500.0, raw))\<close>: Python's \<open>min\<close> and \<open>max\<close> keep the first of two incomparable values.\<close>

definition clamp_aqi :: "pyfloat \<Rightarrow> rat" where
  "clamp_aqi raw = (case raw of Fin x \<Rightarrow> max 0 (min 500 x) | NInf \<Rightarrow> 0 | _ \<Rightarrow> 500)"

definition target_time :: "timestamp \<Rightarrow> nat \<Rightarrow> timestamp" where
  "target_time now step = (let t = now + minutes (int step) in t - t mod seconds 1)"

definition prediction :: "forecast_env \<Rightarrow> timestamp \<Rightarrow> model \<Rightarrow> nat \<Rightarrow> json" where
  "prediction env now m step =
     (let t = target_time now step; ts = fdiv (of_int t) 1000000;
          slope = the (number_of (get m ''slope'')); intercept = the (number_of (get m ''intercept''));
          raw = fadd_float (fmul_float slope ts) intercept
      in JObj [(''time'', JStr (fe_strftime env t)), (''aqi'', JFloat (Fin (py_round1 (clamp_aqi raw))))])"

definition generate_forecast :: "forecast_env \<Rightarrow> timestamp \<Rightarrow> db \<Rightarrow> string \<Rightarrow> rval redis \<Rightarrow> json list \<times> rval redis" where
  "generate_forecast env now d node_id r =
     (let (cached, r1) = get_model env now node_id r;
          (m, r2) = (case cached of
              Some m \<Rightarrow> (Some m, r1)
            | None \<Rightarrow> (case fit_model env now (training_points now (readings d) node_id) of
                None \<Rightarrow> (None, r1) | Some m \<Rightarrow> (Some m, cache_model now node_id m r1)))
      in case m of
        None \<Rightarrow> ([], r2)
      | Some m \<Rightarrow>
          (let ps = map (prediction env now m) [1..<FORECAST_HORIZON_MINUTES + 1]
           in (ps, if r2 = NoClient then r2
                else snd (redis_setex now (forecast_cache_key node_id (model_version env m)) FORECAST_KEY_TTL
                  (RDoc (JList ps)) r2))))"

section \<open>The endpoint\<close>

definition valid_cached_points :: "json option \<Rightarrow> json list option" where
  "valid_cached_points cached =
     (case cached of
        Some (JList ps) \<Rightarrow>
          (if list_all (\<lambda>p. case p of JObj kvs \<Rightarrow> map_of kvs ''time'' \<noteq> None \<and> map_of kvs ''aqi'' \<noteq> None | _ \<Rightarrow> False) ps
           then Some ps else None)
      | _ \<Rightarrow> None)"

text \<open>\<open>crash\<close> and \<open>crash'\<close>: the exception the worker thread raises in the first and in the second run.\<close>

definition run_forecast :: "forecast_env \<Rightarrow> timestamp \<Rightarrow> py_error option \<Rightarrow> db \<Rightarrow> string \<Rightarrow> rval redis
    \<Rightarrow> (py_error + json list) \<times> rval redis" where
  "run_forecast env now crash d node_id r =
     (case crash of Some e \<Rightarrow> (Inl e, r)
      | None \<Rightarrow> (let (ps, r') = generate_forecast env now d node_id r in (Inr ps, r')))"

definition forecast_response :: "string \<Rightarrow> json list \<Rightarrow> json response" where
  "forecast_response node_id ps =
     Reply 200 (JObj [(''node_id'', JStr node_id), (''horizon_minutes'', JInt 60), (''points'', JList ps)])"

definition cached_points :: "forecast_env \<Rightarrow> timestamp \<Rightarrow> string \<Rightarrow> rval redis \<Rightarrow> json list option \<times> rval redis" where
  "cached_points env now node_id r =
     (case cache_get_json now (model_cache_key node_id) r of
        (Some (JObj m), r1) \<Rightarrow>
          (let (c, r2) = cache_get_json now (forecast_cache_key node_id (model_version env m)) r1
           in (valid_cached_points c, r2))
      | (_, r1) \<Rightarrow> (None, r1))"

definition forecast :: "forecast_env \<Rightarrow> timestamp \<Rightarrow> py_error option \<Rightarrow> py_error option \<Rightarrow> string option \<Rightarrow> db
    \<Rightarrow> rval redis \<Rightarrow> json response \<times> rval redis" where
  "forecast env now crash crash' raw_node_id d r =
     (let node_id = strip (case raw_node_id of None \<Rightarrow> [] | Some s \<Rightarrow> s) in
      if node_id = [] then (problem_json 422 ''Unprocessable Entity'' ''node_id is required'', r)
      else if \<not> list_ex (\<lambda>n. n_node_id n = node_id \<and> n_is_active n) (nodes d) then
        (problem_json 404 ''Not Found'' (''Unknown or inactive node_id: '' @ node_id), r)
      else
        let (cached, r1) = cached_points env now node_id r;
            (res, r2) = (case cached of Some ps \<Rightarrow> (Inr ps, r1) | None \<Rightarrow> run_forecast env now crash d node_id r1)
        in case res of
          Inl ImportError \<Rightarrow> (problem_json 503 ''Service Unavailable''
            ''Forecast computation is unavailable (missing scikit-learn). Install scikit-learn to enable forecasts.'', r2)
        | Inl e \<Rightarrow> (problem_json 500 ''Internal Server Error'' ''Forecast failed'', r2)
        | Inr ps \<Rightarrow>
            (if fe_points_ok env ps then (forecast_response node_id ps, r2)
             else case run_forecast env now crash' d node_id r2 of
               (Inl e, r3) \<Rightarrow> (problem_json 500 ''Internal Server Error'' ''Forecast failed'', r3)
             | (Inr ps', r3) \<Rightarrow>
                 (if fe_points_ok env ps' then (forecast_response node_id ps', r3)
                  else (problem_json 500 ''Internal Server Error'' ''An unexpected error occurred'', r3))))"

section \<open>Clamped predictions\<close>

lemma clamp_aqi_range: "0 \<le> clamp_aqi x" "clamp_aqi x \<le> 500"
  by (auto simp: clamp_aqi_def split: pyfloat.splits)

lemma prediction_range: "0 \<le> py_round1 (clamp_aqi x)" "py_round1 (clamp_aqi x) \<le> 500"
  using py_round1_ge [of 0 "clamp_aqi x"] py_round1_le [of "clamp_aqi x" 500] clamp_aqi_range [of x] by simp_all

definition point_ok :: "forecast_env \<Rightarrow> timestamp \<Rightarrow> nat \<Rightarrow> json \<Rightarrow> bool" where
  "point_ok env now step p =
     (case p of
        JObj [(a, JStr t), (b, JFloat (Fin q))] \<Rightarrow> a = ''time'' \<and> b = ''aqi'' \<and> t = fe_strftime env (target_time now step) \<and> 0 \<le> q \<and> q \<le> 500
      | _ \<Rightarrow> False)"

lemma prediction_ok: "point_ok env now step (prediction env now m step)"
  using prediction_range by (simp add: prediction_def point_ok_def Let_def)

lemma target_times: "\<bar>target_time now i - (now + minutes (int i))\<bar> < seconds 1"
proof -
  have "0 \<le> (now + minutes (int i)) mod seconds 1" "(now + minutes (int i)) mod seconds 1 < seconds 1"
    by (simp_all add: time_units)
  then show "\<bar>target_time now i - (now + minutes (int i))\<bar> < seconds 1"
    by (simp add: target_time_def Let_def)
qed

section \<open>The model in use\<close>

definition used_model :: "forecast_env \<Rightarrow> timestamp \<Rightarrow> db \<Rightarrow> string \<Rightarrow> rval redis \<Rightarrow> model option" where
  "used_model env now d node_id r =
     (case fst (get_model env now node_id r) of
        Some m \<Rightarrow> Some m | None \<Rightarrow> fit_model env now (training_points now (readings d) node_id))"

lemma generate_forecast_points:
  "fst (generate_forecast env now d node_id r) =
     (case used_model env now d node_id r of None \<Rightarrow> []
      | Some m \<Rightarrow> map (prediction env now m) [1..<FORECAST_HORIZON_MINUTES + 1])"
  by (simp add: generate_forecast_def used_model_def Let_def split: prod.splits option.splits)

text \<open>Only finite numbers ever reach the predictions.\<close>

definition finite_model :: "model \<Rightarrow> bool" where
  "finite_model m = (case (number_of (get m ''slope''), number_of (get m ''intercept'')) of
     (Some a, Some b) \<Rightarrow> isfinite a \<and> isfinite b | _ \<Rightarrow> False)"

lemma get_model_valid: "fst (get_model env now node_id r) = Some m \<Longrightarrow> valid_model env now (JObj m)"
  by (auto simp: get_model_def split: prod.splits sum.splits option.splits json.splits if_splits)

lemma valid_model_finite: "valid_model env now (JObj m) \<Longrightarrow> finite_model m"
  by (auto simp: valid_model_def finite_model_def split: option.splits)

lemma fit_model_finite: "fit_model env now pts = Some m \<Longrightarrow> finite_model m"
  by (auto simp: fit_model_def finite_model_def get_def number_of_def split: fit.splits if_splits)

lemma used_model_finite: "used_model env now d node_id r = Some m \<Longrightarrow> finite_model m"
  by (auto simp: used_model_def dest: get_model_valid valid_model_finite fit_model_finite split: option.splits)

section \<open>Keys touched\<close>

lemma forecast_key_inj: "forecast_cache_key n v = forecast_cache_key n v' \<longleftrightarrow> v = v'"
  by (simp add: forecast_cache_key_def)

lemma forecast_key_model_key: "forecast_cache_key n v \<noteq> model_cache_key n'"
  by (simp add: forecast_cache_key_def model_cache_key_def)

lemma get_model_holds: "holds now' (snd (get_model env now n r)) = holds now' r"
  by (cases r) (auto simp: get_model_def redis_get_def command_def holds_def Let_def split: option.splits)

lemma cache_model_other: "k \<noteq> model_cache_key n \<Longrightarrow> holds now' (cache_model now n m r) k = holds now' r k"
  by (simp add: cache_model_def kv.put_other)

lemma generate_forecast_keys:
  assumes "k \<noteq> model_cache_key node_id"
    "\<And>m. used_model env now d node_id r = Some m \<Longrightarrow> k \<noteq> forecast_cache_key node_id (model_version env m)"
  shows "holds now' (snd (generate_forecast env now d node_id r)) k = holds now' r k"
  using assms get_model_holds [of now' env now node_id r] cache_model_other [OF assms(1), of now' now]
  by (auto simp: generate_forecast_def used_model_def Let_def kv.put_other split: prod.splits option.splits) metis

section \<open>Training data in one query\<close>

lemma add_points:
  "foldl (add_point ids) pts rows n =
     (if n \<in> set ids then pts n @ map to_point (filter (\<lambda>r. s_node_id r = n) rows) else pts n)"
  by (induction rows arbitrary: pts) (auto simp: add_point_def)

lemma training_points_bulk_eq:
  "n \<in> set ids \<Longrightarrow> training_points_bulk now rows ids n = training_points now rows n"
  by (auto simp: training_points_bulk_def training_points_def add_points filter_sort select_where_def
      intro!: arg_cong [where f = "\<lambda>xs. map to_point (sort_key s_time xs)"] filter_cong)

section \<open>Retraining\<close>

lemma retrain_loop_count:
  "fst (retrain_loop env now pts ns (c, r)) = c + count_where (\<lambda>n. fit_model env now (pts n) \<noteq> None) ns"
proof (induction ns arbitrary: c r)
  case (Cons n ns)
  then show ?case
    by (cases "fit_model env now (pts n)") (auto simp: count_where_def fit_model_def split: if_splits)
qed (simp add: count_where_def)

section \<open>Properties\<close>

text \<open>
  A forecast is empty or consists of exactly sixty points, one per minute from now on, each
  between 0 and 500, whatever slope and intercept the cache or the regression supplied; it is
  empty exactly when no usable model exists, and a model in use is finite.
\<close>

theorem forecast_shape:
  "case used_model env now d node_id r of
     None \<Rightarrow> fst (generate_forecast env now d node_id r) = []
   | Some m \<Rightarrow> finite_model m \<and> length (fst (generate_forecast env now d node_id r)) = 60 \<and>
       list_all (\<lambda>i. point_ok env now (Suc i) (fst (generate_forecast env now d node_id r) ! i) \<and>
         \<bar>target_time now (Suc i) - (now + minutes (int (Suc i)))\<bar> < seconds 1) [0..<60]"
proof (cases "used_model env now d node_id r")
  case None
  then show ?thesis by (simp add: generate_forecast_points)
next
  case (Some m)
  have "point_ok env now (Suc i) (map (prediction env now m) [1..<61] ! i)" if "i < 60" for i
    using that prediction_ok [of env now "Suc i" m] by (simp del: upt_Suc)
  then show ?thesis
    using Some used_model_finite [OF Some] target_times [of now "Suc i" for i]
    by (simp add: generate_forecast_points FORECAST_HORIZON_MINUTES_def list_all_iff del: upt_Suc)
qed

text \<open>
  A slow request cannot clobber a newer model's forecast: computing with one model version
  leaves the cached forecasts of every other version of that node exactly as they are, whatever
  Redis does.
\<close>

theorem stale_forecast_isolated:
  assumes "used_model env now d node_id r = Some m" "v \<noteq> model_version env m"
  shows "holds now' (snd (generate_forecast env now d node_id r)) (forecast_cache_key node_id v) =
    holds now' r (forecast_cache_key node_id v)"
  using assms by (intro generate_forecast_keys) (auto simp: forecast_key_inj forecast_key_model_key)

definition demo_env :: forecast_env where
  "demo_env = \<lparr>fe_fit = (\<lambda>_. NoSklearn), fe_fromiso = (\<lambda>_. Some (Aware 0)), fe_isofmt = (\<lambda>_. ''t''),
     fe_strftime = (\<lambda>_. ''t''), fe_str = (\<lambda>_. []), fe_points_ok = (\<lambda>_. True)\<rparr>"

definition demo_model :: model where
  "demo_model = [(''slope'', JInt 1), (''intercept'', JInt 2), (''trained_at'', JStr ''old'')]"

lemma to_float_small: "to_float 1 = Fin 1" "to_float 2 = Fin 2"
  using to_float_int [of 1] to_float_int [of 2] by simp_all

theorem stale_forecast_isolated_witness:
  "holds 5 (snd (generate_forecast demo_env 0 empty_db ''n'' (Client [(''forecast:model:n'', (RDoc (JObj demo_model), None))] [])))
     (forecast_cache_key ''n'' ''new'') = None"
proof -
  let ?r = "Client [(''forecast:model:n'', (RDoc (JObj demo_model), None))] []"
  have "used_model demo_env 0 empty_db ''n'' ?r = Some demo_model"
    by (simp add: used_model_def get_model_def model_cache_key_def redis_get_def command_def st_get_def live_def
        json_loads_def valid_model_def demo_model_def get_def number_of_def to_float_small isfinite_def
        trained_at_is_fresh_def demo_env_def to_utc_def MODEL_MAX_AGE_HOURS_def time_units)
  moreover have "''new'' \<noteq> model_version demo_env demo_model"
    by (simp add: model_version_def demo_model_def get_def py_str_def)
  ultimately show ?thesis
    by (simp add: stale_forecast_isolated) (simp add: holds_def st_get_def forecast_cache_key_def)
qed

text \<open>
  C16: The bulk query of the retraining gives every node the very points, in the same order, that
  its own query would give, so the fleet-wide and the on-the-fly model agree; and the reported
  number of models is the number of active nodes whose points can be fitted, whatever Redis does.
\<close>

theorem bulk_training_equivalent:
  "(\<forall>n \<in> set ids. training_points_bulk now rows ids n = training_points now rows n) \<and>
   fst (retrain_model env now False d r) =
     count_where (\<lambda>n. fit_model env now (training_points now (readings d) n) \<noteq> None)
       (map n_node_id (select_where n_is_active (nodes d)))"
proof -
  let ?ids = "map n_node_id (select_where n_is_active (nodes d))"
  have "filter (\<lambda>n. fit_model env now (training_points_bulk now (readings d) ?ids n) \<noteq> None) ?ids =
      filter (\<lambda>n. fit_model env now (training_points now (readings d) n) \<noteq> None) ?ids"
    by (rule filter_cong) (simp_all only: training_points_bulk_eq)
  then show ?thesis
    by (simp add: training_points_bulk_eq retrain_model_def Let_def retrain_loop_count count_where_def)
qed

theorem bulk_training_equivalent_witness:
  "training_points_bulk 0 [] [''a'', ''b''] ''a'' = training_points 0 [] ''a''"
  using bulk_training_equivalent [of "[''a'', ''b'']" 0 "[]"] by simp

end
