(* ===== verification/Responses.thy ===== *)
theory Responses imports Iso_Time Nodes Readings Alerts Forecast Profile begin

text \<open>
  The response models of \<open>src/api/schemas.py\<close>: the documents the endpoints answer with, against the fields
  and types the models declare.  Times are printed by \<open>iso_z\<close>.
\<close>

section \<open>Declared fields\<close>

datatype field_type = TInt | TFloat | TStr | TBool | TDict | TTime | TOpt field_type

type_synonym model = "(string \<times> field_type) list"

definition ProfileResponse :: model where
  "ProfileResponse =
     [(''id'', TInt), (''username'', TStr), (''email'', TStr), (''role'', TStr), (''notification_prefs'', TDict), (''is_active'', TBool),
      (''last_login_at'', TOpt TTime), (''created_at'', TTime), (''updated_at'', TTime)]"

definition UserBrief :: model where
  "UserBrief = [(''id'', TInt), (''username'', TStr), (''email'', TStr), (''role'', TStr)]"

definition LatestReading :: model where
  "LatestReading =
     [(''node_id'', TStr), (''time'', TTime), (''temperature'', TOpt TFloat), (''humidity'', TOpt TFloat), (''pressure'', TOpt TFloat),
      (''pm25'', TOpt TFloat), (''pm10'', TOpt TFloat), (''battery_v'', TOpt TFloat), (''fuzzy_score'', TOpt TFloat),
      (''aqi'', TOpt TInt), (''aqi_category'', TOpt TStr), (''is_anomaly'', TBool)]"

definition HistoryBucket :: model where
  "HistoryBucket =
     [(''bucket'', TTime), (''node_id'', TStr), (''avg_temperature'', TOpt TFloat), (''avg_humidity'', TOpt TFloat),
      (''avg_pm25'', TOpt TFloat), (''avg_pm10'', TOpt TFloat), (''avg_aqi'', TOpt TFloat), (''max_aqi'', TOpt TInt),
      (''min_aqi'', TOpt TInt), (''reading_count'', TInt)]"

definition NodeResponse :: model where
  "NodeResponse =
     [(''node_id'', TStr), (''name'', TOpt TStr), (''location_name'', TOpt TStr), (''lat'', TOpt TFloat), (''lon'', TOpt TFloat),
      (''firmware_version'', TOpt TStr), (''reading_interval'', TInt), (''is_active'', TBool), (''registered_at'', TTime),
      (''last_seen'', TOpt TTime)]"

definition AlertResponse :: model where
  "AlertResponse =
     [(''alert_id'', TInt), (''node_id'', TStr), (''parameter'', TStr), (''value'', TFloat), (''threshold'', TFloat), (''severity'', TStr),
      (''message'', TOpt TStr), (''triggered_at'', TTime), (''acknowledged_at'', TOpt TTime), (''acknowledged_by'', TOpt TInt)]"

text \<open>A time on the wire is the \<open>Z\<close> text of the instant the reader makes of it.\<close>

fun has_type :: "field_type \<Rightarrow> json \<Rightarrow> bool" where
  "has_type TInt j = (\<exists>n. j = JInt n)"
| "has_type TFloat j = (\<exists>x. j = JFloat x)"
| "has_type TStr j = (\<exists>s. j = JStr s)"
| "has_type TBool j = (\<exists>b. j = JBool b)"
| "has_type TDict j = (\<exists>d. j = JObj d)"
| "has_type TTime j =
     (case j of JStr s \<Rightarrow> (case iso_extended (replace_z s) of Some (Aware t) \<Rightarrow> s = iso_z t | _ \<Rightarrow> False) | _ \<Rightarrow> False)"
| "has_type (TOpt ty) j = (j = JNull \<or> has_type ty j)"

text \<open>Exactly the declared fields, in order.\<close>

definition conforms :: "model \<Rightarrow> (string \<times> json) list \<Rightarrow> bool" where
  "conforms m doc = list_all2 (\<lambda>(n, ty) (k, v). n = k \<and> has_type ty v) m doc"

section \<open>Documents\<close>

definition user_brief :: "user \<Rightarrow> (string \<times> json) list" where
  "user_brief u = [(''id'', JInt (u_id u)), (''username'', JStr (u_username u)), (''email'', JStr (u_email u)), (''role'', JStr (u_role u))]"

text \<open>\<open>_serialise\<close> of \<open>src/api/alerts.py\<close>.\<close>

definition alert_response :: "alert \<Rightarrow> (string \<times> json) list" where
  "alert_response a =
     [(''alert_id'', JInt (a_alert_id a)), (''node_id'', JStr (a_node_id a)), (''parameter'', JStr (a_parameter a)),
      (''value'', JFloat (Fin (a_value a))), (''threshold'', JFloat (a_threshold a)), (''severity'', JStr (a_severity a)),
      (''message'', jstr (a_message a)), (''triggered_at'', JStr (iso_z (a_triggered_at a))),
      (''acknowledged_at'', iso_z_opt (a_acknowledged_at a)), (''acknowledged_by'', jint (a_acknowledged_by a))]"

section \<open>Types\<close>

definition printable :: "timestamp \<Rightarrow> bool" where "printable t = (0 \<le> t \<and> t < seconds 253402300800)"

lemma iso_z_read: "printable t \<Longrightarrow> iso_extended (replace_z (iso_z t)) = Some (Aware t)"
  using iso_extended_isoformat [of t] by (simp add: printable_def iso_z_local replace_z_end iso_local_chars py_isoformat_def)

lemma has_type_docs [simp]:
  "has_type TInt (JInt n)" "has_type TFloat (JFloat x)" "has_type TStr (JStr s)" "has_type TBool (JBool b)" "has_type TDict (JObj d)"
  "has_type (TOpt TFloat) (jnum r)" "has_type (TOpt TInt) (jint i)" "has_type (TOpt TStr) (jstr so)" "has_type (TOpt TFloat) (jfloat f)"
  by (auto simp: jnum_def jint_def jstr_def jfloat_def split: option.splits)

lemma has_type_times:
  "printable t \<Longrightarrow> has_type TTime (JStr (iso_z t))"
  "pred_option printable to \<Longrightarrow> has_type (TOpt TTime) (iso_z_opt to)"
  "pred_option printable to \<Longrightarrow> has_type (TOpt TTime) (jstr (map_option iso_z to))"
  by (auto simp: iso_z_read iso_z_opt_def jstr_def split: option.splits)

text \<open>The time fields of a row.\<close>

definition node_times :: "node \<Rightarrow> bool" where
  "node_times n = (printable (n_registered_at n) \<and> pred_option printable (n_last_seen n))"

definition alert_times :: "alert \<Rightarrow> bool" where
  "alert_times a = (printable (a_triggered_at a) \<and> pred_option printable (a_acknowledged_at a))"

definition user_times :: "user \<Rightarrow> bool" where
  "user_times u = (printable (u_created_at u) \<and> printable (u_updated_at u) \<and> pred_option printable (u_last_login_at u))"

lemma iso_opt_z: "iso_of aenv = iso_z \<Longrightarrow> iso_opt aenv t = iso_z_opt t"
  by (simp add: iso_opt_def iso_z_opt_def split: option.split)

lemma has_time_some: "printable t \<Longrightarrow> has_type TTime (iso_z_opt (Some t))"
  by (simp add: iso_z_opt_def iso_z_read)

lemmas conforms_defs = conforms_def NodeResponse_def node_response_def LatestReading_def latest_from_reading_def HistoryBucket_def
  history_from_row_def AlertResponse_def alert_response_def ProfileResponse_def serialise_user_def iso_opt_z UserBrief_def user_brief_def

lemma row_conforms:
  "node_times n \<Longrightarrow> conforms NodeResponse (node_response iso_z n)"
  "qe_iso env = iso_z \<Longrightarrow> printable (s_time r) \<Longrightarrow> conforms LatestReading (latest_from_reading env r)"
  "qe_iso env = iso_z \<Longrightarrow> printable (h_bucket h) \<Longrightarrow> conforms HistoryBucket (history_from_row env h)"
  "alert_times a \<Longrightarrow> conforms AlertResponse (alert_response a)"
  "iso_of aenv = iso_z \<Longrightarrow> user_times u \<Longrightarrow> conforms ProfileResponse (serialise_user aenv u)"
  "conforms UserBrief (user_brief u)"
  by (simp_all add: conforms_defs node_times_def alert_times_def user_times_def has_type_times has_time_some del: has_type.simps)

section \<open>Endpoints\<close>

definition db_times :: "db \<Rightarrow> bool" where
  "db_times d =
     (list_all node_times (nodes d) \<and> list_all alert_times (alerts d) \<and> list_all user_times (users d) \<and>
      list_all (\<lambda>r. printable (s_time r)) (readings d))"

lemma updated_rows: "x \<in> set (update_where P f xs) \<Longrightarrow> x \<in> set xs \<or> (\<exists>y \<in> set xs. x = f y)"
  by (auto simp: update_where_def split: if_splits)

lemma latest_of_rows: "r \<in> set (latest_of d) \<Longrightarrow> r \<in> set (readings d)"
proof -
  assume r: "r \<in> set (latest_of d)"
  let ?rows = "select_where (\<lambda>r. active_node d (s_node_id r)) (readings d)"
  obtain n where n: "n \<in> s_node_id ` set ?rows" "r = hd (sort_key (\<lambda>r. - s_time r) (select_where (\<lambda>r. s_node_id r = n) ?rows))"
    using r by (auto simp: latest_of_def Let_def)
  then have "sort_key (\<lambda>r. - s_time r) (select_where (\<lambda>r. s_node_id r = n) ?rows) \<noteq> []"
    by (auto simp: select_where_def filter_empty_conv simp flip: set_empty)
  then have "r \<in> set (select_where (\<lambda>r. s_node_id r = n) ?rows)"
    unfolding n(2) by (metis hd_in_set set_sort)
  then show ?thesis by (simp add: select_where_def)
qed

lemma revive_times: "node_times (revive rq n) = node_times n" "node_times (apply_update rq' n) = node_times n"
  by (simp_all add: node_times_def revive_def apply_update_def)

lemma select_one_times: "select_one P xs = Some x \<Longrightarrow> list_all Q xs \<Longrightarrow> Q x"
  by (auto simp: select_one_def list_all_iff find_Some_iff)

lemma list_alerts_conform:
  assumes "db_times d" "list_alerts severity lmt off d = Reply 200 (page, tot)" "a \<in> set page"
  shows "conforms AlertResponse (alert_response a)"
proof -
  have "a \<in> set (alerts d)"
    using assms(2,3)
    by (auto simp: list_alerts_def problem_json_def newest_first_def select_where_def Let_def split: if_splits option.splits
        dest!: in_set_takeD in_set_dropD)
  then show ?thesis using assms(1) by (intro row_conforms) (simp add: db_times_def list_all_iff)
qed

lemma acknowledge_conforms:
  assumes "db_times d" "printable now" "acknowledge_alert now uid aid d = (Reply 200 a, d')"
  shows "conforms AlertResponse (alert_response a)" "db_times d'"
proof -
  have "alert_times a \<and> db_times d'"
    using assms select_one_times [of _ "alerts d" _ alert_times]
    by (auto simp: acknowledge_alert_def problem_json_def db_times_def alert_times_def list_all_iff Let_def
        split: option.splits if_splits dest!: updated_rows)
  then show "conforms AlertResponse (alert_response a)" "db_times d'" by (simp_all add: row_conforms)
qed

lemma register_conforms:
  assumes "db_times d" "printable now" "register_node iso_z now rq d r = (Reply 201 (JObj doc), d', r')"
  shows "conforms NodeResponse doc" "db_times d'"
proof -
  have new: "node_times (node_of now rq)" using assms(2) by (simp add: node_times_def node_of_def)
  have "conforms NodeResponse doc \<and> db_times d'"
  proof (rule register_cases [of rq d iso_z now r])
    fix old assume old: "select_one (\<lambda>n. n_node_id n = rn_node_id rq) (nodes d) = Some old" "\<not> n_is_active old"
      "register_node iso_z now rq d r = (Reply 201 (JObj (node_response iso_z (revive rq old))),
        d\<lparr>nodes := update_where (\<lambda>n. n_node_id n = rn_node_id rq) (revive rq) (nodes d)\<rparr>,
        cache_delete READINGS_LATEST_KEY (cache_delete NODES_CACHE_KEY r))"
    have "node_times old" using select_one_times [OF old(1), of node_times] assms(1) by (simp add: db_times_def)
    then show ?thesis using old(3) assms(1,3)
      by (auto simp: db_times_def list_all_iff revive_times intro!: row_conforms dest!: updated_rows)
  qed (use assms new in \<open>auto simp: db_times_def problem_json_def intro!: row_conforms\<close>)
  then show "conforms NodeResponse doc" "db_times d'" by blast+
qed

lemma update_conforms:
  assumes "db_times d" "update_node iso_z registry raises nid rq d r = (Reply 200 (JObj doc), sent, d', r')"
  shows "conforms (NodeResponse @ [(''config_pushed'', TBool)]) doc" "db_times d'"
proof -
  obtain old pushed where old: "select_one (\<lambda>n. n_node_id n = nid) (nodes d) = Some old"
    "doc = dict_set ''config_pushed'' (JBool pushed) (node_response iso_z (apply_update rq old))"
    "d' = d\<lparr>nodes := update_where (\<lambda>n. n_node_id n = nid) (apply_update rq) (nodes d)\<rparr>"
    using assms(2) by (auto simp: update_node_def problem_json_def Let_def split: option.splits prod.splits)
  have t: "node_times (apply_update rq old)" using select_one_times [OF old(1), of node_times] assms(1) by (simp add: db_times_def revive_times)
  have "doc = node_response iso_z (apply_update rq old) @ [(''config_pushed'', JBool pushed)]"
    unfolding old(2) by (simp add: node_response_def dict_set_def)
  then show "conforms (NodeResponse @ [(''config_pushed'', TBool)]) doc"
    using row_conforms(1) [OF t] by (auto simp: conforms_def intro!: list_all2_appendI)
  show "db_times d'"
    using assms(1) unfolding old(3) by (auto simp: db_times_def list_all_iff revive_times dest!: updated_rows)
qed

section \<open>Property\<close>


definition demo_register :: register_node_request where
  "demo_register = \<lparr>rn_node_id = ''ESP32-09'', rn_name = Some ''Roof'', rn_location_name = None, rn_lat = None, rn_lon = None,
     rn_firmware_version = None, rn_reading_interval = 60\<rparr>"


end
