(* ===== verification/Load_Generator.thy ===== *)
theory Load_Generator imports Py_Value begin

text \<open>
  \<open>src/scripts/bench.py\<close>: a minimal HTTP/1.1 load generator.  What a connection delivers until it ends is a
  string of bytes; which worker moves next is an event.
\<close>

section \<open>Reading a response\<close>

text \<open>\<open>readline()\<close>: up to and with the next newline, or what is left.\<close>

fun read_line :: "string \<Rightarrow> string \<times> string" where
  "read_line [] = ([], [])"
| "read_line (c # s) = (if c = CHR 0x0A then ([c], s) else let (l, rest) = read_line s in (c # l, rest))"

lemma read_line_length: "read_line s = (l, rest) \<Longrightarrow> length s = length l + length rest \<and> (l = [] \<longleftrightarrow> s = [])"
  by (induction s arbitrary: l rest) (auto split: if_splits prod.splits)

definition CONTENT_LENGTH :: string where "CONTENT_LENGTH = ''content-length:''"

text \<open>The header loop: the length announced last and the rest, or the end of the stream; \<open>int\<close> may refuse.\<close>

function read_headers :: "int \<Rightarrow> string \<Rightarrow> py_error + (int \<times> string) option" where
  "read_headers len s =
     (case read_line s of (l, rest) \<Rightarrow>
        if l = [] then Inr None
        else if l = [CHR 0x0D, CHR 0x0A] then Inr (Some (len, rest))
        else if take (length CONTENT_LENGTH) (lower l) = CONTENT_LENGTH then
          (case int_of_string (drop (length CONTENT_LENGTH) l) of
             None \<Rightarrow> Inl ValueError
           | Some n \<Rightarrow> read_headers n rest)
        else read_headers len rest)"
  by pat_completeness auto
termination by (relation "measure (\<lambda>(len, s). length s)") (auto dest!: sym [of "(_, _)"] read_line_length)

declare read_headers.simps [simp del]

text \<open>The body loop; \<open>arrived\<close> says how many of the bytes still to come are there when \<open>read\<close> is called.\<close>

function read_body :: "(nat \<Rightarrow> nat) \<Rightarrow> int \<Rightarrow> string \<Rightarrow> bool \<times> string" where
  "read_body arrived len s =
     (if len \<le> 0 then (True, s)
      else let chunk = take (min (min 65536 (nat len)) (max 1 (arrived (length s)))) s in
        if chunk = [] then (False, s) else read_body arrived (len - int (length chunk)) (drop (length chunk) s))"
  by pat_completeness auto
termination by (relation "measure (\<lambda>(arrived, len, s). length s)") (auto simp: Let_def)

declare read_body.simps [simp del]

definition read_response :: "(nat \<Rightarrow> nat) \<Rightarrow> string \<Rightarrow> py_error + bool \<times> string" where
  "read_response arrived s =
     (case read_headers 0 s of
        Inl e \<Rightarrow> Inl e
      | Inr None \<Rightarrow> Inr (False, [])
      | Inr (Some (len, rest)) \<Rightarrow> Inr (read_body arrived len rest))"

text \<open>However the bytes trickle in, the body is read exactly when it is all there.\<close>

lemma read_body_result:
  "read_body arrived len s = (if len \<le> int (length s) then (True, drop (nat len) s) else (False, []))"
proof (induction arrived len s rule: read_body.induct)
  case (1 arrived len s)
  show ?case
  proof (cases "len \<le> 0 \<or> s = []")
    case True
    then show ?thesis by (subst read_body.simps) auto
  next
    case False
    define chunk where "chunk = take (min (min 65536 (nat len)) (max 1 (arrived (length s)))) s"
    define k where "k = length chunk"
    have chunk: "chunk \<noteq> []" and len: "\<not> len \<le> 0" using False by (auto simp: chunk_def)
    have k: "0 < k" "k \<le> length s" "int k \<le> len" using chunk len by (auto simp: k_def chunk_def)
    have "read_body arrived len s = read_body arrived (len - int k) (drop k s)"
      by (subst read_body.simps) (use chunk len in \<open>simp only: Let_def if_False k_def chunk_def [symmetric]\<close>)
    also have "\<dots> = (if len - int k \<le> int (length (drop k s)) then (True, drop (nat (len - int k)) (drop k s)) else (False, []))"
      using 1 [OF len chunk_def chunk] by (simp only: k_def)
    finally have step: "read_body arrived len s =
        (if len - int k \<le> int (length (drop k s)) then (True, drop (nat (len - int k)) (drop k s)) else (False, []))" .
    have "nat (len - int k) + k = nat len" using k by linarith
    then have "drop (nat (len - int k)) (drop k s) = drop (nat len) s" by (simp only: drop_drop)
    moreover have "len - int k \<le> int (length (drop k s)) \<longleftrightarrow> len \<le> int (length s)" using k by (simp add: of_nat_diff)
    ultimately show ?thesis unfolding step by simp
  qed
qed

section \<open>The workers\<close>

datatype worker = Fetching | Requesting | Gone

record bench_state =
  bn_remaining :: int
  bn_successes :: nat
  bn_errors :: nat
  bn_latencies :: "int list"
  bn_workers :: "worker list"

definition bench_start :: "nat \<Rightarrow> nat \<Rightarrow> bench_state" where
  "bench_start concurrency requests =
     \<lparr>bn_remaining = int requests, bn_successes = 0, bn_errors = 0, bn_latencies = [], bn_workers = replicate (min concurrency requests) Fetching\<rparr>"

text \<open>A worker enters the lock; its response is read, or the stream ended, after some nanoseconds; its connection breaks.\<close>

datatype bench_event = Takes nat | Answered nat int | Unanswered nat | Breaks nat

fun bench_step :: "bench_event \<Rightarrow> bench_state \<Rightarrow> bench_state option" where
  "bench_step (Takes i) b =
     (if i < length (bn_workers b) \<and> bn_workers b ! i = Fetching then
        (if bn_remaining b \<le> 0 then Some (b\<lparr>bn_workers := (bn_workers b)[i := Gone]\<rparr>)
         else Some (b\<lparr>bn_remaining := bn_remaining b - 1, bn_workers := (bn_workers b)[i := Requesting]\<rparr>))
      else None)"
| "bench_step (Answered i ns) b =
     (if i < length (bn_workers b) \<and> bn_workers b ! i = Requesting then
        Some (b\<lparr>bn_successes := bn_successes b + 1, bn_latencies := bn_latencies b @ [ns], bn_workers := (bn_workers b)[i := Fetching]\<rparr>)
      else None)"
| "bench_step (Unanswered i) b =
     (if i < length (bn_workers b) \<and> bn_workers b ! i = Requesting then
        Some (b\<lparr>bn_errors := bn_errors b + 1, bn_workers := (bn_workers b)[i := Fetching]\<rparr>)
      else None)"
| "bench_step (Breaks i) b =
     (if i < length (bn_workers b) \<and> bn_workers b ! i = Requesting then
        Some (b\<lparr>bn_errors := bn_errors b + 1, bn_workers := (bn_workers b)[i := Gone]\<rparr>)
      else None)"

fun bench_run :: "bench_event list \<Rightarrow> bench_state \<Rightarrow> bench_state option" where
  "bench_run [] b = Some b"
| "bench_run (e # es) b = (case bench_step e b of None \<Rightarrow> None | Some b' \<Rightarrow> bench_run es b')"

section \<open>Percentiles\<close>

text \<open>Nanoseconds in, milliseconds out; the products are rounded as Python does.\<close>

definition percentile_index :: "rat \<Rightarrow> nat \<Rightarrow> nat" where
  "percentile_index q n = nat \<lfloor>fmul (fl64 q) (of_nat n)\<rfloor>"

definition percentiles :: "int list \<Rightarrow> rat \<times> rat \<times> rat" where
  "percentiles values =
     (if values = [] then (0, 0, 0)
      else let vals = sort values; n = length vals - 1; pick = (\<lambda>q. fdiv (of_int (vals ! percentile_index q n)) 1000000)
        in (pick (1/2), pick (95/100), pick (99/100)))"

section \<open>Every request is accounted for\<close>

definition in_flight :: "bench_state \<Rightarrow> nat" where
  "in_flight b = length (filter (\<lambda>w. w = Requesting) (bn_workers b))"

definition bench_ok :: "nat \<Rightarrow> bench_state \<Rightarrow> bool" where
  "bench_ok requests b =
     (0 \<le> bn_remaining b \<and> int (bn_successes b + bn_errors b + in_flight b) + bn_remaining b = int requests \<and>
      length (bn_latencies b) = bn_successes b)"

lemma filter_update_length:
  "i < length ws \<Longrightarrow>
   length (filter P (ws[i := w])) + (if P (ws ! i) then 1 else 0) = length (filter P ws) + (if P w then 1 else 0)"
proof (induction ws arbitrary: i)
  case (Cons a ws)
  then show ?case by (cases i) auto
qed simp

lemma bench_step_ok: "bench_step e b = Some b' \<Longrightarrow> bench_ok n b \<Longrightarrow> bench_ok n b'"
  using filter_update_length [of _ "bn_workers b" "\<lambda>w. w = Requesting"]
  by (cases e) (force simp: bench_ok_def in_flight_def split: if_splits)+

lemma bench_run_ok: "bench_run es b = Some b' \<Longrightarrow> bench_ok n b \<Longrightarrow> bench_ok n b'"
  by (induction es arbitrary: b) (auto split: option.splits intro: bench_step_ok)

lemma bench_accounts:
  assumes "bench_run es (bench_start concurrency requests) = Some b"
  shows "bench_ok requests b" "list_all (\<lambda>w. w = Gone) (bn_workers b) \<Longrightarrow>
    int (bn_successes b + bn_errors b) + bn_remaining b = int requests"
proof -
  have "bench_ok requests (bench_start concurrency requests)" by (simp add: bench_ok_def bench_start_def in_flight_def)
  then show ok: "bench_ok requests b" by (rule bench_run_ok [OF assms])
  show "int (bn_successes b + bn_errors b) + bn_remaining b = int requests" if "list_all (\<lambda>w. w = Gone) (bn_workers b)"
  proof -
    have "in_flight b = 0" using that by (auto simp: in_flight_def filter_empty_conv list_all_iff)
    then show ?thesis using ok by (simp add: bench_ok_def)
  qed
qed

section \<open>The percentiles are ordered\<close>

lemma percentile_index_mono:
  assumes "0 \<le> p" "p \<le> q" "q \<le> 1"
  shows "percentile_index p n \<le> percentile_index q n" "n < 2 ^ 53 \<Longrightarrow> percentile_index q n \<le> n"
proof -
  have p: "0 \<le> fl64 p" using assms(1) by (rule fl64_nonneg)
  have "fmul (fl64 p) (of_nat n) \<le> fmul (fl64 q) (of_nat n)"
    using p fl64_mono [OF assms(2)] by (intro fmul_mono) simp_all
  then show "percentile_index p n \<le> percentile_index q n" by (simp add: percentile_index_def floor_mono nat_mono)
  assume n: "n < 2 ^ 53"
  have "fl64 q \<le> fl64 1" using assms(3) by (rule fl64_mono)
  moreover have "fl64 1 = 1" using fl64_int [of 1] by simp
  ultimately have "fl64 q * of_nat n \<le> of_int (int n)" using mult_right_mono [of "fl64 q" 1 "of_nat n"] by simp
  then have "fmul (fl64 q) (of_nat n) \<le> fl64 (of_int (int n))" unfolding fmul_def by (rule fl64_mono)
  also have "\<dots> = of_int (int n)" using n by (intro fl64_int) simp
  finally have "\<lfloor>fmul (fl64 q) (of_nat n)\<rfloor> \<le> int n" by (simp add: floor_le_iff)
  then show "percentile_index q n \<le> n" by (simp add: percentile_index_def)
qed

lemma percentiles_ordered:
  assumes "percentiles values = (p50, p95, p99)" "values \<noteq> []" "length values \<le> 2 ^ 53"
  shows "p50 \<le> p95 \<and> p95 \<le> p99 \<and> p99 \<le> fdiv (of_int (Max (set values))) 1000000"
proof -
  let ?vals = "sort values" and ?n = "length values - 1"
  have n: "?n < 2 ^ 53" "?n < length ?vals" using assms(2,3) by ((cases "values"; simp)+)
  have le: "fdiv (of_int (?vals ! i)) 1000000 \<le> fdiv (of_int (?vals ! j)) 1000000" if "i \<le> j" "j \<le> ?n" for i j
    using that n(2) sorted_nth_mono [of ?vals i j] by (intro fdiv_mono1) simp_all
  have max: "fdiv (of_int (?vals ! j)) 1000000 \<le> fdiv (of_int (Max (set values))) 1000000" if "j \<le> ?n" for j
  proof -
    have "?vals ! j \<le> Max (set values)" using that n(2) nth_mem [of j ?vals] by (intro Max_ge) auto
    then show ?thesis by (intro fdiv_mono1) simp_all
  qed
  note i = percentile_index_mono [of "1/2" "95/100" ?n] percentile_index_mono [of "95/100" "99/100" ?n]
  have "percentile_index (1/2) ?n \<le> percentile_index (95/100) ?n" "percentile_index (95/100) ?n \<le> percentile_index (99/100) ?n"
    "percentile_index (99/100) ?n \<le> ?n" using i n(1) by simp_all
  then show ?thesis using assms(1,2) le max
    by (auto simp: percentiles_def Let_def)
qed

end
