(* ===== verification/Circuit_Breaker.thy ===== *)
theory Circuit_Breaker imports Redis begin

text \<open>
  \<open>src/celery_app.py\<close>: the circuit breaker that gates every dispatch, over one Redis sorted set of
  failure times per task, and the beat schedule.  The abstract specification is the list of all
  failures; the sorted set with its pruning and its expiry implements it.
\<close>

section \<open>Sorted sets\<close>

text \<open>What a key of the breaker may hold; \<open>Legacy\<close> is the hash of an older deployment.\<close>

datatype cb_value = ZSet "(string \<times> int) list" | Legacy

datatype eval_error = WrongType | Unreachable

definition MAX_FAILED_ATTEMPTS :: nat where "MAX_FAILED_ATTEMPTS = 10"
definition ROLLING_WINDOW_SIZE :: int where "ROLLING_WINDOW_SIZE = 300"
definition FAILED_ATTEMPTS_KEY :: string where "FAILED_ATTEMPTS_KEY = ''celery:circuit_breaker:failed_attempts''"

definition cb_key :: "string \<Rightarrow> string" where "cb_key task = FAILED_ATTEMPTS_KEY @ CHR '':'' # task"

text \<open>\<open>ZREMRANGEBYSCORE key -inf cutoff\<close> and \<open>ZADD\<close>, on the members with their scores.\<close>

definition zprune :: "int \<Rightarrow> (string \<times> int) list \<Rightarrow> (string \<times> int) list" where
  "zprune cutoff z = filter (\<lambda>(m, score). cutoff < score) z"

definition zadd :: "string \<Rightarrow> int \<Rightarrow> (string \<times> int) list \<Rightarrow> (string \<times> int) list" where
  "zadd m score z = (m, score) # filter (\<lambda>(m', s). m' \<noteq> m) z"

text \<open>The two scripts, on the store; a missing key is an empty set, another type is an error.\<close>

definition zset_of :: "timestamp \<Rightarrow> string \<Rightarrow> cb_value store \<Rightarrow> (string \<times> int) list option" where
  "zset_of now key s = (case st_get now key s of None \<Rightarrow> Some [] | Some (ZSet z) \<Rightarrow> Some z | Some Legacy \<Rightarrow> None)"

definition keep_expiry :: "timestamp \<Rightarrow> string \<Rightarrow> cb_value store \<Rightarrow> timestamp option" where
  "keep_expiry now key s = (case map_of s key of Some (v, e) \<Rightarrow> if live now e then e else None | None \<Rightarrow> None)"

definition check_script :: "timestamp \<Rightarrow> string \<Rightarrow> int \<Rightarrow> cb_value store \<Rightarrow> (eval_error + nat) \<times> cb_value store" where
  "check_script now key cutoff s =
     (case zset_of now key s of
        None \<Rightarrow> (Inl WrongType, s)
      | Some z \<Rightarrow>
          (let z' = zprune cutoff z in
           if length z' = 0 then (Inr 0, st_del key s)
           else (Inr (length z'), st_set key (ZSet z') (keep_expiry now key s) s)))"

definition record_script :: "timestamp \<Rightarrow> string \<Rightarrow> int \<Rightarrow> int \<Rightarrow> string \<Rightarrow> int \<Rightarrow> cb_value store \<Rightarrow> (eval_error + nat) \<times> cb_value store" where
  "record_script now key cutoff score member ttl_ms s =
     (case zset_of now key s of
        None \<Rightarrow> (Inl WrongType, s)
      | Some z \<Rightarrow>
          (let z' = zadd member score (zprune cutoff z)
           in (Inr (length z'), st_set key (ZSet z') (Some (now + ttl_ms * 1000)) s)))"

definition eval_script :: "(cb_value store \<Rightarrow> (eval_error + nat) \<times> cb_value store) \<Rightarrow> cb_value redis \<Rightarrow> (eval_error + nat) \<times> cb_value redis" where
  "eval_script f r =
     (case command f r of (Inl e, r') \<Rightarrow> (Inl Unreachable, r') | (Inr x, r') \<Rightarrow> (x, r'))"

text \<open>A key of the wrong type is deleted and the script run once more; the second answer stands.\<close>

definition eval_clean :: "string \<Rightarrow> (cb_value store \<Rightarrow> (eval_error + nat) \<times> cb_value store) \<Rightarrow> cb_value redis \<Rightarrow> (eval_error + nat) \<times> cb_value redis" where
  "eval_clean key f r =
     (case eval_script f r of
        (Inl WrongType, r1) \<Rightarrow>
          (case redis_delete key r1 of
             (Inl e, r2) \<Rightarrow> (Inl Unreachable, r2)
           | (Inr u, r2) \<Rightarrow> eval_script f r2)
      | answer \<Rightarrow> answer)"

section \<open>The breaker\<close>

record breaker =
  cb_enabled :: bool
  cb_redis :: "cb_value redis"

text \<open>\<open>int(datetime.now().timestamp())\<close>\<close>

definition unix_seconds :: "timestamp \<Rightarrow> int" where "unix_seconds now = now div 1000000"

text \<open>The answer: whether the dispatch is allowed.\<close>

definition circuit_for_task :: "timestamp \<Rightarrow> string \<Rightarrow> breaker \<Rightarrow> bool \<times> breaker" where
  "circuit_for_task now task b =
     (if \<not> cb_enabled b then (True, b)
      else let key = cb_key task; cutoff = unix_seconds now - ROLLING_WINDOW_SIZE in
        case eval_clean key (check_script now key cutoff) (cb_redis b) of
          (Inr n, r) \<Rightarrow> (\<not> MAX_FAILED_ATTEMPTS \<le> n, b\<lparr>cb_redis := r\<rparr>)
        | (Inl e, r) \<Rightarrow> (True, b\<lparr>cb_redis := r\<rparr>))"

text \<open>\<open>uid\<close> is the fresh \<open>uuid4\<close> of the call.\<close>

definition record_task_failure :: "timestamp \<Rightarrow> string \<Rightarrow> string \<Rightarrow> breaker \<Rightarrow> breaker" where
  "record_task_failure now uid task b =
     (if \<not> cb_enabled b then b
      else let secs = unix_seconds now; key = cb_key task;
               member = string_of_int secs @ CHR '':'' # uid;
               ttl_ms = (ROLLING_WINDOW_SIZE + 60) * 1000
           in b\<lparr>cb_redis := snd (eval_clean key (record_script now key (secs - ROLLING_WINDOW_SIZE) secs member ttl_ms) (cb_redis b))\<rparr>)"

datatype open_circuit = OpenCircuit string

text \<open>\<open>dispatch\<close> stands for Celery's own \<open>apply_async\<close>.\<close>

definition apply_async :: "timestamp \<Rightarrow> ('q \<Rightarrow> 'q) \<Rightarrow> string \<Rightarrow> 'q \<Rightarrow> breaker \<Rightarrow> (open_circuit + 'q) \<times> breaker" where
  "apply_async now dispatch task q b =
     (case circuit_for_task now task b of
        (True, b') \<Rightarrow> (Inr (dispatch q), b')
      | (False, b') \<Rightarrow> (Inl (OpenCircuit task), b'))"

text \<open>
  \<open>reset_circuit_breaker\<close>: one task's key, or every key the scan pages return; a Redis failure
  ends it.
\<close>

fun delete_pages :: "string list list \<Rightarrow> cb_value redis \<Rightarrow> cb_value redis" where
  "delete_pages [] r = r"
| "delete_pages (ks # pages) r =
     (case command (\<lambda>s. ((), s)) r of
        (Inl e, r') \<Rightarrow> r'
      | (Inr u, r') \<Rightarrow>
          (if ks = [] then delete_pages pages r'
           else case command (\<lambda>s. ((), fold st_del ks s)) r' of
             (Inl e, r'') \<Rightarrow> r''
           | (Inr u, r'') \<Rightarrow> delete_pages pages r''))"

definition reset_circuit_breaker :: "string list list \<Rightarrow> string option \<Rightarrow> breaker \<Rightarrow> breaker" where
  "reset_circuit_breaker pages task b =
     (case task of
        None \<Rightarrow> b\<lparr>cb_redis := delete_pages pages (cb_redis b)\<rparr>
      | Some t \<Rightarrow> b\<lparr>cb_redis := snd (redis_delete (cb_key t) (cb_redis b))\<rparr>)"

definition toggle_circuit_breaker :: "bool \<Rightarrow> breaker \<Rightarrow> breaker" where
  "toggle_circuit_breaker enabled b = b\<lparr>cb_enabled := enabled\<rparr>"

definition on_task_postrun :: "timestamp \<Rightarrow> string \<Rightarrow> string \<Rightarrow> string \<Rightarrow> breaker \<Rightarrow> breaker" where
  "on_task_postrun now uid task state b =
     (if state \<in> {''FAILURE'', ''RETRY''} then record_task_failure now uid task b else b)"

section \<open>The rolling window\<close>

text \<open>What happens to the breaker, in order, and the failures that count: those not reset since.\<close>

datatype cb_event =
    Finished timestamp string string string
  | Asked timestamp string
  | Reset "string option"

type_synonym failures = "(string \<times> timestamp) list"

definition scan_complete :: "(cb_value store \<Rightarrow> string list list) \<Rightarrow> bool" where
  "scan_complete scan =
     (\<forall>s. set (concat (scan s)) = {k \<in> fst ` set s. \<exists>task. k = cb_key task})"

definition stored :: "cb_value redis \<Rightarrow> cb_value store" where
  "stored r = (case r of NoClient \<Rightarrow> [] | Client s fs \<Rightarrow> s)"

fun cb_step :: "(cb_value store \<Rightarrow> string list list) \<Rightarrow> cb_event \<Rightarrow> breaker \<Rightarrow> breaker" where
  "cb_step scan (Finished now uid task state) b = on_task_postrun now uid task state b"
| "cb_step scan (Asked now task) b = snd (circuit_for_task now task b)"
| "cb_step scan (Reset task) b = reset_circuit_breaker (scan (stored (cb_redis b))) task b"

fun fail_step :: "cb_event \<Rightarrow> failures \<Rightarrow> failures" where
  "fail_step (Finished now uid task state) h = (if state \<in> {''FAILURE'', ''RETRY''} then (task, now) # h else h)"
| "fail_step (Asked now task) h = h"
| "fail_step (Reset None) h = []"
| "fail_step (Reset (Some task)) h = filter (\<lambda>(t, tm). t \<noteq> task) h"

definition recent :: "int \<Rightarrow> string \<Rightarrow> failures \<Rightarrow> nat" where
  "recent cutoff task h = length (filter (\<lambda>(t, tm). t = task \<and> cutoff < unix_seconds tm) h)"

fun times_of :: "cb_event \<Rightarrow> timestamp list" where
  "times_of (Finished now uid task state) = [now]"
| "times_of (Asked now task) = [now]"
| "times_of (Reset task) = []"

fun uids_of :: "cb_event \<Rightarrow> string list" where
  "uids_of (Finished now uid task state) = [uid]"
| "uids_of (Asked now task) = []"
| "uids_of (Reset task) = []"

definition fresh_breaker :: breaker where "fresh_breaker = \<lparr>cb_enabled = True, cb_redis = Client [] []\<rparr>"

subsection \<open>The store tracks the failures\<close>

text \<open>The members of a task's set carry uids from \<open>used\<close>; from \<open>now\<close> on, counting over any later cutoff agrees.\<close>

definition member_of :: "string list \<Rightarrow> string \<Rightarrow> bool" where
  "member_of used m = (\<exists>secs uid. uid \<in> set used \<and> m = string_of_int secs @ CHR '':'' # uid)"

definition set_tracks :: "timestamp \<Rightarrow> string list \<Rightarrow> failures \<Rightarrow> string \<Rightarrow> cb_value store \<Rightarrow> bool" where
  "set_tracks now used h task s =
     (\<forall>t \<ge> now. \<exists>z. zset_of t (cb_key task) s = Some z \<and> list_all (member_of used \<circ> fst) z \<and>
        (\<forall>c \<ge> unix_seconds t - ROLLING_WINDOW_SIZE. length (zprune c z) = recent c task h))"

definition tracks :: "timestamp \<Rightarrow> string list \<Rightarrow> failures \<Rightarrow> breaker \<Rightarrow> bool" where
  "tracks now used h b =
     (cb_enabled b \<and> list_all (\<lambda>(task, tm). tm \<le> now) h \<and>
      (\<exists>s. cb_redis b = Client s [] \<and> (\<forall>task. set_tracks now used h task s)))"

lemma cb_key_inj [simp]: "cb_key a = cb_key b \<longleftrightarrow> a = b"
  by (simp add: cb_key_def)

lemma string_of_int_no_colon: "CHR '':'' \<notin> set (string_of_int n)"
proof -
  have "CHR '':'' \<notin> set (string_of_nat k)" for k
    using string_of_nat_digits [of k] by (auto simp: list_all_iff is_digit_def code_def)
  then show ?thesis by (simp add: string_of_int_def)
qed

lemma member_of_fresh: "uid \<notin> set used \<Longrightarrow> \<not> member_of used (string_of_int n @ CHR '':'' # uid)"
proof
  assume uid: "uid \<notin> set used" and "member_of used (string_of_int n @ CHR '':'' # uid)"
  then obtain k v where "v \<in> set used" "string_of_int n @ CHR '':'' # uid = string_of_int k @ CHR '':'' # v"
    by (auto simp: member_of_def)
  then show False using uid split_at_separator [OF _ string_of_int_no_colon string_of_int_no_colon] by metis
qed

lemma member_of_mono: "member_of used m \<Longrightarrow> member_of (uid # used) m"
  by (auto simp: member_of_def)

lemma unix_seconds_mono: "a \<le> b \<Longrightarrow> unix_seconds a \<le> unix_seconds b"
  by (simp add: unix_seconds_def zdiv_mono1)

lemma zprune_zprune: "c \<le> d \<Longrightarrow> zprune d (zprune c z) = zprune d z"
  unfolding zprune_def by (induction z) auto

lemma zprune_length: "c \<le> d \<Longrightarrow> length (zprune d z) \<le> length (zprune c z)"
  by (metis zprune_zprune zprune_def length_filter_le)

lemma zadd_fresh: "list_all (\<lambda>(m', s). m' \<noteq> m) z \<Longrightarrow> zadd m score z = (m, score) # z"
  unfolding zadd_def by (induction z) auto

lemma zset_of_set: "zset_of t k' (st_set k (ZSet z) e s) =
    (if k' = k then (if live t e then Some z else Some []) else zset_of t k' s)"
  by (simp add: zset_of_def)

lemma zset_of_del: "zset_of t k' (st_del k s) = (if k' = k then Some [] else zset_of t k' s)"
  by (simp add: zset_of_def)

lemma set_tracksD:
  assumes "set_tracks now used h task s" "now \<le> t"
  obtains z where "zset_of t (cb_key task) s = Some z" "list_all (member_of used \<circ> fst) z"
    "\<And>c. unix_seconds t - ROLLING_WINDOW_SIZE \<le> c \<Longrightarrow> length (zprune c z) = recent c task h"
  using assms unfolding set_tracks_def by blast

lemma set_tracks_later: "set_tracks now used h task s \<Longrightarrow> now \<le> now' \<Longrightarrow> set_tracks now' used h task s"
  unfolding set_tracks_def by (meson order_trans)

lemma set_tracks_used: "set_tracks now used h task s \<Longrightarrow> set_tracks now (uid # used) h task s"
  unfolding set_tracks_def list_all_iff comp_def by (meson member_of_mono)

lemma recent_Cons:
  "recent c task ((t', tm) # h) = (if t' = task \<and> c < unix_seconds tm then 1 else 0) + recent c task h"
  by (simp add: recent_def)

lemma recent_late:
  "list_all (\<lambda>(t', tm). tm \<le> now) h \<Longrightarrow> unix_seconds now \<le> c \<Longrightarrow> recent c task h = 0"
  unfolding recent_def by (induction h) (auto dest: unix_seconds_mono)

lemma recent_reset: "recent c task (filter (\<lambda>(t', tm). t' \<noteq> task') h) = (if task = task' then 0 else recent c task h)"
  unfolding recent_def by (induction h) auto

subsection \<open>Each operation keeps it\<close>

lemma tracks_check_other:
  assumes "set_tracks now used h task s" "task \<noteq> task'"
  shows "set_tracks now used h task (snd (check_script now' (cb_key task') c s))"
  using assms by (auto simp: set_tracks_def check_script_def zset_of_set zset_of_del Let_def split: option.splits)

lemma check_empty:
  assumes tr: "set_tracks now used h task s" and z: "zset_of now (cb_key task) s = Some z"
    and none: "zprune (unix_seconds now - ROLLING_WINDOW_SIZE) z = []"
  shows "set_tracks now used h task (st_del (cb_key task) s)"
  unfolding set_tracks_def
proof (intro allI impI)
  fix t assume t: "now \<le> t"
  have "recent c task h = 0" if c: "unix_seconds t - ROLLING_WINDOW_SIZE \<le> c" for c
  proof -
    have "unix_seconds now - ROLLING_WINDOW_SIZE \<le> c" using unix_seconds_mono [OF t] c by linarith
    note le = this
    have "length (zprune c z) = recent c task h"
      using tr z le unfolding set_tracks_def by (metis order_refl option.inject)
    moreover have "length (zprune c z) \<le> 0" using zprune_length [OF le, of z] none by simp
    ultimately show ?thesis by simp
  qed
  then show "\<exists>z. zset_of t (cb_key task) (st_del (cb_key task) s) = Some z \<and> list_all (member_of used \<circ> fst) z \<and>
      (\<forall>c \<ge> unix_seconds t - ROLLING_WINDOW_SIZE. length (zprune c z) = recent c task h)"
    by (simp add: zset_of_del zprune_def)
qed

lemma zset_of_expiry:
  assumes "zset_of now key s = Some z" "z \<noteq> []" "now \<le> t"
  shows "zset_of t key s = (if live t (keep_expiry now key s) then Some z else Some [])"
  using assms
  by (auto simp: zset_of_def keep_expiry_def st_get_def live_def split: option.splits if_splits cb_value.splits)

lemma check_keeps:
  assumes tr: "set_tracks now used h task s" and z: "zset_of now (cb_key task) s = Some z"
    and some: "z \<noteq> []"
  shows "set_tracks now used h task
    (st_set (cb_key task) (ZSet (zprune (unix_seconds now - ROLLING_WINDOW_SIZE) z)) (keep_expiry now (cb_key task) s) s)"
  unfolding set_tracks_def
proof (intro allI impI)
  fix t assume t: "now \<le> t"
  let ?k = "cb_key task" and ?z = "zprune (unix_seconds now - ROLLING_WINDOW_SIZE) z"
  let ?e = "keep_expiry now ?k s"
  obtain y where y: "zset_of t ?k s = Some y" "list_all (member_of used \<circ> fst) y"
    "\<And>c. unix_seconds t - ROLLING_WINDOW_SIZE \<le> c \<Longrightarrow> length (zprune c y) = recent c task h"
    using set_tracksD [OF tr t] by blast
  have zy: "y = (if live t ?e then z else [])" using zset_of_expiry [OF z some t] y(1) by (simp split: if_splits)
  have pr: "zprune c (zprune (unix_seconds now - ROLLING_WINDOW_SIZE) y) = zprune c y"
    if "unix_seconds t - ROLLING_WINDOW_SIZE \<le> c" for c
    using that unix_seconds_mono [OF t] by (intro zprune_zprune) linarith
  have mem: "list_all (member_of used \<circ> fst) (zprune d y)" for d
    using y(2) by (auto simp: list_all_iff zprune_def)
  have "zset_of t ?k (st_set ?k (ZSet ?z) ?e s) = Some (zprune (unix_seconds now - ROLLING_WINDOW_SIZE) y)"
    by (simp add: zset_of_set zy zprune_def)
  then show "\<exists>x. zset_of t ?k (st_set ?k (ZSet ?z) ?e s) = Some x \<and> list_all (member_of used \<circ> fst) x \<and>
      (\<forall>c \<ge> unix_seconds t - ROLLING_WINDOW_SIZE. length (zprune c x) = recent c task h)"
    using mem pr y(3) by simp
qed

lemma tracks_check:
  assumes tr: "set_tracks now used h task s"
  defines "c \<equiv> unix_seconds now - ROLLING_WINDOW_SIZE"
  shows "fst (check_script now (cb_key task) c s) = Inr (recent c task h)"
    and "set_tracks now used h task (snd (check_script now (cb_key task) c s))"
proof -
  obtain z where z: "zset_of now (cb_key task) s = Some z" "length (zprune c z) = recent c task h"
    using set_tracksD [OF tr order_refl] unfolding c_def by (metis order_refl)
  then show "fst (check_script now (cb_key task) c s) = Inr (recent c task h)"
    by (auto simp: check_script_def Let_def)
  show "set_tracks now used h task (snd (check_script now (cb_key task) c s))"
  proof (cases "zprune c z = []")
    case True
    then show ?thesis using check_empty [OF tr z(1)] z(1) by (simp add: check_script_def c_def)
  next
    case False
    then have "z \<noteq> []" by (auto simp: zprune_def)
    then show ?thesis using False check_keeps [OF tr z(1)] z(1) by (simp add: check_script_def c_def Let_def)
  qed
qed

lemma record_set_tracks:
  assumes tr: "set_tracks now used h task s" and past: "list_all (\<lambda>(t', tm). tm \<le> now) h"
    and uid: "uid \<notin> set used"
    and z: "zset_of now (cb_key task) s = Some z"
  defines "secs \<equiv> unix_seconds now"
  defines "x \<equiv> zadd (string_of_int secs @ CHR '':'' # uid) secs (zprune (secs - ROLLING_WINDOW_SIZE) z)"
  shows "set_tracks now (uid # used) ((task, now) # h) task (st_set (cb_key task) (ZSet x) (Some (now + 360000000)) s)"
  unfolding set_tracks_def
proof (intro allI impI)
  fix t assume t: "now \<le> t"
  let ?m = "string_of_int secs @ CHR '':'' # uid" and ?s = "st_set (cb_key task) (ZSet x) (Some (now + 360000000)) s"
  have mem: "list_all (member_of used \<circ> fst) z"
    and cnt: "\<And>c. secs - ROLLING_WINDOW_SIZE \<le> c \<Longrightarrow> length (zprune c z) = recent c task h"
    using set_tracksD [OF tr order_refl] z unfolding secs_def by (metis option.inject)+
  have "list_all (\<lambda>(m', s). m' \<noteq> ?m) (zprune (secs - ROLLING_WINDOW_SIZE) z)"
    using mem member_of_fresh [OF uid] by (auto simp: list_all_iff zprune_def)
  then have x: "x = (?m, secs) # zprune (secs - ROLLING_WINDOW_SIZE) z"
    unfolding x_def by (rule zadd_fresh)
  have memx: "list_all (member_of (uid # used) \<circ> fst) x"
  proof -
    have "member_of (uid # used) ?m" by (auto simp: member_of_def)
    then show ?thesis using mem member_of_mono by (auto simp: x list_all_iff zprune_def)
  qed
  have late: "secs \<le> c - 60" if "\<not> live t (Some (now + 360000000))" "unix_seconds t - ROLLING_WINDOW_SIZE \<le> c" for c
  proof -
    have "now + 360000000 \<le> t" using that(1) by (simp add: live_def)
    then have "unix_seconds (now + 360000000) \<le> unix_seconds t" by (rule unix_seconds_mono)
    then show ?thesis using that(2) by (simp add: unix_seconds_def secs_def ROLLING_WINDOW_SIZE_def)
  qed
  have "length (zprune c (if live t (Some (now + 360000000)) then x else [])) = recent c task ((task, now) # h)"
    if c: "unix_seconds t - ROLLING_WINDOW_SIZE \<le> c" for c
  proof (cases "live t (Some (now + 360000000))")
    case True
    have "secs - ROLLING_WINDOW_SIZE \<le> c" using unix_seconds_mono [OF t] c unfolding secs_def by linarith
    then have "length (zprune c (zprune (secs - ROLLING_WINDOW_SIZE) z)) = recent c task h"
      using cnt by (simp add: zprune_zprune)
    then show ?thesis using True by (simp add: x recent_Cons secs_def) (simp add: zprune_def)
  next
    case False
    then have "secs \<le> c" using late [OF False c] by linarith
    then show ?thesis using False recent_late [OF past, of c task]
      by (simp add: recent_Cons secs_def zprune_def)
  qed
  then show "\<exists>y. zset_of t (cb_key task) ?s = Some y \<and> list_all (member_of (uid # used) \<circ> fst) y \<and>
      (\<forall>c \<ge> unix_seconds t - ROLLING_WINDOW_SIZE. length (zprune c y) = recent c task ((task, now) # h))"
    using memx by (cases "live t (Some (now + 360000000))") (simp_all add: zset_of_set)
qed

lemma eval_script_ok: "eval_script f (Client s []) = (fst (f s), Client (snd (f s)) [])"
  by (simp add: eval_script_def command_cases)

lemma eval_clean_ok: "fst (f s) = Inr n \<Longrightarrow> eval_clean key f (Client s []) = (Inr n, Client (snd (f s)) [])"
  by (simp add: eval_clean_def eval_script_ok)

lemma set_tracks_other_failure: "task \<noteq> task' \<Longrightarrow> set_tracks now used ((task', tm) # h) task s = set_tracks now used h task s"
  by (simp add: set_tracks_def recent_Cons)

lemma set_tracks_other_key:
  "task \<noteq> task' \<Longrightarrow> set_tracks now used h task (st_set (cb_key task') v e s) = set_tracks now used h task s"
  by (simp add: set_tracks_def zset_of_def)

lemma tracksE:
  assumes "tracks now used h b"
  obtains s where "b = \<lparr>cb_enabled = True, cb_redis = Client s []\<rparr>" "\<And>task. set_tracks now used h task s"
    "list_all (\<lambda>(t', tm). tm \<le> now) h"
  using assms unfolding tracks_def by (cases b) auto

lemma tracks_later: "tracks now used h b \<Longrightarrow> now \<le> now' \<Longrightarrow> tracks now' used h b"
  unfolding tracks_def by (auto simp: list_all_iff intro: set_tracks_later)

lemma tracks_record:
  assumes tr: "tracks now used h b" and uid: "uid \<notin> set used"
  shows "tracks now (uid # used) ((task, now) # h) (record_task_failure now uid task b)"
proof (rule tracksE [OF tr])
  fix s assume b: "b = \<lparr>cb_enabled = True, cb_redis = Client s []\<rparr>" and s: "\<And>task. set_tracks now used h task s"
    and past: "list_all (\<lambda>(t', tm). tm \<le> now) h"
  obtain z where z: "zset_of now (cb_key task) s = Some z" using set_tracksD [OF s order_refl] by blast
  let ?secs = "unix_seconds now"
  let ?x = "zadd (string_of_int ?secs @ CHR '':'' # uid) ?secs (zprune (?secs - ROLLING_WINDOW_SIZE) z)"
  let ?s = "st_set (cb_key task) (ZSet ?x) (Some (now + 360000000)) s"
  have "record_task_failure now uid task b = \<lparr>cb_enabled = True, cb_redis = Client ?s []\<rparr>"
    using z by (simp add: b record_task_failure_def Let_def eval_clean_ok record_script_def ROLLING_WINDOW_SIZE_def)
  moreover have "set_tracks now (uid # used) ((task, now) # h) t ?s" for t
    by (cases "t = task")
      (simp_all add: record_set_tracks [OF s past uid z] set_tracks_other_failure set_tracks_other_key set_tracks_used [OF s])
  ultimately show ?thesis using past by (auto simp: tracks_def)
qed

lemma tracks_circuit:
  assumes tr: "tracks now used h b"
  shows "fst (circuit_for_task now task b) = (recent (unix_seconds now - ROLLING_WINDOW_SIZE) task h < MAX_FAILED_ATTEMPTS)"
    and "tracks now used h (snd (circuit_for_task now task b))"
proof -
  obtain s where b: "b = \<lparr>cb_enabled = True, cb_redis = Client s []\<rparr>" and s: "\<And>task. set_tracks now used h task s"
    and past: "list_all (\<lambda>(t', tm). tm \<le> now) h"
    using tr by (rule tracksE) blast
  let ?f = "check_script now (cb_key task) (unix_seconds now - ROLLING_WINDOW_SIZE)"
  let ?n = "recent (unix_seconds now - ROLLING_WINDOW_SIZE) task h"
  have eq: "circuit_for_task now task b = (\<not> MAX_FAILED_ATTEMPTS \<le> ?n, \<lparr>cb_enabled = True, cb_redis = Client (snd (?f s)) []\<rparr>)"
    using tracks_check(1) [OF s] by (simp add: b circuit_for_task_def Let_def eval_clean_ok)
  then show "fst (circuit_for_task now task b) = (?n < MAX_FAILED_ATTEMPTS)" by auto
  have "set_tracks now used h t (snd (?f s))" for t
    by (cases "t = task") (simp_all add: tracks_check(2) [OF s] tracks_check_other [OF s])
  then show "tracks now used h (snd (circuit_for_task now task b))" using past by (simp add: eq tracks_def)
qed

lemma delete_pages_ok: "delete_pages pages (Client s []) = Client (fold st_del (concat pages) s) []"
  by (induction pages arbitrary: s) (auto simp: command_cases)

lemma st_get_fold_del: "st_get t k (fold st_del ks s) = (if k \<in> set ks then None else st_get t k s)"
  by (induction ks arbitrary: s) auto

lemma set_tracks_reset:
  assumes "set_tracks now used h task s"
  shows "set_tracks now used (filter (\<lambda>(t', tm). t' \<noteq> task') h) task (st_del (cb_key task') s)"
  using assms by (cases "task = task'") (simp_all add: set_tracks_def zset_of_del recent_reset zprune_def)

lemma set_tracks_none:
  assumes "\<And>t. st_get t (cb_key task) s = None"
  shows "set_tracks now used [] task s"
  using assms by (simp add: set_tracks_def zset_of_def zprune_def recent_def)

lemma tracks_reset_one:
  assumes tr: "tracks now used h b"
  shows "tracks now used (filter (\<lambda>(t', tm). t' \<noteq> task) h) (reset_circuit_breaker pages (Some task) b)"
proof -
  obtain s where b: "b = \<lparr>cb_enabled = True, cb_redis = Client s []\<rparr>" and s: "\<And>task. set_tracks now used h task s"
    and past: "list_all (\<lambda>(t', tm). tm \<le> now) h"
    using tr by (rule tracksE) blast
  have "reset_circuit_breaker pages (Some task) b = \<lparr>cb_enabled = True, cb_redis = Client (st_del (cb_key task) s) []\<rparr>"
    by (simp add: b reset_circuit_breaker_def redis_delete_def command_cases)
  then show ?thesis using past set_tracks_reset [OF s] by (auto simp: tracks_def list_all_iff)
qed

lemma tracks_reset_all:
  assumes tr: "tracks now used h b" and scan: "scan_complete scan"
  shows "tracks now used [] (reset_circuit_breaker (scan (stored (cb_redis b))) None b)"
proof -
  obtain s where b: "b = \<lparr>cb_enabled = True, cb_redis = Client s []\<rparr>"
    using tr by (rule tracksE) blast
  let ?s = "fold st_del (concat (scan s)) s"
  have "cb_key task \<in> set (concat (scan s)) \<or> map_of s (cb_key task) = None" for task
    using scan unfolding scan_complete_def by (auto simp: map_of_eq_None_iff)
  then have "st_get t (cb_key task) ?s = None" for t task
    by (subst st_get_fold_del) (metis option.simps(4) st_get_def)
  then show ?thesis
    by (simp add: tracks_def b reset_circuit_breaker_def stored_def delete_pages_ok set_tracks_none)
qed

fun on_time :: "timestamp \<Rightarrow> cb_event list \<Rightarrow> bool" where
  "on_time now [] = True"
| "on_time now (e # es) = (list_all (\<lambda>t. now \<le> t) (times_of e) \<and> on_time (last (now # times_of e)) es)"

lemma tracks_step:
  assumes "tracks now used h b" "list_all (\<lambda>t. now \<le> t) (times_of e)" "set (uids_of e) \<inter> set used = {}" "scan_complete scan"
  shows "tracks (last (now # times_of e)) (uids_of e @ used) (fail_step e h) (cb_step scan e b)"
proof (cases e)
  case (Finished t uid task state)
  then show ?thesis
    using tracks_record [of t used h b uid task] tracks_later [OF assms(1), of t] assms(2,3)
    by (auto simp: on_task_postrun_def tracks_def intro: set_tracks_used)
next
  case (Asked t task)
  then show ?thesis using tracks_circuit(2) [OF tracks_later [OF assms(1), of t]] assms(2) by simp
next
  case (Reset task)
  then show ?thesis
    using tracks_reset_one [OF assms(1)] tracks_reset_all [OF assms(1,4)] by (cases task) simp_all
qed

lemma tracks_run:
  assumes "scan_complete scan" "tracks now used h b" "on_time now es"
    "distinct (concat (map uids_of es))" "set (concat (map uids_of es)) \<inter> set used = {}"
  shows "\<exists>used'. tracks (last (now # concat (map times_of es))) used' (fold fail_step es h) (fold (cb_step scan) es b)"
  using assms(2-)
proof (induction es arbitrary: now used h b)
  case (Cons e es)
  have "last (now # concat (map times_of (e # es))) = last (last (now # times_of e) # concat (map times_of es))"
    by (cases "concat (map times_of es) = []") auto
  moreover have "\<exists>used'. tracks (last (last (now # times_of e) # concat (map times_of es))) used'
      (fold fail_step es (fail_step e h)) (fold (cb_step scan) es (cb_step scan e b))"
  proof (rule Cons.IH)
    show "tracks (last (now # times_of e)) (uids_of e @ used) (fail_step e h) (cb_step scan e b)"
      using Cons.prems assms(1) by (intro tracks_step) auto
  qed (use Cons.prems in auto)
  ultimately show ?case by simp
qed auto

lemma tracks_fresh: "tracks now [] [] fresh_breaker"
  by (simp add: tracks_def fresh_breaker_def set_tracks_none st_get_def)

section \<open>The beat schedule\<close>

datatype schedule = Every int | Crontab "nat option" nat

definition BEAT_SCHEDULE :: "(string \<times> string \<times> schedule) list" where
  "BEAT_SCHEDULE =
     [(''alert-threshold-check'', ''empyrean.tasks.alerts.check_thresholds'', Every 60),
      (''hourly-aggregation'', ''empyrean.tasks.aggregation.hourly_aggregate'', Crontab None 7),
      (''forecast-model-retraining'', ''empyrean.tasks.forecast.retrain_model'', Crontab None 37),
      (''data-retention-cleanup'', ''empyrean.tasks.aggregation.data_retention_cleanup'', Crontab (Some 3) 23),
      (''refresh-token-cleanup'', ''empyrean.tasks.aggregation.refresh_token_cleanup'', Crontab (Some 3) 41),
      (''password-reset-token-cleanup'', ''empyrean.tasks.aggregation.password_reset_token_cleanup'', Crontab (Some 3) 47)]"

text \<open>The crontab jobs due at a minute of the day.\<close>

fun due :: "nat \<Rightarrow> nat \<Rightarrow> schedule \<Rightarrow> bool" where
  "due h m (Every s) = False"
| "due h m (Crontab hour minute) = (m = minute \<and> (case hour of None \<Rightarrow> True | Some h' \<Rightarrow> h = h'))"

lemma one_job_a_minute: "length (filter (\<lambda>(name, task, sched). due h m sched) BEAT_SCHEDULE) \<le> 1"
  by (simp add: BEAT_SCHEDULE_def)

section \<open>Properties\<close>

text \<open>
  C22: The breaker implements a rolling window over all failures.  After any sequence of task outcomes,
  checks and resets in the order of time, with Redis up and every call's uid its own, a dispatch
  goes through exactly when fewer than ten failures of that task, none of them reset since, lie
  within the last 300 seconds; otherwise it raises and nothing is dispatched.
\<close>

theorem breaker_refines_window:
  assumes scan: "scan_complete scan" and times: "on_time 0 es" "last (0 # concat (map times_of es)) \<le> now"
    and uids: "distinct (concat (map uids_of es))"
  shows "fst (apply_async now dispatch task q (fold (cb_step scan) es fresh_breaker)) =
    (if recent (unix_seconds now - 300) task (fold fail_step es []) < 10 then Inr (dispatch q) else Inl (OpenCircuit task))"
proof -
  obtain used where "tracks (last (0 # concat (map times_of es))) used (fold fail_step es []) (fold (cb_step scan) es fresh_breaker)"
    using tracks_run [OF scan tracks_fresh times(1) uids] by auto
  then have "fst (circuit_for_task now task (fold (cb_step scan) es fresh_breaker)) =
      (recent (unix_seconds now - 300) task (fold fail_step es []) < 10)"
    using tracks_circuit(1) [OF tracks_later [OF _ times(2)]] by (simp add: ROLLING_WINDOW_SIZE_def MAX_FAILED_ATTEMPTS_def)
  then show ?thesis
    by (cases "circuit_for_task now task (fold (cb_step scan) es fresh_breaker)") (simp add: apply_async_def)
qed

definition prefix_scan :: "cb_value store \<Rightarrow> string list list" where
  "prefix_scan s = [filter (\<lambda>k. take (length FAILED_ATTEMPTS_KEY + 1) k = FAILED_ATTEMPTS_KEY @ '':'') (map fst s)]"

lemma prefix_scan_complete: "scan_complete prefix_scan"
proof -
  have "take (length FAILED_ATTEMPTS_KEY + 1) k = FAILED_ATTEMPTS_KEY @ '':'' \<longleftrightarrow> (\<exists>task. k = cb_key task)" for k
    by (metis (no_types, opaque_lifting) append.assoc append_Cons append_Nil append_take_drop_id cb_key_def
        append_eq_conv_conj length_append length_Cons list.size(3) One_nat_def)
  then show ?thesis by (auto simp: scan_complete_def prefix_scan_def)
qed

definition demo_failures :: "cb_event list" where
  "demo_failures =
     [Finished (seconds 100) ''a'' ''t'' ''RETRY'', Finished (seconds 101) ''b'' ''t'' ''RETRY'', Finished (seconds 102) ''c'' ''t'' ''RETRY'',
      Asked (seconds 103) ''t'', Finished (seconds 104) ''d'' ''t'' ''RETRY'', Finished (seconds 105) ''e'' ''t'' ''FAILURE'',
      Finished (seconds 106) ''f'' ''t'' ''RETRY'', Finished (seconds 106) ''g'' ''t'' ''SUCCESS'', Finished (seconds 106) ''h'' ''u'' ''RETRY'',
      Finished (seconds 107) ''i'' ''t'' ''RETRY'', Finished (seconds 108) ''j'' ''t'' ''RETRY'', Finished (seconds 109) ''k'' ''t'' ''RETRY'',
      Finished (seconds 110) ''l'' ''t'' ''RETRY'']"

theorem breaker_refines_window_witness:
  "fst (apply_async (seconds 399) Suc ''t'' 0 (fold (cb_step prefix_scan) demo_failures fresh_breaker)) = Inl (OpenCircuit ''t'')
   \<and> fst (apply_async (seconds 400) Suc ''t'' 0 (fold (cb_step prefix_scan) demo_failures fresh_breaker)) = Inr 1"
proof -
  have *: "on_time 0 demo_failures" "last (0 # concat (map times_of demo_failures)) = seconds 110"
    "distinct (concat (map uids_of demo_failures))"
    by (simp_all add: demo_failures_def seconds_def)
  have "recent (unix_seconds (seconds 399) - 300) ''t'' (fold fail_step demo_failures []) = 10"
    "recent (unix_seconds (seconds 400) - 300) ''t'' (fold fail_step demo_failures []) = 9"
    by (simp_all add: demo_failures_def seconds_def unix_seconds_def recent_def)
  then show ?thesis
    using breaker_refines_window [OF prefix_scan_complete *(1) _ *(3), of "seconds 399" Suc "''t''" 0]
      breaker_refines_window [OF prefix_scan_complete *(1) _ *(3), of "seconds 400" Suc "''t''" 0] *(2)
    by (simp add: seconds_def)
qed

lemma check_script_evidence:
  assumes "fst (check_script now key c s) = Inr n" "0 < n"
  shows "\<exists>z. st_get now key s = Some (ZSet z) \<and> n = length (zprune c z)"
  using assms by (auto simp: check_script_def zset_of_def zprune_def Let_def split: option.splits cb_value.splits if_splits)

lemma check_after_delete: "fst (check_script now key c (st_del key s)) = Inr 0"
  by (simp add: check_script_def zset_of_del zprune_def)

lemma eval_clean_evidence:
  assumes "eval_clean key (check_script now key c) r = (Inr n, r')" "0 < n"
  shows "\<exists>z. holds now r key = Some (ZSet z) \<and> n = length (zprune c z)"
  using assms check_script_evidence [of now key c _ n] check_after_delete [of now key c]
  by (cases r)
    (auto simp: eval_clean_def eval_script_def redis_delete_def command_def holds_def split_def Let_def
      split: if_splits sum.splits eval_error.splits)

text \<open>
  The breaker fails open: a dispatch is refused only on evidence.  Whenever \<open>apply_async\<close> raises,
  the breaker is enabled and the live sorted set of that very task holds at least ten failures
  newer than the window; every Redis failure, an unreachable store or a key of the wrong type lets
  the dispatch through.
\<close>

theorem breaker_fails_open:
  assumes "fst (apply_async now dispatch task q b) = Inl e"
  shows "e = OpenCircuit task \<and> cb_enabled b \<and>
    (\<exists>z. holds now (cb_redis b) (cb_key task) = Some (ZSet z) \<and> 10 \<le> length (zprune (unix_seconds now - 300) z))"
proof -
  obtain b' where c: "circuit_for_task now task b = (False, b')" and e: "e = OpenCircuit task"
    using assms by (auto simp: apply_async_def split: prod.splits bool.splits)
  have en: "cb_enabled b" using c by (auto simp: circuit_for_task_def split: if_splits)
  then obtain n r where "eval_clean (cb_key task) (check_script now (cb_key task) (unix_seconds now - 300)) (cb_redis b) = (Inr n, r)" "10 \<le> n"
    using c by (auto simp: circuit_for_task_def Let_def ROLLING_WINDOW_SIZE_def MAX_FAILED_ATTEMPTS_def split: prod.splits sum.splits)
  then show ?thesis using e en eval_clean_evidence by fastforce
qed

definition tripped :: breaker where
  "tripped = \<lparr>cb_enabled = True, cb_redis = Client [(cb_key ''t'', (ZSet (map (\<lambda>i. (string_of_nat i, 100)) [0..<10]), None))] []\<rparr>"

theorem breaker_fails_open_witness:
  "fst (apply_async (seconds 200) Suc ''t'' 0 tripped) = Inl (OpenCircuit ''t'') \<and>
   fst (apply_async (seconds 200) Suc ''t'' 0 (tripped\<lparr>cb_redis := NoClient\<rparr>)) = Inr 1 \<and>
   (\<exists>z. holds (seconds 200) (cb_redis tripped) (cb_key ''t'') = Some (ZSet z) \<and> 10 \<le> length (zprune (unix_seconds (seconds 200) - 300) z))"
proof -
  have open_circuit: "fst (apply_async (seconds 200) Suc ''t'' 0 tripped) = Inl (OpenCircuit ''t'')"
    by code_simp
  moreover have "fst (apply_async (seconds 200) Suc ''t'' 0 (tripped\<lparr>cb_redis := NoClient\<rparr>)) = Inr 1"
    by code_simp
  ultimately show ?thesis using breaker_fails_open [OF open_circuit] by blast
qed

end
