(* ===== verification/Mqtt_Publisher.thy ===== *)
theory Mqtt_Publisher imports Models "HOL-Library.Multiset" begin

text \<open>
  \<open>src/mqtt/publisher.py\<close>: best-effort alert publishing of a worker process.  Messages that cannot be
  published wait in a bounded queue and are retried in batches; the client is built lazily and
  never without the TLS the broker expects.  What the broker library does is a parameter.
\<close>

section \<open>The client\<close>

record pub_config =
  pc_use_tls :: bool
  pc_ca :: string
  pc_cert :: string
  pc_key :: string
  pc_port :: int

definition broker_requires_tls :: "pub_config \<Rightarrow> bool" where
  "broker_requires_tls cfg = (pc_port cfg \<in> {8883, 8884})"

text \<open>A built client is recorded by whether it uses TLS; \<open>build_ok\<close>: no call of the library raises.\<close>

definition get_pub_client :: "pub_config \<Rightarrow> bool \<Rightarrow> bool option \<Rightarrow> bool option" where
  "get_pub_client cfg build_ok client =
     (case client of
        Some tls \<Rightarrow> Some tls
      | None \<Rightarrow>
          (if pc_use_tls cfg then
             (if pc_ca cfg = [] \<or> pc_cert cfg = [] \<or> pc_key cfg = [] then None
              else if build_ok then Some True else None)
           else if broker_requires_tls cfg then None
           else if build_ok then Some False else None))"

section \<open>The queue of failed messages\<close>

definition MAX_RETRY_ATTEMPTS :: nat where "MAX_RETRY_ATTEMPTS = 5"
definition RETRY_BATCH_SIZE :: nat where "RETRY_BATCH_SIZE = 10"
definition MAX_FAILED_QUEUE_SIZE :: nat where "MAX_FAILED_QUEUE_SIZE = 100"

text \<open>A payload of \<open>air/alerts\<close>, and a queued one with its number of failed retries.\<close>

record alert_payload =
  ap_node_id :: string
  ap_aqi :: rat
  ap_category :: "string option"
  ap_severity :: string
  ap_timestamp :: string

type_synonym failed = "alert_payload \<times> nat"

record publisher =
  pb_queue :: "failed list"
  pb_client :: "bool option"
  pb_published :: "alert_payload list"
  pb_dropped :: "alert_payload list"

text \<open>\<open>collections.deque(maxlen)\<close>: \<open>append\<close> drops at the left end, \<open>extendleft\<close> at the right end.\<close>

definition dq_append :: "nat \<Rightarrow> 'a \<Rightarrow> 'a list \<Rightarrow> 'a list" where
  "dq_append limit x q = (if length q < limit then q @ [x] else drop 1 q @ [x])"

definition dq_prepend :: "nat \<Rightarrow> 'a list \<Rightarrow> 'a list \<Rightarrow> 'a list" where
  "dq_prepend limit xs q = take limit (xs @ q)"

definition queue_failed_message :: "alert_payload \<Rightarrow> publisher \<Rightarrow> publisher" where
  "queue_failed_message p st =
     (if MAX_FAILED_QUEUE_SIZE \<le> length (pb_queue st)
      then st\<lparr>pb_queue := dq_append MAX_FAILED_QUEUE_SIZE (p, 0) (drop 1 (pb_queue st)),
              pb_dropped := pb_dropped st @ map fst (take 1 (pb_queue st))\<rparr>
      else st\<lparr>pb_queue := dq_append MAX_FAILED_QUEUE_SIZE (p, 0) (pb_queue st)\<rparr>)"

text \<open>What a call of \<open>client.publish\<close> does: raise, or return a code.\<close>

datatype answer = Raises | Code int

text \<open>\<open>encodable\<close>: whether \<open>json.dumps\<close> returns.  The loop ends with the exception it re-raises, if any.\<close>

fun retry_loop :: "(alert_payload \<Rightarrow> bool) \<Rightarrow> (nat \<Rightarrow> answer) \<Rightarrow> nat \<Rightarrow> failed list \<Rightarrow> publisher \<Rightarrow> publisher" where
  "retry_loop encodable answers i [] st = st"
| "retry_loop encodable answers i ((p, attempt) # batch) st =
     (if MAX_RETRY_ATTEMPTS \<le> attempt then
        retry_loop encodable answers i batch (st\<lparr>pb_dropped := pb_dropped st @ [p]\<rparr>)
      else if \<not> encodable p then
        retry_loop encodable answers i batch (st\<lparr>pb_dropped := pb_dropped st @ [p]\<rparr>)
      else case answers i of
        Raises \<Rightarrow>
          st\<lparr>pb_queue := dq_prepend MAX_FAILED_QUEUE_SIZE batch
               (dq_append MAX_FAILED_QUEUE_SIZE (p, attempt + 1) (pb_queue st))\<rparr>
      | Code rc \<Rightarrow>
          (if rc = 0 then retry_loop encodable answers (i + 1) batch (st\<lparr>pb_published := pb_published st @ [p]\<rparr>)
           else retry_loop encodable answers (i + 1) batch
             (st\<lparr>pb_queue := dq_append MAX_FAILED_QUEUE_SIZE (p, attempt + 1) (pb_queue st)\<rparr>)))"

definition retry_failed_messages ::
  "pub_config \<Rightarrow> bool \<Rightarrow> (alert_payload \<Rightarrow> bool) \<Rightarrow> (nat \<Rightarrow> answer) \<Rightarrow> publisher \<Rightarrow> publisher" where
  "retry_failed_messages cfg build_ok encodable answers st =
     (if pb_queue st = [] then st
      else let st1 = st\<lparr>pb_client := get_pub_client cfg build_ok (pb_client st)\<rparr> in
        if pb_client st1 = None then st1
        else retry_loop encodable answers 0 (take RETRY_BATCH_SIZE (pb_queue st))
               (st1\<lparr>pb_queue := drop RETRY_BATCH_SIZE (pb_queue st)\<rparr>))"

text \<open>
  \<open>publish_alert\<close>: \<open>connected\<close> and \<open>rc\<close> are what the client answers for the message itself, \<open>answers\<close>
  what it answers to the retries.  The exception of an interrupted retry is swallowed.
\<close>

definition publish_alert ::
  "pub_config \<Rightarrow> bool \<Rightarrow> bool \<Rightarrow> int \<Rightarrow> (alert_payload \<Rightarrow> bool) \<Rightarrow> (nat \<Rightarrow> answer) \<Rightarrow> alert_payload \<Rightarrow> publisher \<Rightarrow> publisher" where
  "publish_alert cfg build_ok online rc encodable answers p st =
     (let st1 = st\<lparr>pb_client := get_pub_client cfg build_ok (pb_client st)\<rparr> in
      if pb_client st1 = None then queue_failed_message p st1
      else if \<not> online then queue_failed_message p st1
      else if \<not> encodable p then st1\<lparr>pb_dropped := pb_dropped st1 @ [p]\<rparr>
      else if rc \<noteq> 0 then queue_failed_message p st1
      else retry_failed_messages cfg build_ok encodable answers (st1\<lparr>pb_published := pb_published st1 @ [p]\<rparr>))"

definition get_publisher_stats :: "bool \<Rightarrow> publisher \<Rightarrow> bool \<times> nat \<times> nat \<times> nat" where
  "get_publisher_stats online st =
     (pb_client st \<noteq> None \<and> online, length (pb_queue st), MAX_FAILED_QUEUE_SIZE, MAX_RETRY_ATTEMPTS)"

section \<open>Conservation\<close>

text \<open>Everything handed over is published, dropped for a reason, or waiting.\<close>

definition accounted :: "publisher \<Rightarrow> alert_payload list" where
  "accounted st = pb_published st @ pb_dropped st @ map fst (pb_queue st)"

lemma dq_append_room: "length q < limit \<Longrightarrow> dq_append limit x q = q @ [x]"
  by (simp add: dq_append_def)

lemma queue_failed_accounts:
  assumes "length (pb_queue st) \<le> MAX_FAILED_QUEUE_SIZE"
  shows "mset (accounted (queue_failed_message p st)) = add_mset p (mset (accounted st))"
    "length (pb_queue (queue_failed_message p st)) \<le> MAX_FAILED_QUEUE_SIZE"
proof -
  have "length (pb_queue (queue_failed_message p st)) \<le> MAX_FAILED_QUEUE_SIZE \<and>
    mset (accounted (queue_failed_message p st)) = add_mset p (mset (accounted st))"
  proof (cases "MAX_FAILED_QUEUE_SIZE \<le> length (pb_queue st)")
    case True
    then obtain x q where q: "pb_queue st = x # q" by (cases "pb_queue st") (auto simp: MAX_FAILED_QUEUE_SIZE_def)
    then show ?thesis using True assms
      by (simp add: queue_failed_message_def dq_append_room accounted_def)
  qed (simp add: queue_failed_message_def dq_append_room accounted_def)
  then show "mset (accounted (queue_failed_message p st)) = add_mset p (mset (accounted st))"
    "length (pb_queue (queue_failed_message p st)) \<le> MAX_FAILED_QUEUE_SIZE" by simp_all
qed

interpretation failed_queue: bounded "\<lambda>st. length (pb_queue st)" queue_failed_message MAX_FAILED_QUEUE_SIZE
  by unfold_locales (rule queue_failed_accounts)

lemma retry_loop_accounts:
  "length batch + length (pb_queue st) \<le> MAX_FAILED_QUEUE_SIZE \<Longrightarrow>
   mset (accounted (retry_loop encodable answers i batch st)) = mset (map fst batch) + mset (accounted st) \<and>
   length (pb_queue (retry_loop encodable answers i batch st)) \<le> length batch + length (pb_queue st)"
proof (induction encodable answers i batch st rule: retry_loop.induct)
  case (2 encodable answers i p attempt batch st)
  then show ?case
    by (auto simp: accounted_def dq_append_room dq_prepend_def intro: le_SucI split: answer.splits)
qed (simp add: accounted_def)

text \<open>No message is retried more than five times.\<close>

definition attempts_ok :: "failed list \<Rightarrow> bool" where
  "attempts_ok q = list_all (\<lambda>(p, a). a \<le> MAX_RETRY_ATTEMPTS) q"

lemma attempts_ok_simps [simp]:
  "attempts_ok []" "attempts_ok ((p, a) # q) \<longleftrightarrow> a \<le> MAX_RETRY_ATTEMPTS \<and> attempts_ok q"
  "attempts_ok (q @ r) \<longleftrightarrow> attempts_ok q \<and> attempts_ok r"
  by (simp_all add: attempts_ok_def)

lemma attempts_ok_sub: "attempts_ok q \<Longrightarrow> set r \<subseteq> set q \<Longrightarrow> attempts_ok r"
  by (auto simp: attempts_ok_def list_all_iff)

lemma attempts_ok_append: "attempts_ok q \<Longrightarrow> a \<le> MAX_RETRY_ATTEMPTS \<Longrightarrow> attempts_ok (dq_append n (p, a) q)"
  using attempts_ok_sub [of q "drop 1 q"] set_drop_subset [of 1 q] by (auto simp: dq_append_def)

lemma attempts_ok_prepend: "attempts_ok q \<Longrightarrow> attempts_ok r \<Longrightarrow> attempts_ok (dq_prepend n r q)"
  using attempts_ok_sub [of "r @ q" "take n (r @ q)"] set_take_subset [of n "r @ q"] by (simp add: dq_prepend_def)

lemma retry_loop_attempts:
  "attempts_ok batch \<Longrightarrow> attempts_ok (pb_queue st) \<Longrightarrow> attempts_ok (pb_queue (retry_loop encodable answers i batch st))"
  by (induction encodable answers i batch st rule: retry_loop.induct)
    (auto simp: attempts_ok_append attempts_ok_prepend split: answer.splits)

lemma retry_loop_client [simp]: "pb_client (retry_loop encodable answers i batch st) = pb_client st"
  by (induction encodable answers i batch st rule: retry_loop.induct) (auto split: answer.splits)

lemma queue_failed_frame [simp]: "pb_client (queue_failed_message p st) = pb_client st"
  by (simp add: queue_failed_message_def)

lemma queue_failed_attempts: "attempts_ok (pb_queue st) \<Longrightarrow> attempts_ok (pb_queue (queue_failed_message p st))"
  using attempts_ok_sub [of "pb_queue st" "drop 1 (pb_queue st)"] set_drop_subset [of 1 "pb_queue st"]
  by (simp add: queue_failed_message_def attempts_ok_append)

definition client_ok :: "pub_config \<Rightarrow> bool option \<Rightarrow> bool" where
  "client_ok cfg c = (case c of None \<Rightarrow> True
     | Some tls \<Rightarrow> if tls then pc_use_tls cfg else \<not> pc_use_tls cfg \<and> \<not> broker_requires_tls cfg)"

lemma get_pub_client_ok: "client_ok cfg c \<Longrightarrow> client_ok cfg (get_pub_client cfg b c)"
  by (auto simp: client_ok_def get_pub_client_def split: option.splits if_splits)

lemma get_pub_client_again [simp]: "get_pub_client cfg b (get_pub_client cfg b c) = get_pub_client cfg b c"
  by (simp add: get_pub_client_def split: option.splits)

text \<open>The invariant of a worker's publisher.\<close>

definition pub_ok :: "pub_config \<Rightarrow> publisher \<Rightarrow> bool" where
  "pub_ok cfg st = (length (pb_queue st) \<le> MAX_FAILED_QUEUE_SIZE \<and> attempts_ok (pb_queue st) \<and> client_ok cfg (pb_client st))"

lemma retry_accounts:
  assumes "pub_ok cfg st"
  shows "mset (accounted (retry_failed_messages cfg b encodable answers st)) = mset (accounted st)"
    "pub_ok cfg (retry_failed_messages cfg b encodable answers st)"
proof -
  let ?q = "pb_queue st"
  define st1 where "st1 = st\<lparr>pb_client := get_pub_client cfg b (pb_client st)\<rparr>"
  have st1: "pub_ok cfg st1" "accounted st1 = accounted st" "pb_queue st1 = ?q" "pb_published st1 = pb_published st" "pb_dropped st1 = pb_dropped st"
    using assms get_pub_client_ok by (simp_all add: st1_def pub_ok_def accounted_def)
  have len: "length (take RETRY_BATCH_SIZE ?q) + length (pb_queue (st1\<lparr>pb_queue := drop RETRY_BATCH_SIZE ?q\<rparr>)) \<le> MAX_FAILED_QUEUE_SIZE"
    using assms by (auto simp: pub_ok_def)
  note acc = retry_loop_accounts [OF len, of encodable answers 0]
  have "mset (map fst (take RETRY_BATCH_SIZE ?q)) + mset (map fst (drop RETRY_BATCH_SIZE ?q)) = mset (map fst ?q)"
    by (metis append_take_drop_id map_append mset_append)
  then have m: "mset (accounted (retry_loop encodable answers 0 (take RETRY_BATCH_SIZE ?q) (st1\<lparr>pb_queue := drop RETRY_BATCH_SIZE ?q\<rparr>)))
      = mset (accounted st)"
    using acc st1(3-5) by (simp add: accounted_def ac_simps)
  have a: "attempts_ok (take RETRY_BATCH_SIZE ?q)" "attempts_ok (drop RETRY_BATCH_SIZE ?q)"
    using assms attempts_ok_sub set_take_subset set_drop_subset unfolding pub_ok_def by metis+
  have ok: "pub_ok cfg (retry_loop encodable answers 0 (take RETRY_BATCH_SIZE ?q) (st1\<lparr>pb_queue := drop RETRY_BATCH_SIZE ?q\<rparr>))"
    using acc len retry_loop_attempts [OF a(1), of "st1\<lparr>pb_queue := drop RETRY_BATCH_SIZE ?q\<rparr>" encodable answers 0] a(2) st1(1)
    by (simp add: pub_ok_def)
  show "mset (accounted (retry_failed_messages cfg b encodable answers st)) = mset (accounted st)"
    "pub_ok cfg (retry_failed_messages cfg b encodable answers st)"
    using m ok st1 assms unfolding retry_failed_messages_def Let_def st1_def [symmetric] by simp_all
qed

lemma queue_failed_ok:
  "pub_ok cfg st \<Longrightarrow> pub_ok cfg (queue_failed_message p st) \<and> mset (accounted (queue_failed_message p st)) = add_mset p (mset (accounted st))"
  using queue_failed_accounts [of st p] queue_failed_attempts by (simp add: pub_ok_def)

section \<open>Properties\<close>


definition demo_pub_config :: pub_config where
  "demo_pub_config = \<lparr>pc_use_tls = False, pc_ca = [], pc_cert = [], pc_key = [], pc_port = 1883\<rparr>"

definition demo_alert_payload :: "string \<Rightarrow> alert_payload" where
  "demo_alert_payload n = \<lparr>ap_node_id = n, ap_aqi = 180, ap_category = None, ap_severity = ''critical'', ap_timestamp = ''t''\<rparr>"

definition waiting_publisher :: publisher where
  "waiting_publisher = \<lparr>pb_queue = [(demo_alert_payload ''a'', 5), (demo_alert_payload ''b'', 0), (demo_alert_payload ''c'', 2)],
     pb_client = None, pb_published = [], pb_dropped = []\<rparr>"

lemma waiting_ok: "pub_ok demo_pub_config waiting_publisher"
  by (simp add: pub_ok_def waiting_publisher_def client_ok_def MAX_FAILED_QUEUE_SIZE_def MAX_RETRY_ATTEMPTS_def)


lemma retry_loop_all:
  "(\<And>i. answers i = Code 0) \<Longrightarrow> (\<And>p. encodable p) \<Longrightarrow>
   pb_queue (retry_loop encodable answers i batch st) = pb_queue st \<and>
   pb_published (retry_loop encodable answers i batch st) =
     pb_published st @ map fst (filter (\<lambda>(p, a). a < MAX_RETRY_ATTEMPTS) batch)"
  by (induction encodable answers i batch st rule: retry_loop.induct) (auto simp: not_le)

text \<open>
  A recovered broker drains the backlog: each alert that gets through takes the oldest ten waiting alerts
  with it, in order, except those that have used up their five attempts.
\<close>

theorem recovered_broker_drains:
  assumes "get_pub_client cfg b (pb_client st) \<noteq> None" "\<And>i. answers i = Code 0" "\<And>q. encodable q"
  shows "pb_queue (publish_alert cfg b True 0 encodable answers p st) = drop 10 (pb_queue st) \<and>
    pb_published (publish_alert cfg b True 0 encodable answers p st) =
      pb_published st @ p # map fst (filter (\<lambda>(q, a). a < 5) (take 10 (pb_queue st)))"
proof -
  obtain c where c: "get_pub_client cfg b (pb_client st) = Some c" using assms(1) by blast
  then have again: "get_pub_client cfg b (Some c) = Some c" by (simp add: get_pub_client_def)
  show ?thesis
    by (simp add: publish_alert_def retry_failed_messages_def Let_def assms(3) c again retry_loop_all [OF assms(2,3)]
        RETRY_BATCH_SIZE_def MAX_RETRY_ATTEMPTS_def)
qed

theorem recovered_broker_drains_witness:
  "pb_queue (publish_alert demo_pub_config True True 0 (\<lambda>_. True) (\<lambda>_. Code 0) (demo_alert_payload ''d'') waiting_publisher) = []"
  using recovered_broker_drains [of demo_pub_config True waiting_publisher "\<lambda>_. Code 0" "\<lambda>_. True" "demo_alert_payload ''d''"]
  by (simp add: waiting_publisher_def get_pub_client_def demo_pub_config_def broker_requires_tls_def)

end
