(* ===== verification/Spec2Isabelle.thy ===== *)
theory Spec2Isabelle
  imports Release Lifespan Alarm_Chain Deployment Fleet Lockout Export_Pool Responses Load_Generator
    Circuit_Breaker Mqtt_Publisher
begin

text \<open>
  Empyrean V2 is the backend of an air-quality sensor network (Python: Quart, Celery, SQLAlchemy,
  Redis, MQTT).  Devices publish readings over MQTT; a listener (\<open>src/mqtt/client.py\<close>) validates them
  and hands them to Celery; a task (\<open>src/tasks/process_reading.py\<close>) scores and stores them; beat tasks
  raise alerts, aggregate, purge and train forecasts (\<open>src/tasks/\<close>); an HTTP and WebSocket API
  (\<open>src/api/\<close>) serves accounts, nodes, readings, alerts, exports and settings from PostgreSQL behind Redis
  caches; console programs (\<open>src/scripts/\<close>) and migrations (\<open>src/migrations/\<close>) set a deployment up.  This
  library models that code and proves what makes it correct.

  \<^bold>\<open>Conventions.\<close>  A table is the list of its rows (\<open>Models\<close>, with the SQL statements of \<open>Prelude\<close>); the record \<open>db\<close>
  holds the nine tables.  A handler or task takes the database and the Redis client and returns its
  answer with both of them; a route's answer is a \<open>response\<close> with its status, an exception is a value of
  \<open>py_error\<close>.  Redis (\<open>Redis\<close>) is \<open>NoClient\<close> or a client with a store of expiring keys and a schedule of
  failing commands, so that every fail-soft branch is a case.  Python floats are exact rationals
  rounded by \<open>fl64\<close> (\<open>Float64\<close>, \<open>Py_Float\<close>), with infinities and NaN where the code can meet them
  (\<open>pyfloat\<close>); times are integers of microseconds and the clock is an argument; strings are UTF-8
  bytes; dicts whose order shows are association lists (\<open>Py_Value\<close>, \<open>Py_Time\<close>).  Code outside the
  repository is a parameter: the fields of \<open>env\<close>, \<open>auth_env\<close>, \<open>schema_env\<close>, \<open>ingest_env\<close>, \<open>forecast_env\<close>,
  \<open>query_env\<close>, \<open>export_env\<close>, \<open>transport\<close>, \<open>console\<close> and \<open>stack\<close> stand for PostgreSQL's aggregates, the JWT codec,
  bcrypt and SHA-256, pydantic's coercions, the regression, SMTP and the answers of probes.

  \<^bold>\<open>Foundations.\<close>  \<open>Prelude\<close>: exceptions, tables, dicts, responses, and the locale \<open>bounded\<close> of stores that
  never outgrow a limit, interpreted by the rate limiter's table and by the failed-message queue.
  \<open>Float64\<close>: rounding to binary64, its laws in the locale \<open>rounding\<close>.  \<open>Redis\<close>: commands, faults, and the
  locale \<open>kv_store\<close> of what a key holds after a write or a delete.

  \<^bold>\<open>Readings.\<close>  \<open>Membership\<close>, \<open>Tsukamoto\<close> (\<open>src/fuzzy/\<close>): the membership functions, the 27 rules and the inference;
  the score stays in its range for every input, including the rounding of every operation.  \<open>Aqi\<close>
  (\<open>src/tasks/aqi.py\<close>): break-point tables, sub-indices and the category.  \<open>Process_Reading\<close>: parsing, time
  clamp, anomaly detection, insert, duplicate guard and write-through; every outcome of the task is
  stated with its effect on the database.  \<open>Mqtt_Messages\<close> (\<open>src/mqtt/validator.py\<close>, \<open>config.py\<close>,
  \<open>registry.py\<close>): topics, payload validation, the device configuration push.  \<open>Mqtt_Ingest\<close> and
  \<open>Mqtt_Session\<close> (\<open>src/mqtt/client.py\<close>): the per-node limiter, the bounded queue, the worker, the drain at
  shutdown; the subscription state machine as a step relation with its invariant.  \<open>Mqtt_Publisher\<close>:
  the alert publisher, whose failed messages are conserved.  \<open>Ingest_Chain\<close> joins them: an
  accepted message becomes one row with the values it carried, however often it is delivered.

  \<^bold>\<open>Background tasks.\<close>  \<open>Alerts\<close> and \<open>Emailer\<close> (\<open>src/tasks/alerts.py\<close>, \<open>src/api/alerts.py\<close>, \<open>emailer.py\<close>): the threshold
  run refines a specification of escalation over the alert table.  \<open>Aggregation\<close>: hourly buckets, retention
  and the two token sweeps (locale \<open>sweep\<close>).  \<open>Forecast\<close>: training points, the bulk query against
  the per-node one, model validation, the cached endpoint.  \<open>Circuit_Breaker\<close> (\<open>src/celery_app.py\<close>): the
  two Lua scripts and the dispatch gate refine a sliding window of failures.  \<open>Alarm_Chain\<close>: from a
  message on the broker to an open critical alert.

  \<^bold>\<open>Accounts.\<close>  \<open>Jwt\<close> (\<open>src/api/jwt.py\<close>): tokens, blocklist, the cached account, the decorators.  \<open>Auth\<close>, \<open>Profile\<close>:
  registration, login, rotation with reuse detection, reset, profile.  \<open>Sessions\<close>: the reachable
  histories of those operations, the locale \<open>token_store\<close>, single use of refresh and reset tokens, the
  account invariant.  \<open>Websocket\<close> (\<open>src/api/ws/\<close>): registry, broadcast, handshake and the deadline of a
  socket.  \<open>Lockout\<close>: a logout is felt by every one of them.

  \<^bold>\<open>The HTTP surface.\<close>  \<open>Http\<close> (\<open>src/api/rate_limit.py\<close>, \<open>validation.py\<close>, \<open>_time.py\<close>, \<open>src/app_factory/helpers.py\<close>): the
  limiter, body validation, error handlers, life cycle of the listener.  \<open>Schemas\<close>: the request models.
  \<open>Iso_Time\<close>: the \<open>Z\<close> form of times and the reader of the query parameters; \<open>Responses\<close>: the response models
  and the documents of the endpoints against them.  \<open>Nodes\<close>, \<open>Readings\<close>, \<open>Csv\<close>, \<open>Export\<close>, \<open>Admin_Settings\<close>,
  \<open>Admin_Health\<close>: the endpoints.  \<open>Export_Pool\<close>: any number of exports at once, as events on their two nested
  generators and the semaphore, with the laws of the semaphore, its order of service, and what an
  export delivers under load; it also shows what the time limit does not prevent.  \<open>Cache\<close>: the helpers over
  Redis and both lazy clients.  \<open>Fleet\<close>: what deactivating a node does to the device, the task and the API.

  \<^bold>\<open>Set-up and operation.\<close>  \<open>Config\<close> (\<open>src/config/__init__.py\<close>): every validator.  \<open>Deployment\<close>: start-up
  configuration and patched settings together keep the thresholds ordered.  \<open>Migrations\<close>: the
  nine revisions as operations on a schema, run by an interpreter; the head equals what the models
  declare.  \<open>Operator_Scripts\<close>, \<open>Operator_Checks\<close>: the console programs.  \<open>Release\<close>: migrate, seed, check.
  \<open>Observability\<close> (\<open>src/app_factory/factory.py\<close>, \<open>tracing.py\<close>, \<open>logging_setup.py\<close>, \<open>src/api/metrics.py\<close>,
  \<open>request_log.py\<close>): the application factory and what a request leaves behind.  \<open>Lifespan\<close>: the hooks of the factory
  run over the components they start and stop, and \<open>main()\<close> of \<open>src/mqtt/client.py\<close>.  \<open>Load_Generator\<close>
  (\<open>src/scripts/bench.py\<close>): its reader, its workers' accounts and its percentiles.

  \<^bold>\<open>Bounds and termination.\<close>  No definition takes fuel.  Loops over data are structural; the queue's drain recurses on the
  queue under the deadline the code sets; prompts recurse on the operator's answers; the generator of secrets
  and the listener's wait for its subscriptions, the loops that may run forever, are \<open>partial_function\<close>s into \<open>option\<close>,
  and that they end is proved from the random source and from the clock.  Integers are unbounded as in Python; floats are rounded at every operation.

  \<^bold>\<open>Not modelled.\<close>  The codecs and engines above; the rounding of REAL columns to single precision;
  SQL isolation (a handler is one transaction; the races the code guards against appear as duplicate
  deliveries, stale snapshots and unique keys that refuse);
  Unicode case mapping beyond ASCII; the texts of log lines and console output; reading and coercing the environment
  (pydantic-settings); blueprint registration and the Celery configuration dictionary, which are data for the frameworks;
  inside the endpoints the text of a time is the parameter that renders it, and \<open>Iso_Time\<close> shows that the real
  one keeps the laws they ask of it; \<open>src/scripts/banner.py\<close> (terminal art) and \<open>db_utils.py\<close> (one constructor
  call); \<open>src/migrations/env.py\<close>.
\<close>

end
